(* ===== verification/Prelude.thy ===== *)
theory Prelude
  imports Main "HOL-Library.Sublist"
begin

text \<open>
  Shared vocabulary of the development: the collections of simplification rules the component
  proofs use, and the operations of the JavaScript string type the gateway calls
  (\<open>startsWith\<close>, \<open>endsWith\<close>, \<open>slice\<close>, \<open>indexOf\<close>, \<open>split\<close>, \<open>join\<close>, \<open>trim\<close>,
  \<open>toLowerCase\<close>), on strings as character lists. Characters are 8-bit, which is what Node's
  HTTP parser delivers for request lines and header values; case mapping and white space follow
  JavaScript on the ASCII range (plus the no-break space for \<open>trim\<close>).
\<close>

named_theorems js_str \<open>evaluation and characterisation of the string operations\<close>
named_theorems js_arith \<open>rounding facts of the number model\<close>
named_theorems wf_intro \<open>introduction rules for the well-formedness invariants\<close>

section \<open>Strings\<close>

definition js_starts_with :: "string \<Rightarrow> string \<Rightarrow> bool" where
  "js_starts_with s p \<longleftrightarrow> take (length p) s = p"

definition js_ends_with :: "string \<Rightarrow> string \<Rightarrow> bool" where
  "js_ends_with s p \<longleftrightarrow> length p \<le> length s \<and> drop (length s - length p) s = p"

text \<open>\<open>s.indexOf(c)\<close> for a one-character needle; \<open>None\<close> is the result \<open>-1\<close>.\<close>

fun js_index_of :: "char \<Rightarrow> string \<Rightarrow> nat option" where
  "js_index_of c [] = None"
| "js_index_of c (x # xs) = (if x = c then Some 0 else map_option Suc (js_index_of c xs))"

text \<open>\<open>s.split(c)\<close> for a one-character separator: never empty, one piece more than separators.\<close>

fun js_split :: "char \<Rightarrow> string \<Rightarrow> string list" where
  "js_split c [] = [[]]"
| "js_split c (x # xs) =
     (if x = c then [] # js_split c xs
      else (case js_split c xs of [] \<Rightarrow> [[x]] | p # ps \<Rightarrow> (x # p) # ps))"

fun js_join :: "string \<Rightarrow> string list \<Rightarrow> string" where
  "js_join sep [] = []"
| "js_join sep [p] = p"
| "js_join sep (p # ps) = p @ sep @ js_join sep ps"

definition lower_char :: "char \<Rightarrow> char" where
  "lower_char c = (let n = (of_char c :: nat) in if 65 \<le> n \<and> n \<le> 90 then char_of (n + 32) else c)"

definition js_lower :: "string \<Rightarrow> string" where
  "js_lower s = map lower_char s"

definition is_space :: "char \<Rightarrow> bool" where
  "is_space c \<longleftrightarrow> (let n = (of_char c :: nat) in (9 \<le> n \<and> n \<le> 13) \<or> n = 32 \<or> n = 160)"

definition js_trim :: "string \<Rightarrow> string" where
  "js_trim s = rev (dropWhile is_space (rev (dropWhile is_space s)))"

subsection \<open>Their laws\<close>

lemma js_starts_with_iff [js_str]: "js_starts_with s p \<longleftrightarrow> (\<exists>r. s = p @ r)"
  by (metis append_eq_conv_conj append_take_drop_id js_starts_with_def)

lemma js_starts_with_append [simp]: "js_starts_with (p @ r) p"
  by (simp add: js_starts_with_def)

lemma js_ends_with_iff [js_str]: "js_ends_with s p \<longleftrightarrow> (\<exists>r. s = r @ p)"
proof
  assume "js_ends_with s p"
  then have "s = take (length s - length p) s @ p"
    by (metis append_take_drop_id js_ends_with_def)
  then show "\<exists>r. s = r @ p" by blast
qed (auto simp: js_ends_with_def)

lemma js_index_of_None [js_str]: "js_index_of c s = None \<longleftrightarrow> c \<notin> set s"
  by (induction s) auto

lemma js_index_of_append [simp]:
  "c \<notin> set p \<Longrightarrow> js_index_of c (p @ c # q) = Some (length p)"
  by (induction p) auto

lemma js_index_of_Some:
  "js_index_of c s = Some i \<Longrightarrow> \<exists>p q. s = p @ c # q \<and> c \<notin> set p \<and> length p = i"
proof (induction s arbitrary: i)
  case (Cons x xs)
  show ?case
  proof (cases "x = c")
    case True
    with Cons.prems show ?thesis by force
  next
    case False
    with Cons.prems obtain j where j: "js_index_of c xs = Some j" "i = Suc j" by auto
    from Cons.IH [OF j(1)] obtain p q where "xs = p @ c # q" "c \<notin> set p" "length p = j" by blast
    with False j(2) show ?thesis by (intro exI [of _ "x # p"] exI [of _ q]) auto
  qed
qed simp

lemma js_split_nonempty [simp]: "js_split c s \<noteq> []"
  by (induction s) (auto split: list.splits)

lemma js_split_absent [simp]: "c \<notin> set s \<Longrightarrow> js_split c s = [s]"
  by (induction s) auto

lemma js_split_append [simp]: "c \<notin> set p \<Longrightarrow> js_split c (p @ c # q) = p # js_split c q"
  by (induction p) auto

lemma js_split_pieces: "p \<in> set (js_split c s) \<Longrightarrow> c \<notin> set p"
proof (induction s arbitrary: p)
  case (Cons x xs)
  then show ?case
  proof (cases "js_split c xs")
    case Nil
    then show ?thesis by simp
  next
    case (Cons q qs)
    with Cons.prems Cons.IH show ?thesis by (auto split: if_splits)
  qed
qed simp

lemma js_join_Cons: "ps \<noteq> [] \<Longrightarrow> js_join sep (p # ps) = p @ sep @ js_join sep ps"
  by (cases ps) auto

lemma js_join_split [simp]: "js_join [c] (js_split c s) = s"
proof (induction s)
  case (Cons x xs)
  obtain q qs where q: "js_split c xs = q # qs"
    by (meson js_split_nonempty neq_Nil_conv)
  with Cons.IH show ?case
    by (cases qs) auto
qed simp

lemma js_split_join [simp]:
  "ps \<noteq> [] \<Longrightarrow> \<forall>p \<in> set ps. c \<notin> set p \<Longrightarrow> js_split c (js_join [c] ps) = ps"
proof (induction ps rule: induct_list012)
  case (3 p q ps)
  then show ?case by simp
qed auto

text \<open>Two lists of separator-free pieces with the same join and length are the same list.\<close>

lemma js_join_inj:
  assumes "js_join [c] ps = js_join [c] qs" "ps \<noteq> []" "qs \<noteq> []"
    and "\<forall>p \<in> set ps. c \<notin> set p" "\<forall>q \<in> set qs. c \<notin> set q"
  shows "ps = qs"
  using assms by (metis js_split_join)

lemma lower_char_idem [simp]: "lower_char (lower_char c) = lower_char c"
  by (auto simp: lower_char_def Let_def)

lemma js_lower_idem [simp]: "js_lower (js_lower s) = js_lower s"
  by (simp add: js_lower_def)

lemma length_js_lower [simp]: "length (js_lower s) = length s"
  by (simp add: js_lower_def)

lemma js_lower_append [simp]: "js_lower (s @ t) = js_lower s @ js_lower t"
  by (simp add: js_lower_def)

section \<open>Lists and maps\<close>

text \<open>\<open>Array.prototype.find\<close>.\<close>

fun js_find :: "('a \<Rightarrow> bool) \<Rightarrow> 'a list \<Rightarrow> 'a option" where
  "js_find P [] = None"
| "js_find P (x # xs) = (if P x then Some x else js_find P xs)"

lemma js_find_None [simp]: "js_find P xs = None \<longleftrightarrow> (\<forall>x \<in> set xs. \<not> P x)"
  by (induction xs) auto

lemma js_find_split:
  "\<forall>y \<in> set ys. \<not> P y \<Longrightarrow> P x \<Longrightarrow> js_find P (ys @ x # zs) = Some x"
  by (induction ys) auto

lemma js_find_SomeE:
  assumes "js_find P xs = Some x"
  obtains ys zs where "xs = ys @ x # zs" "P x" "\<forall>y \<in> set ys. \<not> P y"
proof -
  have "\<exists>ys zs. xs = ys @ x # zs \<and> P x \<and> (\<forall>y \<in> set ys. \<not> P y)"
    using assms
  proof (induction xs)
    case (Cons a xs)
    show ?case
    proof (cases "P a")
      case True
      with Cons.prems show ?thesis by force
    next
      case False
      with Cons obtain ys zs where "xs = ys @ x # zs" "P x" "\<forall>y \<in> set ys. \<not> P y" by auto
      with False show ?thesis by (intro exI [of _ "a # ys"] exI [of _ zs]) auto
    qed
  qed simp
  then show ?thesis using that by blast
qed

lemma js_find_SomeD: "js_find P xs = Some x \<Longrightarrow> x \<in> set xs \<and> P x"
  by (induction xs) (auto split: if_splits)

end
