(* ===== verification/JsNumber.thy ===== *)
theory JsNumber
  imports Prelude Complex_Main "HOL-Library.Log_Nat"
begin

text \<open>
  JavaScript numbers. A \<open>number\<close> is the rational value of a finite IEEE 754 binary64; every
  arithmetic operation of the source is the exact result followed by \<open>round64\<close>, rounding to
  nearest, ties to even, on 53 significant bits. The exponent range is unbounded: overflow to
  \<open>Infinity\<close> and gradual underflow do not occur at the magnitudes of timestamps and quotas, and
  \<open>NaN\<close> and \<open>-0\<close> are not values of the type. Where the source can meet \<open>NaN\<close> (\<open>Number(s)\<close> on a
  header) the model has an option instead. The locale \<open>rounding\<close> states what clients rely on;
  its interpretation at the end of the theory discharges it for \<open>round64\<close>.
\<close>

section \<open>Rounding to 53 bits\<close>

type_synonym number = rat

text \<open>Nearest integer, ties to even.\<close>

definition round_half_even :: "rat \<Rightarrow> int" where
  "round_half_even y =
     (let f = \<lfloor>y\<rfloor>; d = y - of_int f
      in if d < 1/2 then f else if 1/2 < d then f + 1 else if even f then f else f + 1)"

text \<open>The binary exponent: \<open>2^e \<le> |x| < 2^(e+1)\<close>.\<close>

definition expo64 :: "rat \<Rightarrow> int" where
  "expo64 x =
     (let (p, q) = quotient_of \<bar>x\<bar>; e = bitlen p - bitlen q
      in if 2 powi e \<le> \<bar>x\<bar> then e else e - 1)"

definition round64 :: "rat \<Rightarrow> number" where
  "round64 x =
     (if x = 0 then 0
      else let s = 2 powi (expo64 x - 52) in of_int (round_half_even (x / s)) * s)"

lemma round_half_even_int [simp]: "round_half_even (of_int i) = i"
  by (simp add: round_half_even_def)

lemma round_half_even_near: "\<bar>of_int (round_half_even y) - y\<bar> \<le> 1/2"
proof -
  define f where "f = \<lfloor>y\<rfloor>"
  have "of_int f \<le> y" "y < of_int f + 1" unfolding f_def by linarith+
  then show ?thesis
    by (auto simp: round_half_even_def Let_def f_def [symmetric] abs_le_iff field_simps)
qed

lemma round_half_even_floor: "\<lfloor>y\<rfloor> \<le> round_half_even y" "round_half_even y \<le> \<lfloor>y\<rfloor> + 1"
  by (auto simp: round_half_even_def Let_def)

lemma round_half_even_mono: "x \<le> y \<Longrightarrow> round_half_even x \<le> round_half_even y"
proof (cases "\<lfloor>x\<rfloor> = \<lfloor>y\<rfloor>")
  case True
  assume "x \<le> y"
  with True show ?thesis by (auto simp: round_half_even_def Let_def)
next
  case False
  assume "x \<le> y"
  then have "\<lfloor>x\<rfloor> \<le> \<lfloor>y\<rfloor>" by (rule floor_mono)
  with False have "\<lfloor>x\<rfloor> + 1 \<le> \<lfloor>y\<rfloor>" by linarith
  with round_half_even_floor [of x] round_half_even_floor [of y] show ?thesis by linarith
qed

lemma round_half_even_minus: "round_half_even (- y) = - round_half_even y"
proof (cases "y = of_int \<lfloor>y\<rfloor>")
  case True
  then have "- y = of_int (- \<lfloor>y\<rfloor>)" by linarith
  then show ?thesis by (metis True round_half_even_int)
next
  case False
  define f where "f = \<lfloor>y\<rfloor>"
  have y: "of_int f < y" "y < of_int f + 1" using False unfolding f_def by linarith+
  then have g: "\<lfloor>- y\<rfloor> = - f - 1" by (intro floor_unique) auto
  show ?thesis
    unfolding round_half_even_def Let_def g f_def [symmetric] using y by auto
qed

lemma powi_of_int: "0 \<le> n \<Longrightarrow> (2 powi n :: rat) = of_int (2 ^ nat n)"
  by (simp add: power_int_nonneg_exp)

lemma expo64_bounds:
  assumes "x \<noteq> 0"
  shows "2 powi expo64 x \<le> \<bar>x\<bar>" "\<bar>x\<bar> < 2 powi (expo64 x + 1)"
proof -
  obtain p q where pq: "quotient_of \<bar>x\<bar> = (p, q)" by force
  have q: "q > 0" and x: "\<bar>x\<bar> = of_int p / of_int q"
    using quotient_of_denom_pos [OF pq] quotient_of_div [OF pq] by auto
  from assms have "0 < (of_int p / of_int q :: rat)" unfolding x [symmetric] by simp
  with q have p: "p > 0" by (simp add: zero_less_divide_iff)
  define e where "e = bitlen p - bitlen q"
  have bp: "2 ^ nat (bitlen p - 1) \<le> p" "p < 2 ^ nat (bitlen p)"
    and bq: "2 ^ nat (bitlen q - 1) \<le> q" "q < 2 ^ nat (bitlen q)"
    using bitlen_bounds p q by auto
  have "bitlen p \<noteq> 0" "bitlen q \<noteq> 0"
    using p q by (auto simp: bitlen_eq_zero_iff)
  then have pos: "bitlen p > 0" "bitlen q > 0"
    using bitlen_nonneg [of p] bitlen_nonneg [of q] by linarith+
  have pw: "2 powi (bitlen p - 1) \<le> (of_int p :: rat)" "(of_int p :: rat) < 2 powi bitlen p"
    using bp pos by (simp_all add: powi_of_int del: of_int_power)
  have qw: "2 powi (bitlen q - 1) \<le> (of_int q :: rat)" "(of_int q :: rat) < 2 powi bitlen q"
    using bq pos by (simp_all add: powi_of_int del: of_int_power)
  have "\<bar>x\<bar> < 2 powi bitlen p / 2 powi (bitlen q - 1)"
    unfolding x using pw qw q p by (intro frac_less) auto
  also have "\<dots> = 2 powi (e + 1)"
    by (simp add: e_def power_int_diff power_int_add)
  finally have hi: "\<bar>x\<bar> < 2 powi (e + 1)" .
  have "2 powi (e - 1) = (2 powi (bitlen p - 1) / 2 powi bitlen q :: rat)"
    by (simp add: e_def power_int_diff power_int_add)
  also have "\<dots> \<le> \<bar>x\<bar>"
    unfolding x using pw qw q p by (intro frac_le) auto
  finally have lo: "2 powi (e - 1) \<le> \<bar>x\<bar>" .
  have E: "expo64 x = (if 2 powi e \<le> \<bar>x\<bar> then e else e - 1)"
    by (simp add: expo64_def pq e_def Let_def)
  show "2 powi expo64 x \<le> \<bar>x\<bar>" "\<bar>x\<bar> < 2 powi (expo64 x + 1)"
    unfolding E using lo hi by auto
qed

lemma expo64_unique:
  assumes "2 powi e \<le> \<bar>x\<bar>" "\<bar>x\<bar> < 2 powi (e + 1)"
  shows "expo64 x = e"
proof -
  from assms(1) have x: "x \<noteq> 0"
    by (metis abs_zero linorder_not_le zero_less_numeral zero_less_power_int)
  have "(2::rat) powi e < 2 powi (expo64 x + 1)" "(2::rat) powi expo64 x < 2 powi (e + 1)"
    using expo64_bounds [OF x] assms by linarith+
  then have "e < expo64 x + 1" "expo64 x < e + 1"
    by (metis linorder_not_le order_less_le_trans power_int_increasing one_le_numeral order_less_irrefl)+
  then show ?thesis by linarith
qed

lemma expo64_mono:
  assumes "x \<noteq> 0" "\<bar>x\<bar> \<le> \<bar>y\<bar>"
  shows "expo64 x \<le> expo64 y"
proof (rule ccontr)
  assume "\<not> ?thesis"
  then have "expo64 y + 1 \<le> expo64 x" by linarith
  then have "(2::rat) powi (expo64 y + 1) \<le> 2 powi expo64 x" by (intro power_int_increasing) auto
  moreover have "y \<noteq> 0" using assms by auto
  ultimately show False using expo64_bounds [of x] expo64_bounds [of y] assms by linarith
qed

lemma expo64_minus [simp]: "expo64 (- x) = expo64 x"
  by (simp add: expo64_def)

lemma round64_0 [simp, js_arith]: "round64 0 = 0"
  by (simp add: round64_def)

lemma round64_minus: "round64 (- x) = - round64 x"
  by (simp add: round64_def Let_def round_half_even_minus)

text \<open>A value with at most 53 significant bits is exact.\<close>

lemma round64_exact:
  assumes "\<bar>m\<bar> \<le> 2 ^ 53"
  shows "round64 (of_int m * 2 powi k) = of_int m * 2 powi k"
proof (cases "m = 0")
  case False
  define y where "y = (of_int m * 2 powi k :: rat)"
  define e where "e = expo64 y"
  have y: "y \<noteq> 0" using False by (simp add: y_def)
  have ay: "\<bar>y\<bar> = of_int \<bar>m\<bar> * 2 powi k" by (simp add: y_def abs_mult power_int_abs)
  have b: "2 powi e \<le> \<bar>y\<bar>" "\<bar>y\<bar> < 2 powi (e + 1)" using expo64_bounds [OF y] by (auto simp: e_def)
  have "\<exists>i. y / 2 powi (e - 52) = of_int i"
  proof (cases "e - 52 \<le> k")
    case True
    then have "y / 2 powi (e - 52) = of_int m * 2 powi (k - (e - 52))"
      by (simp add: y_def power_int_diff)
    also have "\<dots> = of_int (m * 2 ^ nat (k - (e - 52)))"
      using True by (simp add: power_int_nonneg_exp)
    finally show ?thesis by blast
  next
    case False
    then have "(2::rat) powi (k + 53) \<le> 2 powi e" by (intro power_int_increasing) auto
    also have "\<dots> \<le> of_int \<bar>m\<bar> * 2 powi k" using b ay by simp
    finally have "(2::rat) ^ 53 * 2 powi k \<le> of_int \<bar>m\<bar> * 2 powi k"
      by (simp add: power_int_add)
    then have "(2::rat) ^ 53 \<le> of_int \<bar>m\<bar>" by simp
    then have "2 ^ 53 \<le> \<bar>m\<bar>" by (metis of_int_le_iff of_int_numeral of_int_power)
    with assms have m: "\<bar>m\<bar> = 2 ^ 53" by simp
    have "\<bar>y\<bar> = 2 powi (k + 53)" unfolding ay m by (simp add: power_int_add)
    then have "e = k + 53" unfolding e_def
      by (intro expo64_unique) (auto intro: power_int_strict_increasing)
    then have "y / 2 powi (e - 52) = of_int m / 2"
      by (simp add: y_def power_int_add)
    moreover have "even m"
    proof -
      have "even \<bar>m\<bar>" unfolding m by simp
      then show ?thesis by simp
    qed
    then obtain n where "m = 2 * n" by blast
    ultimately have "y / 2 powi (e - 52) = of_int n" by simp
    then show ?thesis by blast
  qed
  then obtain i where i: "y / 2 powi (e - 52) = of_int i" by blast
  then have "round64 y = of_int i * 2 powi (e - 52)"
    using y by (simp add: round64_def e_def [symmetric] Let_def)
  also have "\<dots> = y" by (simp flip: i)
  finally show ?thesis by (simp add: y_def)
qed simp

lemma round64_int: "\<bar>i\<bar> \<le> 2 ^ 53 \<Longrightarrow> round64 (of_int i) = of_int i"
  using round64_exact [of i 0] by simp

lemma round64_form:
  assumes "x \<noteq> 0"
  obtains m where "round64 x = of_int m * 2 powi (expo64 x - 52)" "\<bar>m\<bar> \<le> 2 ^ 53"
    "m = round_half_even (x / 2 powi (expo64 x - 52))"
proof -
  define s where "s = (2 powi (expo64 x - 52) :: rat)"
  have s: "s > 0" by (simp add: s_def)
  have "\<bar>x\<bar> \<le> 2 ^ 53 * s"
    using expo64_bounds(2) [OF assms] by (simp add: s_def power_int_diff power_int_add)
  then have "x \<le> 2 ^ 53 * s" "- (2 ^ 53) * s \<le> x" by (simp_all add: abs_le_iff)
  then have "x / s \<le> of_int (2 ^ 53)" "of_int (- (2 ^ 53)) \<le> x / s"
    using s by (simp_all add: divide_le_eq le_divide_eq)
  then have "round_half_even (x / s) \<le> 2 ^ 53" "- (2 ^ 53) \<le> round_half_even (x / s)"
    using round_half_even_mono round_half_even_int by metis+
  then have "\<bar>round_half_even (x / s)\<bar> \<le> 2 ^ 53" by (simp add: abs_le_iff)
  with that assms show ?thesis by (simp add: round64_def s_def Let_def)
qed

lemma round64_idem [simp, js_arith]: "round64 (round64 x) = round64 x"
  by (cases "x = 0") (auto elim!: round64_form simp: round64_exact)

lemma round64_error: "\<bar>round64 x - x\<bar> \<le> \<bar>x\<bar> / 2 ^ 53"
proof (cases "x = 0")
  case False
  define s where "s = (2 powi (expo64 x - 52) :: rat)"
  have s: "s > 0" by (simp add: s_def)
  obtain m where m: "round64 x = of_int m * s" "m = round_half_even (x / s)"
    using round64_form [OF False] unfolding s_def by metis
  have "\<bar>round64 x - x\<bar> = \<bar>of_int m - x / s\<bar> * s"
    using s by (simp add: m(1) abs_mult_pos' field_simps flip: abs_mult_pos)
  also have "\<dots> \<le> 1/2 * s"
    using round_half_even_near [of "x / s"] s unfolding m(2) by (intro mult_right_mono) auto
  also have "\<dots> = 2 powi expo64 x / 2 ^ 53" by (simp add: s_def power_int_diff)
  also have "\<dots> \<le> \<bar>x\<bar> / 2 ^ 53" using expo64_bounds [OF False] by (intro divide_right_mono) auto
  finally show ?thesis .
qed simp

lemma round64_mono_pos:
  assumes "0 < x" "x \<le> y"
  shows "round64 x \<le> round64 y"
proof (cases "expo64 x = expo64 y")
  case True
  with assms show ?thesis
    by (auto simp: round64_def Let_def intro!: mult_right_mono round_half_even_mono divide_right_mono)
next
  case False
  with assms have e: "expo64 x + 1 \<le> expo64 y" using expo64_mono [of x y] by simp
  obtain m where m: "round64 x = of_int m * 2 powi (expo64 x - 52)" "\<bar>m\<bar> \<le> 2 ^ 53"
    using round64_form [of x] assms by (metis less_irrefl)
  from m(2) have "(of_int m :: rat) \<le> of_int (2 ^ 53)" by (simp only: of_int_le_iff)
  then have "round64 x \<le> 2 ^ 53 * 2 powi (expo64 x - 52)"
    unfolding m(1) by (intro mult_right_mono) auto
  also have "\<dots> = 2 powi (expo64 x + 1)" by (simp add: power_int_diff power_int_add)
  also have "\<dots> \<le> 2 powi expo64 y" using e by (intro power_int_increasing) auto
  also have "\<dots> \<le> round64 y"
  proof -
    define s where "s = (2 powi (expo64 y - 52) :: rat)"
    have "of_int (2 ^ 52) * s = 2 powi expo64 y" by (simp add: s_def power_int_diff)
    also have "\<dots> \<le> y" using expo64_bounds(1) [of y] assms by simp
    finally have "of_int (2 ^ 52) \<le> y / s" by (simp add: s_def le_divide_eq)
    then have "2 ^ 52 \<le> round_half_even (y / s)" using round_half_even_mono round_half_even_int by metis
    then have "(of_int (2 ^ 52) :: rat) \<le> of_int (round_half_even (y / s))" by (simp only: of_int_le_iff)
    then have "of_int (2 ^ 52) * s \<le> of_int (round_half_even (y / s)) * s"
      by (intro mult_right_mono) (auto simp: s_def)
    moreover have "round64 y = of_int (round_half_even (y / s)) * s"
      using assms by (simp add: round64_def s_def Let_def)
    ultimately have "of_int (2 ^ 52) * s \<le> round64 y" by simp
    also have "of_int (2 ^ 52) * s = 2 powi expo64 y" by (simp add: s_def power_int_diff)
    finally show ?thesis .
  qed
  finally show ?thesis .
qed

lemma round64_nonneg_aux: "0 \<le> x \<Longrightarrow> 0 \<le> round64 x"
  using round64_error [of x] unfolding abs_le_iff by (simp add: field_simps)

lemma round64_mono: "x \<le> y \<Longrightarrow> round64 x \<le> round64 y"
proof -
  assume le: "x \<le> y"
  consider "0 < x" | "y < 0" | "x \<le> 0" "0 \<le> y" by linarith
  then show ?thesis
  proof cases
    case 1
    from this le show ?thesis by (rule round64_mono_pos)
  next
    case 2
    with le have "round64 (- y) \<le> round64 (- x)" by (intro round64_mono_pos) auto
    then show ?thesis by (simp add: round64_minus)
  next
    case 3
    then have "0 \<le> round64 (- x)" "0 \<le> round64 y" by (auto intro: round64_nonneg_aux)
    then show ?thesis by (simp add: round64_minus)
  qed
qed

section \<open>The contract of a rounding, and what follows from it\<close>

lemma div_mult_le: "0 < b \<Longrightarrow> a div b * b \<le> (a::int)"
  using div_mult_mod_eq [of a b] pos_mod_sign [of b a] by linarith

locale rounding =
  fixes rnd :: "rat \<Rightarrow> rat"
  assumes rnd_mono: "x \<le> y \<Longrightarrow> rnd x \<le> rnd y"
    and rnd_idem: "rnd (rnd x) = rnd x"
    and rnd_int: "\<bar>i\<bar> \<le> 2 ^ 53 \<Longrightarrow> rnd (of_int i) = of_int i"
    and rnd_error: "\<bar>rnd x - x\<bar> \<le> \<bar>x\<bar> / 2 ^ 53"
begin

lemma rnd_zero: "rnd 0 = 0"
  using rnd_int [of 0] by simp

lemma rnd_one: "rnd 1 = 1"
  using rnd_int [of 1] by simp

lemma rnd_numeral: "numeral n \<le> (2::int) ^ 53 \<Longrightarrow> rnd (numeral n) = numeral n"
  using rnd_int [of "numeral n"] by simp

lemma rnd_nonneg: "0 \<le> x \<Longrightarrow> 0 \<le> rnd x"
  using rnd_mono [of 0 x] by (simp add: rnd_zero)

lemma rnd_nonpos: "x \<le> 0 \<Longrightarrow> rnd x \<le> 0"
  using rnd_mono [of x 0] by (simp add: rnd_zero)

lemma rnd_pos: "0 < x \<Longrightarrow> 0 < rnd x"
  using rnd_error [of x] unfolding abs_le_iff by (simp add: field_simps)

lemma rnd_le: "x \<le> y \<Longrightarrow> rnd y = y \<Longrightarrow> rnd x \<le> y"
  using rnd_mono [of x y] by simp

lemma rnd_ge: "y \<le> x \<Longrightarrow> rnd y = y \<Longrightarrow> y \<le> rnd x"
  using rnd_mono [of y x] by simp

lemma rnd_upper: "0 \<le> x \<Longrightarrow> rnd x \<le> x * (1 + 1 / 2 ^ 53)"
  using rnd_error [of x] unfolding abs_le_iff by (simp add: field_simps)

lemma rnd_lower: "0 \<le> x \<Longrightarrow> x * (1 - 1 / 2 ^ 53) \<le> rnd x"
  using rnd_error [of x] unfolding abs_le_iff by (simp add: field_simps)

text \<open>Rounding never carries a quotient of safe integers over the next integer.\<close>

lemma rnd_div_floor:
  fixes a b :: int
  assumes "0 \<le> a" "a < 2 ^ 53" "0 < b"
  shows "\<lfloor>rnd (of_int a / of_int b)\<rfloor> = a div b"
proof (rule floor_unique)
  have "a div b \<le> a" "0 \<le> a div b" using assms zdiv_mono2 [of a 1 b] by (auto simp: pos_imp_zdiv_nonneg_iff)
  then have "rnd (of_int (a div b)) = of_int (a div b)" using assms by (intro rnd_int) auto
  moreover have "of_int (a div b) \<le> (of_int a / of_int b :: rat)"
    using assms by (simp add: le_divide_eq div_mult_le flip: of_int_mult)
  ultimately show "of_int (a div b) \<le> rnd (of_int a / of_int b)" by (rule rnd_ge [rotated])
next
  have "(a div b + 1) * b = a div b * b + b" by (simp add: algebra_simps)
  then have "a + 1 \<le> (a div b + 1) * b"
    using div_mult_mod_eq [of a b] pos_mod_bound [of b a] assms(3) by linarith
  then have le: "of_int a + 1 \<le> (of_int (a div b) + 1) * (of_int b :: rat)"
    by (metis of_int_1 of_int_add of_int_le_iff of_int_mult)
  have a53: "(of_int a :: rat) < 2 ^ 53"
    using assms(2) by (metis of_int_less_iff of_int_numeral of_int_power)
  have "rnd (of_int a / of_int b) \<le> (of_int a / of_int b) * (1 + 1 / 2 ^ 53)"
    using assms by (intro rnd_upper) auto
  also have "\<dots> < (of_int a + 1) / of_int b"
    using assms a53 by (simp add: field_simps)
  also have "\<dots> \<le> of_int (a div b) + 1"
    using le assms by (simp add: divide_le_eq)
  finally show "rnd (of_int a / of_int b) < of_int (a div b) + 1" .
qed

end

interpretation js: rounding round64
  by unfold_locales (fact round64_mono round64_idem round64_int round64_error)+

lemmas round64_simps [simp, js_arith] = js.rnd_one js.rnd_numeral

text \<open>The unit roundoff: one operation loses at most the factor \<open>1 + u64\<close>.\<close>

definition u64 :: number where
  "u64 = 1 / 2 ^ 53"

lemma u64_pos [simp]: "0 < u64" "0 \<le> u64" and u64_less_1: "u64 < 1"
  by (simp_all add: u64_def)

lemma round64_upper: "0 \<le> x \<Longrightarrow> round64 x \<le> x * (1 + u64)"
  unfolding u64_def by (rule js.rnd_upper)

lemma round64_lower: "0 \<le> x \<Longrightarrow> x * (1 - u64) \<le> round64 x"
  unfolding u64_def by (rule js.rnd_lower)

section \<open>The operations of the source\<close>

text \<open>
  \<open>a + b\<close>, \<open>a - b\<close>, \<open>a * b\<close>, \<open>a / b\<close> of two numbers; \<open>Math.floor\<close>, \<open>Math.ceil\<close>,
  \<open>Math.max\<close>, \<open>Math.min\<close> are exact (the last two are HOL's \<open>max\<close> and \<open>min\<close>).
  \<open>js_num x\<close> says that \<open>x\<close> is a value a variable can hold.
\<close>

definition js_num :: "number \<Rightarrow> bool" where
  "js_num x \<longleftrightarrow> round64 x = x"

definition js_add :: "number \<Rightarrow> number \<Rightarrow> number" where
  "js_add a b = round64 (a + b)"

definition js_sub :: "number \<Rightarrow> number \<Rightarrow> number" where
  "js_sub a b = round64 (a - b)"

definition js_mul :: "number \<Rightarrow> number \<Rightarrow> number" where
  "js_mul a b = round64 (a * b)"

definition js_div :: "number \<Rightarrow> number \<Rightarrow> number" where
  "js_div a b = round64 (a / b)"

definition js_floor :: "number \<Rightarrow> number" where
  "js_floor x = of_int \<lfloor>x\<rfloor>"

definition js_ceil :: "number \<Rightarrow> number" where
  "js_ceil x = of_int \<lceil>x\<rceil>"

lemmas js_ops = js_add_def js_sub_def js_mul_def js_div_def js_floor_def js_ceil_def

lemma js_floor_nonneg: "0 \<le> x \<Longrightarrow> 0 \<le> js_floor x" and js_floor_le: "js_floor x \<le> x"
  and js_ceil_ge: "x \<le> js_ceil x" and js_ceil_pos: "0 < x \<Longrightarrow> 1 \<le> js_ceil x"
  by (simp_all add: js_floor_def js_ceil_def)

text \<open>
  A safe integer: a non-negative integer up to \<open>2^52\<close>, so that sums of two of them are exact.
  Timestamps in milliseconds, quotas, windows and costs are safe integers.
\<close>

definition safe_int :: "number \<Rightarrow> bool" where
  "safe_int x \<longleftrightarrow> of_int \<lfloor>x\<rfloor> = x \<and> 0 \<le> x \<and> x \<le> 2 ^ 52"

lemma safe_intE:
  assumes "safe_int x"
  obtains i where "x = of_int i" "0 \<le> i" "i \<le> 2 ^ 52"
proof -
  from assms have x: "x = of_int \<lfloor>x\<rfloor>" "0 \<le> x" "x \<le> 2 ^ 52" by (auto simp: safe_int_def)
  then have "of_int \<lfloor>x\<rfloor> \<le> (of_int (2 ^ 52) :: rat)" by simp
  then have "\<lfloor>x\<rfloor> \<le> 2 ^ 52" by (simp only: of_int_le_iff)
  with x that show ?thesis by (metis zero_le_floor)
qed

lemma safe_int_of_int [simp]: "safe_int (of_int i) \<longleftrightarrow> 0 \<le> i \<and> i \<le> 2 ^ 52"
proof -
  have "(of_int i :: rat) \<le> 2 ^ 52 \<longleftrightarrow> of_int i \<le> (of_int (2 ^ 52) :: rat)" by simp
  also have "\<dots> \<longleftrightarrow> i \<le> 2 ^ 52" by (simp only: of_int_le_iff)
  finally show ?thesis by (simp add: safe_int_def)
qed

lemma safe_int_0 [simp]: "safe_int 0" and safe_int_1 [simp]: "safe_int 1"
  by (simp_all add: safe_int_def)

lemma safe_int_numeral [simp]: "safe_int (numeral n) \<longleftrightarrow> numeral n \<le> (2 ^ 52 :: int)"
  using safe_int_of_int [of "numeral n"] by simp

lemma safe_int_nonneg: "safe_int x \<Longrightarrow> 0 \<le> x"
  by (simp add: safe_int_def)

lemma safe_int_js [simp, js_arith]: "safe_int x \<Longrightarrow> round64 x = x"
  by (elim safe_intE) (simp add: round64_int)

lemma js_num_safe [simp]: "safe_int x \<Longrightarrow> js_num x"
  by (simp add: js_num_def)

lemma js_num_round [simp]: "js_num (round64 x)"
  by (simp add: js_num_def)

lemma js_add_safe [simp, js_arith]: "safe_int x \<Longrightarrow> safe_int y \<Longrightarrow> js_add x y = x + y"
  by (elim safe_intE) (simp add: js_add_def round64_int flip: of_int_add)

lemma js_sub_safe [simp, js_arith]: "safe_int x \<Longrightarrow> safe_int y \<Longrightarrow> js_sub x y = x - y"
  by (elim safe_intE) (simp add: js_sub_def round64_int flip: of_int_diff)

lemma safe_int_add: "safe_int x \<Longrightarrow> safe_int y \<Longrightarrow> x + y \<le> 2 ^ 52 \<Longrightarrow> safe_int (x + y)"
  by (elim safe_intE) (simp add: safe_int_def flip: of_int_add)

lemma safe_int_add_le: "safe_int x \<Longrightarrow> safe_int y \<Longrightarrow> safe_int z \<Longrightarrow> x + y \<le> z \<Longrightarrow> safe_int (x + y)"
  by (rule safe_int_add) (auto simp: safe_int_def)

lemma safe_int_diff: "safe_int x \<Longrightarrow> safe_int y \<Longrightarrow> y \<le> x \<Longrightarrow> safe_int (x - y)"
  by (elim safe_intE) (simp flip: of_int_diff)

text \<open>\<open>Math.floor(now / windowMs) * windowMs\<close> is the start of the aligned window, exactly.\<close>

lemma js_window_start:
  assumes "safe_int t" "safe_int w" "0 < w"
  shows "js_mul (js_floor (js_div t w)) w = of_int (\<lfloor>t\<rfloor> div \<lfloor>w\<rfloor> * \<lfloor>w\<rfloor>)"
proof -
  obtain i j where i: "t = of_int i" "0 \<le> i" "i \<le> 2 ^ 52" and j: "w = of_int j" "0 < j" "j \<le> 2 ^ 52"
    using assms by (auto elim!: safe_intE)
  have "\<lfloor>round64 (of_int i / of_int j)\<rfloor> = i div j" using i j by (intro js.rnd_div_floor) auto
  then have "js_mul (js_floor (js_div t w)) w = round64 (of_int (i div j * j))"
    by (simp add: js_ops i j)
  moreover have "0 \<le> i div j * j" "i div j * j \<le> i"
    using i j by (simp_all add: pos_imp_zdiv_nonneg_iff div_mult_le)
  ultimately show ?thesis using i j by (simp add: round64_int del: of_int_mult)
qed

end
