(* ===== verification/RateLimit.thy ===== *)
theory RateLimit
  imports JsNumber
begin

text \<open>
  The interface of the rate limiting algorithms (\<open>packages/core/src/ratelimit\<close>): the policy and
  result types of \<open>stores/Store.ts\<close>, the algorithm signature of \<open>algorithms/types.ts\<close>, and the
  contract every algorithm keeps, as the locale \<open>rate_algorithm\<close>. The driver \<open>run\<close> is the loop of
  \<open>scripts/compare-algorithms.ts\<close>; \<open>admitted\<close> is the same loop keeping the admitted requests.
\<close>

section \<open>Types\<close>

record policy =
  limit :: number
  windowMs :: number
  burst :: "number option"

record rate_result =
  allowed :: bool
  res_limit :: number
  remaining :: number
  retryAfterMs :: number

text \<open>An algorithm maps (state or \<open>undefined\<close>, policy, now, cost) to (new state, result).\<close>

type_synonym 's algorithm = "'s option \<Rightarrow> policy \<Rightarrow> number \<Rightarrow> number \<Rightarrow> 's \<times> rate_result"

text \<open>\<open>policy.burst ?? policy.limit\<close>.\<close>

definition capacity :: "policy \<Rightarrow> number" where
  "capacity p = (case burst p of Some b \<Rightarrow> b | None \<Rightarrow> limit p)"

text \<open>What the configuration schema guarantees: positive integers.\<close>

definition valid_policy :: "policy \<Rightarrow> bool" where
  "valid_policy p \<longleftrightarrow> safe_int (limit p) \<and> 1 \<le> limit p \<and> safe_int (windowMs p) \<and> 1 \<le> windowMs p
     \<and> safe_int (capacity p) \<and> 1 \<le> capacity p"

lemma valid_policyD [wf_intro]:
  assumes "valid_policy p"
  shows "safe_int (limit p)" "0 < limit p" "safe_int (windowMs p)" "0 < windowMs p"
    "safe_int (capacity p)" "0 < capacity p"
  using assms by (auto simp: valid_policy_def)

text \<open>\<open>policy.limit / policy.windowMs\<close> and \<open>Math.max(0, now - last)\<close>, used by both bucket algorithms.\<close>

definition rate_per_ms :: "policy \<Rightarrow> number" where
  "rate_per_ms p = js_div (limit p) (windowMs p)"

definition elapsed_since :: "number \<Rightarrow> number \<Rightarrow> number" where
  "elapsed_since t0 now = max 0 (js_sub now t0)"

lemma rate_per_ms_pos: "valid_policy p \<Longrightarrow> 0 < rate_per_ms p"
  unfolding rate_per_ms_def js_div_def by (intro js.rnd_pos divide_pos_pos valid_policyD)

lemma rate_per_ms_upper: "valid_policy p \<Longrightarrow> rate_per_ms p \<le> limit p / windowMs p * (1 + u64)"
  unfolding rate_per_ms_def js_div_def
  by (intro round64_upper divide_nonneg_nonneg) (simp_all add: valid_policyD less_imp_le)

lemma rate_per_ms_lower: "valid_policy p \<Longrightarrow> limit p / windowMs p * (1 - u64) \<le> rate_per_ms p"
  unfolding rate_per_ms_def js_div_def
  by (intro round64_lower divide_nonneg_nonneg) (simp_all add: valid_policyD less_imp_le)

lemma elapsed_since_safe [simp]: "safe_int t0 \<Longrightarrow> safe_int now \<Longrightarrow> elapsed_since t0 now = max 0 (now - t0)"
  by (simp add: elapsed_since_def)

lemma elapsed_since_nonneg [simp]: "0 \<le> elapsed_since t0 now"
  by (simp add: elapsed_since_def)

section \<open>Runs\<close>

text \<open>
  \<open>run\<close> of \<open>compare-algorithms.ts\<close>: feed the timestamps, each at cost 1, and count the decisions.
\<close>

fun run :: "'s algorithm \<Rightarrow> policy \<Rightarrow> 's option \<Rightarrow> number list \<Rightarrow> nat \<times> nat \<Rightarrow> nat \<times> nat" where
  "run alg p s [] counts = counts"
| "run alg p s (now # ts) (n_allowed, n_denied) =
     (let (s', r) = alg s p now 1
      in run alg p (Some s') ts (if allowed r then (Suc n_allowed, n_denied) else (n_allowed, Suc n_denied)))"

text \<open>The requests (time, cost) a sequence of calls lets through, in order.\<close>

fun admitted :: "'s algorithm \<Rightarrow> policy \<Rightarrow> 's option \<Rightarrow> (number \<times> number) list \<Rightarrow> (number \<times> number) list" where
  "admitted alg p s [] = []"
| "admitted alg p s ((now, cost) # rs) =
     (let (s', r) = alg s p now cost
      in (if allowed r then [(now, cost)] else []) @ admitted alg p (Some s') rs)"

text \<open>The state a sequence of calls ends in.\<close>

fun final_state :: "'s algorithm \<Rightarrow> policy \<Rightarrow> 's option \<Rightarrow> (number \<times> number) list \<Rightarrow> 's option" where
  "final_state alg p s [] = s"
| "final_state alg p s ((now, cost) # rs) = final_state alg p (Some (fst (alg s p now cost))) rs"

text \<open>Requests as the gateway produces them: safe-integer times in order, safe-integer costs.\<close>

fun valid_requests :: "number \<Rightarrow> (number \<times> number) list \<Rightarrow> bool" where
  "valid_requests t [] \<longleftrightarrow> True"
| "valid_requests t ((now, cost) # rs) \<longleftrightarrow>
     t \<le> now \<and> safe_int now \<and> safe_int cost \<and> valid_requests now rs"

definition total_cost :: "(number \<times> number) list \<Rightarrow> number" where
  "total_cost rs = sum_list (map snd rs)"

lemma total_cost_simps [simp]:
  "total_cost [] = 0" "total_cost (r # rs) = snd r + total_cost rs"
  "total_cost (rs @ qs) = total_cost rs + total_cost qs"
  by (simp_all add: total_cost_def)

lemma admitted_subset: "set (admitted alg p s rs) \<subseteq> set rs"
proof (induction rs arbitrary: s)
  case (Cons r rs)
  then show ?case by (cases r) (auto split: prod.splits if_splits)
qed simp

lemma admitted_append:
  "admitted alg p s (rs @ qs) = admitted alg p s rs @ admitted alg p (final_state alg p s rs) qs"
  by (induction alg p s rs rule: final_state.induct) (auto split: prod.splits)

lemma final_state_append:
  "final_state alg p s (rs @ qs) = final_state alg p (final_state alg p s rs) qs"
  by (induction alg p s rs rule: final_state.induct) auto

lemma valid_requests_snoc:
  "valid_requests t (rs @ [(now, cost)]) \<longleftrightarrow> valid_requests t rs \<and> t \<le> now \<and> safe_int now \<and> safe_int cost
     \<and> (\<forall>(u, c) \<in> set rs. u \<le> now)"
proof (induction rs arbitrary: t)
  case (Cons r rs)
  then show ?case by (cases r) (auto dest: order_trans)
qed simp

lemma valid_requests_times:
  "valid_requests t rs \<Longrightarrow> (now, cost) \<in> set rs \<Longrightarrow> t \<le> now \<and> safe_int now \<and> safe_int cost"
  by (induction rs arbitrary: t) fastforce+

lemma admitted_valid:
  assumes "valid_requests t rs" "(now, cost) \<in> set (admitted alg p s rs)"
  shows "t \<le> now \<and> safe_int now \<and> safe_int cost"
  using assms admitted_subset valid_requests_times by blast

lemma total_cost_nonneg: "(\<And>t c. (t, c) \<in> set rs \<Longrightarrow> 0 \<le> c) \<Longrightarrow> 0 \<le> total_cost rs"
  unfolding total_cost_def by (rule sum_list_nonneg) auto

text \<open>The two drivers agree: \<open>run\<close> counts what \<open>admitted\<close> returns.\<close>

lemma run_admitted:
  "run alg p s ts (a, d) =
     (a + length (admitted alg p s (map (\<lambda>t. (t, 1)) ts)),
      d + (length ts - length (admitted alg p s (map (\<lambda>t. (t, 1)) ts))))"
proof (induction ts arbitrary: s a d)
  case (Cons t ts)
  have "length (admitted alg p s' (map (\<lambda>t. (t, 1)) ts)) \<le> length ts" for s'
  proof (induction ts arbitrary: s')
    case (Cons t ts)
    then show ?case by (auto split: prod.splits simp: le_SucI)
  qed simp
  then show ?case
    by (auto simp: Cons.IH Suc_diff_le split: prod.splits)
qed simp

section \<open>The contract of an algorithm\<close>

text \<open>A well-formed result, given the ceiling \<open>cap p\<close> of the remaining quota.\<close>

definition good_result :: "(policy \<Rightarrow> number) \<Rightarrow> policy \<Rightarrow> rate_result \<Rightarrow> bool" where
  "good_result cap p r \<longleftrightarrow> res_limit r = limit p \<and> 0 \<le> remaining r \<and> remaining r \<le> cap p
     \<and> (if allowed r then retryAfterMs r = 0 else 1 \<le> retryAfterMs r)"

text \<open>
  \<open>inv p s\<close> is the algorithm's state invariant under the policy \<open>p\<close>, \<open>cap p\<close> its ceiling. A call
  keeps the invariant, reports the policy's limit and a remaining quota within \<open>[0, cap p]\<close>, and a
  retry delay that is zero exactly when the request is allowed.
\<close>

locale rate_algorithm =
  fixes alg :: "'s algorithm"
    and inv :: "policy \<Rightarrow> 's \<Rightarrow> bool"
    and cap :: "policy \<Rightarrow> number"
  assumes alg_inv: "\<lbrakk>valid_policy p; safe_int now; safe_int cost; pred_option (inv p) s; alg s p now cost = (s', r)\<rbrakk>
      \<Longrightarrow> inv p s'"
    and alg_limit: "alg s p now cost = (s', r) \<Longrightarrow> res_limit r = limit p"
    and alg_remaining: "\<lbrakk>valid_policy p; safe_int now; safe_int cost; pred_option (inv p) s; alg s p now cost = (s', r)\<rbrakk>
      \<Longrightarrow> 0 \<le> remaining r \<and> remaining r \<le> cap p"
    and alg_allowed: "\<lbrakk>alg s p now cost = (s', r); allowed r\<rbrakk> \<Longrightarrow> retryAfterMs r = 0"
    and alg_denied: "\<lbrakk>valid_policy p; safe_int now; safe_int cost; pred_option (inv p) s; alg s p now cost = (s', r);
      \<not> allowed r\<rbrakk> \<Longrightarrow> 1 \<le> retryAfterMs r"
begin

lemma alg_good:
  assumes "valid_policy p" "safe_int now" "safe_int cost" "pred_option (inv p) s" "alg s p now cost = (s', r)"
  shows "inv p s' \<and> good_result cap p r"
  using assms alg_inv alg_limit alg_remaining alg_allowed alg_denied
  unfolding good_result_def by auto

lemma final_inv:
  assumes "valid_policy p" "valid_requests t rs" "pred_option (inv p) s"
  shows "pred_option (inv p) (final_state alg p s rs)"
  using assms(2,3)
proof (induction rs arbitrary: s t)
  case (Cons r rs)
  obtain now cost where r: "r = (now, cost)" by force
  obtain s' q where q: "alg s p now cost = (s', q)" by force
  have "inv p s'" using alg_inv [OF assms(1) _ _ _ q] Cons.prems r by simp
  with Cons.IH [of now "Some s'"] Cons.prems r q show ?case by simp
qed simp

end

end
