(* ===== verification/Bucket.thy ===== *)
theory Bucket
  imports RateLimit
begin

text \<open>
  What the two bucket algorithms have in common: a credit that a request is charged against and
  that grows with time. The locale proves the average-rate bound once; both algorithms interpret it.
\<close>

text \<open>The refill rate with its three roundings, and the rounding a single call can add.\<close>

definition rate_ceiling :: "policy \<Rightarrow> number" where
  "rate_ceiling p = limit p / windowMs p * (1 + u64) ^ 3"

definition call_slack :: "policy \<Rightarrow> number" where
  "call_slack p = 4 * u64 * capacity p"

lemma rate_ceiling_nonneg: "valid_policy p \<Longrightarrow> 0 \<le> rate_ceiling p"
  unfolding rate_ceiling_def
  by (intro mult_nonneg_nonneg divide_nonneg_nonneg) (simp_all add: valid_policyD less_imp_le add_nonneg_nonneg)

lemma call_slack_nonneg: "valid_policy p \<Longrightarrow> 0 \<le> call_slack p"
  by (simp add: call_slack_def valid_policyD less_imp_le)

lemma earned_nonneg: "valid_policy p \<Longrightarrow> 0 \<le> e \<Longrightarrow> 0 \<le> js_mul e (rate_per_ms p)"
  using rate_per_ms_pos [of p] by (simp add: js_mul_def js.rnd_nonneg)

lemma earned_upper:
  assumes "valid_policy p" "0 \<le> e"
  shows "js_mul e (rate_per_ms p) * (1 + u64) \<le> rate_ceiling p * e"
proof -
  have "js_mul e (rate_per_ms p) \<le> e * rate_per_ms p * (1 + u64)"
    using assms rate_per_ms_pos [of p] unfolding js_mul_def by (intro round64_upper) simp
  also have "\<dots> \<le> e * (limit p / windowMs p * (1 + u64)) * (1 + u64)"
    using assms rate_per_ms_upper [of p] by (intro mult_right_mono mult_left_mono) (simp_all add: add_nonneg_nonneg)
  finally have "js_mul e (rate_per_ms p) * (1 + u64)
      \<le> e * (limit p / windowMs p * (1 + u64)) * (1 + u64) * (1 + u64)"
    by (intro mult_right_mono) (simp_all add: add_nonneg_nonneg)
  also have "\<dots> = rate_ceiling p * e"
    by (simp add: rate_ceiling_def power3_eq_cube ac_simps)
  finally show ?thesis .
qed

lemma earned_le: "valid_policy p \<Longrightarrow> 0 \<le> e \<Longrightarrow> js_mul e (rate_per_ms p) \<le> rate_ceiling p * e"
  using earned_upper [of p e] earned_nonneg [of p e]
    mult_left_mono [of 1 "1 + u64" "js_mul e (rate_per_ms p)"] by simp

text \<open>
  The delay both buckets report when \<open>x\<close> units are missing, and why waiting it (plus one
  millisecond for the roundings) earns them: the precision premise says that one millisecond's
  refill is not below the rounding of a full bucket.
\<close>

definition precise_policy :: "policy \<Rightarrow> bool" where
  "precise_policy p \<longleftrightarrow> capacity p * windowMs p \<le> 2 ^ 50 * limit p"

lemma precise_rate:
  assumes "valid_policy p" "precise_policy p"
  shows "15 / 2 * (u64 * capacity p) \<le> rate_per_ms p * (1 - u64)"
proof -
  have w: "0 < windowMs p" and c: "0 \<le> capacity p" using assms(1) by (simp_all add: valid_policyD less_imp_le)
  have "8 * u64 * capacity p \<le> limit p / windowMs p"
    using assms(2) w by (simp add: precise_policy_def u64_def field_simps)
  then have "8 * u64 * capacity p * (1 - u64) \<le> limit p / windowMs p * (1 - u64)"
    using u64_less_1 by (intro mult_right_mono) auto
  also have "\<dots> \<le> rate_per_ms p" using assms(1) by (rule rate_per_ms_lower)
  finally have "8 * u64 * capacity p * (1 - u64) * (1 - u64) \<le> rate_per_ms p * (1 - u64)"
    using u64_less_1 by (intro mult_right_mono) auto
  moreover have "15 / 2 * (u64 * capacity p) \<le> (8 * ((1 - u64) * (1 - u64))) * (u64 * capacity p)"
    using c by (intro mult_right_mono) (simp_all add: u64_def)
  moreover have "8 * ((1 - u64) * (1 - u64)) * (u64 * capacity p) = 8 * u64 * capacity p * (1 - u64) * (1 - u64)"
    by (simp only: ac_simps)
  ultimately show ?thesis by (simp only: mult.assoc)
qed

lemma waiting_earns:
  assumes "valid_policy p" "precise_policy p" "0 \<le> d" "0 \<le> x" "x \<le> 9 / 8 * capacity p"
    and "x * (1 - u64) \<le> d + 4 * (u64 * capacity p)"
  shows "x \<le> js_mul (js_ceil (js_div d (rate_per_ms p)) + 1) (rate_per_ms p)"
proof -
  let ?R = "rate_per_ms p" and ?e = "js_ceil (js_div d (rate_per_ms p)) + 1" and ?c = "u64 * capacity p"
  have R: "0 < ?R" using assms(1) by (rule rate_per_ms_pos)
  have c: "0 \<le> ?c" using assms(1) by (simp add: valid_policyD less_imp_le)
  have u: "0 \<le> 1 - u64" "1 - u64 \<le> 1" using u64_less_1 by auto
  have "d * (1 - u64) = d / ?R * (1 - u64) * ?R" using R by simp
  also have "\<dots> \<le> js_div d ?R * ?R"
    using R assms(3) round64_lower [of "d / ?R"] by (intro mult_right_mono) (simp_all add: js_div_def)
  also have "\<dots> \<le> js_ceil (js_div d ?R) * ?R"
    using R by (intro mult_right_mono js_ceil_ge) auto
  finally have earned: "d * (1 - u64) + ?R \<le> ?e * ?R" by (simp add: algebra_simps)
  have "0 \<le> d * (1 - u64)" using assms(3) u by (intro mult_nonneg_nonneg)
  then have eR: "0 \<le> ?e * ?R" using earned R by linarith
  have "x * (1 - u64) * (1 - u64) * (1 - u64) \<le> (d + 4 * ?c) * (1 - u64) * (1 - u64)"
    using assms(6) u by (intro mult_right_mono) auto
  also have "\<dots> = d * (1 - u64) * (1 - u64) + 4 * ?c * ((1 - u64) * (1 - u64))"
    by (simp add: algebra_simps)
  also have "\<dots> \<le> d * (1 - u64) * (1 - u64) + 4 * ?c"
    using c u by (intro add_left_mono mult_left_le) (simp_all add: mult_le_one)
  finally have cubed: "x * (1 - u64) * (1 - u64) * (1 - u64) \<le> d * (1 - u64) * (1 - u64) + 4 * ?c" .
  have "x \<le> x * (1 - u64) * (1 - u64) * (1 - u64) + 3 * u64 * x"
    using assms(4) by (simp add: u64_def field_simps)
  also have "\<dots> \<le> d * (1 - u64) * (1 - u64) + 4 * ?c + 3 * u64 * (9 / 8 * capacity p)"
    using cubed assms(5) by (intro add_mono mult_left_mono) auto
  also have "\<dots> \<le> d * (1 - u64) * (1 - u64) + ?R * (1 - u64)"
    using precise_rate [OF assms(1,2)] c by simp
  also have "\<dots> = (d * (1 - u64) + ?R) * (1 - u64)" by (simp add: algebra_simps)
  also have "\<dots> \<le> ?e * ?R * (1 - u64)" using earned u by (intro mult_right_mono) auto
  also have "\<dots> \<le> js_mul ?e ?R" unfolding js_mul_def using eR by (rule round64_lower)
  finally show ?thesis .
qed

text \<open>
  \<open>credit p s\<close> is what the state still allows, \<open>stamp s\<close> the time of the last call. One call at
  \<open>now\<close> pays its cost out of the credit, which time refills at no more than \<open>rate_ceiling\<close>.
\<close>

locale bucket_algorithm = rate_algorithm alg inv capacity
  for alg :: "'s algorithm" and inv :: "policy \<Rightarrow> 's \<Rightarrow> bool" +
  fixes credit :: "policy \<Rightarrow> 's \<Rightarrow> number"
    and stamp :: "'s \<Rightarrow> number"
  assumes call_stamp: "alg s p now cost = (s', r) \<Longrightarrow> stamp s' = now"
    and credit_nonneg: "inv p s0 \<Longrightarrow> 0 \<le> credit p s0"
    and call_cap: "\<lbrakk>valid_policy p; safe_int now; safe_int cost; pred_option (inv p) s; alg s p now cost = (s', r)\<rbrakk>
      \<Longrightarrow> (if allowed r then cost else 0) + credit p s' \<le> capacity p + call_slack p"
    and call_charge: "\<lbrakk>valid_policy p; safe_int now; safe_int cost; inv p s0; stamp s0 \<le> now;
        alg (Some s0) p now cost = (s', r)\<rbrakk>
      \<Longrightarrow> (if allowed r then cost else 0) + credit p s'
        \<le> credit p s0 + rate_ceiling p * (now - stamp s0) + call_slack p"
begin

lemma run_from_state:
  assumes "valid_policy p" "valid_requests (stamp s0) rs" "inv p s0" "\<forall>r \<in> set rs. fst r \<le> t1"
    and "stamp s0 \<le> t1"
  shows "total_cost (admitted alg p (Some s0) rs)
    \<le> credit p s0 + rate_ceiling p * (t1 - stamp s0) + of_nat (length rs) * call_slack p"
  using assms(2-)
proof (induction rs arbitrary: s0)
  case Nil
  then show ?case
    using credit_nonneg rate_ceiling_nonneg [OF assms(1)] by (simp add: add_nonneg_nonneg)
next
  case (Cons r rs)
  obtain now cost where r [simp]: "r = (now, cost)" by force
  obtain s' q where step: "alg (Some s0) p now cost = (s', q)" by force
  have v: "stamp s0 \<le> now" "safe_int now" "safe_int cost" "valid_requests now rs" "now \<le> t1"
    using Cons.prems by auto
  have st: "stamp s' = now" using call_stamp step by blast
  have inv': "inv p s'" using alg_inv [OF assms(1) v(2,3) _ step] Cons.prems by simp
  have "total_cost (admitted alg p (Some s') rs)
      \<le> credit p s' + rate_ceiling p * (t1 - now) + of_nat (length rs) * call_slack p"
    using Cons.IH [of s'] inv' v Cons.prems st by simp
  moreover have "(if allowed q then cost else 0) + credit p s'
      \<le> credit p s0 + rate_ceiling p * (now - stamp s0) + call_slack p"
    using call_charge assms(1) v Cons.prems step by blast
  ultimately show ?case
    using step by (simp add: algebra_simps split: if_splits)
qed

text \<open>
  Over any run of calls at times in \<open>[t0, t1]\<close> the admitted cost is at most the capacity plus the
  rate times the elapsed time, up to the rounding of the single calls.
\<close>

lemma run_bound:
  assumes "valid_policy p" "valid_requests t0 rs" "pred_option (inv p) s"
    and "\<forall>r \<in> set rs. fst r \<le> t1" "t0 \<le> t1"
  shows "total_cost (admitted alg p s rs)
    \<le> capacity p + rate_ceiling p * (t1 - t0) + of_nat (length rs) * call_slack p"
proof (cases rs)
  case Nil
  then show ?thesis
    using assms rate_ceiling_nonneg [OF assms(1)]
    by (simp add: add_nonneg_nonneg valid_policyD less_imp_le)
next
  case (Cons r rs')
  obtain now cost where r [simp]: "r = (now, cost)" by force
  obtain s' q where step: "alg s p now cost = (s', q)" by force
  have v: "t0 \<le> now" "safe_int now" "safe_int cost" "valid_requests now rs'" "now \<le> t1"
    using assms Cons by auto
  have st: "stamp s' = now" using call_stamp step by blast
  have inv': "inv p s'" using alg_inv [OF assms(1) v(2,3) assms(3) step] .
  have "total_cost (admitted alg p (Some s') rs')
      \<le> credit p s' + rate_ceiling p * (t1 - now) + of_nat (length rs') * call_slack p"
    using run_from_state [of p s' rs' t1] assms(1,4) inv' v Cons st by simp
  moreover have "(if allowed q then cost else 0) + credit p s' \<le> capacity p + call_slack p"
    using call_cap assms(1,3) v step by blast
  moreover have "rate_ceiling p * (t1 - now) \<le> rate_ceiling p * (t1 - t0)"
    using v rate_ceiling_nonneg [OF assms(1)] by (intro mult_left_mono) auto
  ultimately show ?thesis
    using step Cons by (simp add: algebra_simps split: if_splits)
qed

end

end
