(* ===== verification/TokenBucket.thy ===== *)
theory TokenBucket
  imports Bucket
begin

text \<open>
  \<open>algorithms/tokenBucket.ts\<close>: a bucket of \<open>capacity\<close> tokens refilled at \<open>limit / windowMs\<close> per
  millisecond. All quantities are binary64, so the average-rate bound carries the accumulated
  rounding explicitly, and the reported retry delay is shown to suffice up to one millisecond.
\<close>

section \<open>The algorithm\<close>

record token_bucket_state =
  tb_tokens :: number
  tb_lastRefillMs :: number

definition tokenBucket :: "token_bucket_state algorithm" where
  "tokenBucket state p now cost =
     (let cap = capacity p;
          refillPerMs = rate_per_ms p;
          lastRefillMs = (case state of Some s \<Rightarrow> tb_lastRefillMs s | None \<Rightarrow> now);
          elapsed = elapsed_since lastRefillMs now;
          available = min cap (js_add (case state of Some s \<Rightarrow> tb_tokens s | None \<Rightarrow> cap)
                                      (js_mul elapsed refillPerMs));
          is_allowed = (cost \<le> available);
          tokens = (if is_allowed then js_sub available cost else available)
      in (\<lparr>tb_tokens = tokens, tb_lastRefillMs = now\<rparr>,
          \<lparr>allowed = is_allowed, res_limit = limit p, remaining = js_floor tokens,
           retryAfterMs = (if is_allowed then 0
                           else js_ceil (js_div (js_sub cost available) refillPerMs))\<rparr>))"

definition tb_inv :: "policy \<Rightarrow> token_bucket_state \<Rightarrow> bool" where
  "tb_inv p s \<longleftrightarrow> js_num (tb_tokens s) \<and> 0 \<le> tb_tokens s \<and> tb_tokens s \<le> capacity p
     \<and> safe_int (tb_lastRefillMs s)"

section \<open>One call\<close>

text \<open>The tokens present at \<open>now\<close>, before the request is charged.\<close>

definition tb_available :: "policy \<Rightarrow> token_bucket_state option \<Rightarrow> number \<Rightarrow> number" where
  "tb_available p state now =
     (case state of
        Some s \<Rightarrow> min (capacity p)
                   (js_add (tb_tokens s) (js_mul (elapsed_since (tb_lastRefillMs s) now) (rate_per_ms p)))
      | None \<Rightarrow> capacity p)"

lemma tokenBucket_eq:
  assumes "valid_policy p" "safe_int now"
  shows "tokenBucket state p now cost =
    (let available = tb_available p state now; is_allowed = (cost \<le> available);
         tokens = (if is_allowed then js_sub available cost else available)
     in (\<lparr>tb_tokens = tokens, tb_lastRefillMs = now\<rparr>,
         \<lparr>allowed = is_allowed, res_limit = limit p, remaining = js_floor tokens,
          retryAfterMs = (if is_allowed then 0
                          else js_ceil (js_div (js_sub cost available) (rate_per_ms p)))\<rparr>))"
proof (cases state)
  case None
  have "js_add (capacity p) (js_mul (elapsed_since now now) (rate_per_ms p)) = capacity p"
    using assms by (simp add: js_add_def js_mul_def valid_policyD)
  with None show ?thesis by (simp add: tokenBucket_def tb_available_def Let_def)
qed (simp add: tokenBucket_def tb_available_def Let_def)

lemma tb_available_range:
  assumes "valid_policy p" "pred_option (tb_inv p) state"
  shows "js_num (tb_available p state now)" "0 \<le> tb_available p state now"
    "tb_available p state now \<le> capacity p"
proof -
  have "0 \<le> js_mul e (rate_per_ms p)" if "0 \<le> e" for e
    using that rate_per_ms_pos [OF assms(1)] by (simp add: js_mul_def js.rnd_nonneg)
  then have "0 \<le> js_add t (js_mul (elapsed_since a now) (rate_per_ms p))" if "0 \<le> t" for t a
    using that by (simp add: js_add_def js.rnd_nonneg)
  then show "0 \<le> tb_available p state now"
    using assms by (auto simp: tb_available_def tb_inv_def valid_policyD less_imp_le split: option.splits)
  have "js_num (min (capacity p) (js_add t d))" for t d
    using assms(1) by (simp add: min_def js_add_def valid_policyD)
  then show "js_num (tb_available p state now)"
    using assms(1) by (auto simp: tb_available_def valid_policyD split: option.splits)
  show "tb_available p state now \<le> capacity p"
    by (auto simp: tb_available_def split: option.splits)
qed

lemma tokenBucket_step:
  assumes "valid_policy p" "safe_int now" "safe_int cost" "pred_option (tb_inv p) state"
    and "tokenBucket state p now cost = (s', r)"
  shows "tb_inv p s'" "0 \<le> remaining r \<and> remaining r \<le> capacity p" "tb_lastRefillMs s' = now"
    "\<not> allowed r \<Longrightarrow> 1 \<le> retryAfterMs r"
    "allowed r \<longleftrightarrow> cost \<le> tb_available p state now"
    "tb_tokens s' = (if allowed r then js_sub (tb_available p state now) cost else tb_available p state now)"
proof -
  let ?a = "tb_available p state now"
  note a = tb_available_range [OF assms(1,4), of now]
  note E = assms(5) [unfolded tokenBucket_eq [OF assms(1,2)] Let_def]
  have sub: "js_num (js_sub ?a cost)" "0 \<le> js_sub ?a cost" "js_sub ?a cost \<le> ?a" if "cost \<le> ?a"
    using that a(1) safe_int_nonneg [OF assms(3)]
    by (simp_all add: js_sub_def js_num_def js.rnd_nonneg js.rnd_le)
  show "tb_inv p s'" using E a sub assms(2) by (auto simp: tb_inv_def)
  show "0 \<le> remaining r \<and> remaining r \<le> capacity p"
  proof -
    have "js_floor x \<le> capacity p" if "x \<le> ?a" for x
      using js_floor_le [of x] that a(3) by linarith
    then show ?thesis using E a sub by (auto intro: js_floor_nonneg split: if_splits)
  qed
  show "tb_lastRefillMs s' = now" "allowed r \<longleftrightarrow> cost \<le> ?a"
    "tb_tokens s' = (if allowed r then js_sub ?a cost else ?a)"
    using E by auto
  assume "\<not> allowed r"
  then have "0 < js_div (js_sub cost ?a) (rate_per_ms p)"
    using E rate_per_ms_pos [OF assms(1)] by (auto simp: js_div_def js_sub_def js.rnd_pos)
  from js_ceil_pos [OF this] show "1 \<le> retryAfterMs r"
    using E \<open>\<not> allowed r\<close> by auto
qed

interpretation tb: rate_algorithm tokenBucket tb_inv capacity
proof unfold_locales
  fix p now cost s s' r
  assume a: "valid_policy p" "safe_int now" "safe_int cost" "pred_option (tb_inv p) s"
    "tokenBucket s p now cost = (s', r)"
  show "tb_inv p s'" using a by (rule tokenBucket_step)
  show "0 \<le> remaining r \<and> remaining r \<le> capacity p" using a by (rule tokenBucket_step)
  show "1 \<le> retryAfterMs r" if "\<not> allowed r" using a that by (rule tokenBucket_step)
qed (auto simp: tokenBucket_def Let_def)

section \<open>The average rate\<close>

lemma tb_available_upper:
  assumes "valid_policy p" "tb_inv p s" "safe_int now" "tb_lastRefillMs s \<le> now"
  shows "tb_available p (Some s) now
    \<le> tb_tokens s + u64 * capacity p + rate_ceiling p * (now - tb_lastRefillMs s)"
proof -
  let ?m = "js_mul (now - tb_lastRefillMs s) (rate_per_ms p)"
  have s: "0 \<le> tb_tokens s" "tb_tokens s \<le> capacity p" "safe_int (tb_lastRefillMs s)"
    using assms by (auto simp: tb_inv_def)
  have m: "0 \<le> ?m" using assms by (intro earned_nonneg) auto
  have "tb_available p (Some s) now \<le> js_add (tb_tokens s) ?m"
    using assms s by (simp add: tb_available_def max_def)
  also have "\<dots> \<le> (tb_tokens s + ?m) * (1 + u64)"
    unfolding js_add_def using s m by (intro round64_upper) simp
  also have "\<dots> = tb_tokens s + u64 * tb_tokens s + ?m * (1 + u64)" by (simp add: algebra_simps)
  also have "\<dots> \<le> tb_tokens s + u64 * capacity p + rate_ceiling p * (now - tb_lastRefillMs s)"
    using s assms by (intro add_mono mult_left_mono earned_upper) auto
  finally show ?thesis .
qed

lemma tb_paid:
  assumes "valid_policy p" "safe_int now" "safe_int cost" "pred_option (tb_inv p) s"
    and "tokenBucket s p now cost = (s', r)"
  shows "(if allowed r then cost else 0) + tb_tokens s' \<le> tb_available p s now + u64 * capacity p"
proof -
  let ?a = "tb_available p s now"
  note a = tb_available_range [OF assms(1,4), of now]
  note step = tokenBucket_step [OF assms]
  have cap: "0 \<le> u64 * capacity p" using assms(1) by (simp add: valid_policyD less_imp_le)
  show ?thesis
  proof (cases "allowed r")
    case True
    have "js_sub ?a cost \<le> (?a - cost) * (1 + u64)"
      unfolding js_sub_def using True step(5) by (intro round64_upper) simp
    also have "\<dots> = (?a - cost) + u64 * (?a - cost)" by (simp add: algebra_simps)
    also have "\<dots> \<le> (?a - cost) + u64 * capacity p"
      using a safe_int_nonneg [OF assms(3)] by (intro add_left_mono mult_left_mono) auto
    finally show ?thesis using True step(6) by simp
  next
    case False
    with step(6) cap show ?thesis by simp
  qed
qed

interpretation tb: bucket_algorithm tokenBucket tb_inv "\<lambda>p. tb_tokens" tb_lastRefillMs
proof unfold_locales
  fix p now cost s s0 s' r
  assume v: "valid_policy p" "safe_int now" "safe_int cost"
  have cap: "0 \<le> u64 * capacity p" using v by (simp add: valid_policyD less_imp_le)
  show "(if allowed r then cost else 0) + tb_tokens s' \<le> capacity p + call_slack p"
    if "pred_option (tb_inv p) s" "tokenBucket s p now cost = (s', r)"
    using tb_paid [OF v that] tb_available_range(3) [OF v(1) that(1), of now] cap
    by (simp add: call_slack_def)
  show "(if allowed r then cost else 0) + tb_tokens s'
      \<le> tb_tokens s0 + rate_ceiling p * (now - tb_lastRefillMs s0) + call_slack p"
    if "tb_inv p s0" "tb_lastRefillMs s0 \<le> now" "tokenBucket (Some s0) p now cost = (s', r)"
    using tb_paid [OF v _ that(3)] tb_available_upper [OF v(1) that(1) v(2) that(2)] that cap
    by (simp add: call_slack_def)
qed (auto simp: tokenBucket_def Let_def tb_inv_def)

text \<open>
  C5: the average rate of the token bucket. Over any interval \<open>[t0, t1]\<close> and from any stored
  state, the admitted cost is at most \<open>capacity + limit / windowMs * (t1 - t0)\<close>, up to the
  floating point rounding made explicit: the rate carries a factor \<open>(1 + 2^-53)^3\<close> and every call
  adds at most \<open>2^-51 * capacity\<close>.
\<close>

theorem tokenBucket_rate_bound:
  assumes "valid_policy p" "valid_requests t0 rs" "pred_option (tb_inv p) s"
    and "\<forall>r \<in> set rs. fst r \<le> t1" "t0 \<le> t1"
  shows "total_cost (admitted tokenBucket p s rs)
    \<le> capacity p + limit p / windowMs p * (1 + 1 / 2 ^ 53) ^ 3 * (t1 - t0)
      + of_nat (length rs) * (capacity p / 2 ^ 51)"
  using tb.run_bound [OF assms] by (simp add: rate_ceiling_def call_slack_def u64_def)

lemma tokenBucket_rate_bound_witness:
  "total_cost (admitted tokenBucket \<lparr>limit = 2, windowMs = 1000, burst = Some 3\<rparr> None
      [(1000, 1), (1000, 1), (1200, 3)])
    \<le> 3 + 2 / 1000 * (1 + 1 / 2 ^ 53) ^ 3 * (2000 - 0) + of_nat 3 * (3 / 2 ^ 51)"
  using tokenBucket_rate_bound [of "\<lparr>limit = 2, windowMs = 1000, burst = Some 3\<rparr>" 0
      "[(1000, 1), (1000, 1), (1200, 3)]" None 2000]
  by (simp add: valid_policy_def capacity_def)

section \<open>The retry delay\<close>

text \<open>
  A request refused by the token bucket is let through when it is repeated one millisecond
  after the reported \<open>retryAfterMs\<close> (nothing else having been charged), provided it fits the
  capacity and one millisecond's refill is above the rounding of a full bucket.
\<close>

theorem tokenBucket_retry_after:
  assumes "valid_policy p" "precise_policy p" "safe_int now" "safe_int cost" "cost \<le> capacity p"
    and "pred_option (tb_inv p) s" "tokenBucket s p now cost = (s', r)" "\<not> allowed r"
    and "safe_int (now + retryAfterMs r + 1)"
  shows "allowed (snd (tokenBucket (Some s') p (now + retryAfterMs r + 1) cost))"
proof -
  let ?a = "tb_available p s now" and ?later = "now + retryAfterMs r + 1"
  note step = tokenBucket_step [OF assms(1,3,4,6,7)]
  note a = tb_available_range [OF assms(1,6), of now]
  have lt: "?a < cost" using step(5) assms(8) by simp
  have retry: "retryAfterMs r = js_ceil (js_div (js_sub cost ?a) (rate_per_ms p))"
    using assms(7,8) by (auto simp: tokenBucket_eq [OF assms(1,3)] Let_def)
  have "cost - ?a \<le> js_mul (retryAfterMs r + 1) (rate_per_ms p)"
    unfolding retry
  proof (rule waiting_earns [OF assms(1,2)])
    have "(cost - ?a) * (1 - u64) \<le> js_sub cost ?a"
      unfolding js_sub_def using lt by (intro round64_lower) simp
    moreover have "0 \<le> u64 * capacity p" using assms(1) by (simp add: valid_policyD less_imp_le)
    ultimately show "(cost - ?a) * (1 - u64) \<le> js_sub cost ?a + 4 * (u64 * capacity p)" by linarith
  qed (use lt a assms(5) in \<open>auto simp: js_sub_def js.rnd_nonneg\<close>)
  then have "cost \<le> js_add ?a (js_mul (retryAfterMs r + 1) (rate_per_ms p))"
    unfolding js_add_def using assms(4) by (intro js.rnd_ge) auto
  moreover have "elapsed_since (tb_lastRefillMs s') ?later = retryAfterMs r + 1"
    using step(3) step(4) [OF assms(8)] assms(3,9) by simp
  ultimately have "cost \<le> tb_available p (Some s') ?later"
    using step(6) assms(5,8) by (simp add: tb_available_def)
  then show ?thesis
    by (simp add: tokenBucket_eq [OF assms(1,9)] Let_def)
qed

lemma tokenBucket_retry_after_witness:
  "allowed (snd (tokenBucket (Some \<lparr>tb_tokens = 0, tb_lastRefillMs = 500\<rparr>)
     \<lparr>limit = 1000, windowMs = 1000, burst = None\<rparr> (500 + 3 + 1) 3))"
proof -
  let ?p = "\<lparr>limit = 1000, windowMs = 1000, burst = None\<rparr>"
    and ?s = "\<lparr>tb_tokens = 0, tb_lastRefillMs = 500\<rparr>"
  have v: "valid_policy ?p" "precise_policy ?p"
    by (simp_all add: valid_policy_def capacity_def precise_policy_def)
  have inv: "pred_option (tb_inv ?p) (Some ?s)" by (simp add: tb_inv_def capacity_def js_num_def)
  obtain s' r where step: "tokenBucket (Some ?s) ?p 500 3 = (s', r)" by force
  have "s' = ?s" "\<not> allowed r" "retryAfterMs r = 3"
    using step by (auto simp: tokenBucket_def capacity_def rate_per_ms_def js_ops Let_def)
  then show ?thesis
    using tokenBucket_retry_after [OF v _ _ _ inv step] by (simp add: capacity_def)
qed

end
