(* ===== verification/LeakyBucket.thy ===== *)
theory LeakyBucket
  imports Bucket
begin

text \<open>
  \<open>algorithms/leakyBucket.ts\<close>: a level that drains at \<open>limit / windowMs\<close> per millisecond and
  must stay within the capacity. It obeys the same average-rate bound as the token bucket, and,
  against its comment, it lets a burst of \<open>capacity\<close> requests through at one instant.
\<close>

section \<open>The algorithm\<close>

record leaky_bucket_state =
  lb_level :: number
  lb_lastLeakMs :: number

definition leakyBucket :: "leaky_bucket_state algorithm" where
  "leakyBucket state p now cost =
     (let cap = capacity p;
          leakPerMs = rate_per_ms p;
          lastLeakMs = (case state of Some s \<Rightarrow> lb_lastLeakMs s | None \<Rightarrow> now);
          elapsed = elapsed_since lastLeakMs now;
          level = max 0 (js_sub (case state of Some s \<Rightarrow> lb_level s | None \<Rightarrow> 0) (js_mul elapsed leakPerMs));
          is_allowed = (js_add level cost \<le> cap);
          nextLevel = (if is_allowed then js_add level cost else level)
      in (\<lparr>lb_level = nextLevel, lb_lastLeakMs = now\<rparr>,
          \<lparr>allowed = is_allowed, res_limit = limit p,
           remaining = max 0 (js_floor (js_sub cap nextLevel)),
           retryAfterMs = (if is_allowed then 0
                           else js_ceil (js_div (js_sub (js_add level cost) cap) leakPerMs))\<rparr>))"

definition lb_inv :: "policy \<Rightarrow> leaky_bucket_state \<Rightarrow> bool" where
  "lb_inv p s \<longleftrightarrow> js_num (lb_level s) \<and> 0 \<le> lb_level s \<and> lb_level s \<le> capacity p
     \<and> safe_int (lb_lastLeakMs s)"

section \<open>One call\<close>

text \<open>The level after draining, before the request is added.\<close>

definition lb_drained :: "policy \<Rightarrow> leaky_bucket_state option \<Rightarrow> number \<Rightarrow> number" where
  "lb_drained p state now =
     (case state of
        Some s \<Rightarrow> max 0 (js_sub (lb_level s) (js_mul (elapsed_since (lb_lastLeakMs s) now) (rate_per_ms p)))
      | None \<Rightarrow> 0)"

lemma leakyBucket_eq:
  "safe_int now \<Longrightarrow> leakyBucket state p now cost =
    (let level = lb_drained p state now; is_allowed = (js_add level cost \<le> capacity p);
         nextLevel = (if is_allowed then js_add level cost else level)
     in (\<lparr>lb_level = nextLevel, lb_lastLeakMs = now\<rparr>,
         \<lparr>allowed = is_allowed, res_limit = limit p,
          remaining = max 0 (js_floor (js_sub (capacity p) nextLevel)),
          retryAfterMs = (if is_allowed then 0
                          else js_ceil (js_div (js_sub (js_add level cost) (capacity p)) (rate_per_ms p)))\<rparr>))"
  by (cases state) (simp_all add: leakyBucket_def lb_drained_def js_ops Let_def)

lemma lb_drained_range:
  assumes "valid_policy p" "pred_option (lb_inv p) state"
  shows "js_num (lb_drained p state now)" "0 \<le> lb_drained p state now" "lb_drained p state now \<le> capacity p"
proof -
  have "js_num (max 0 (js_sub t d))" for t d
    by (simp add: max_def js_sub_def js_num_def)
  then show "js_num (lb_drained p state now)"
    by (auto simp: lb_drained_def js_num_def split: option.splits)
  show "0 \<le> lb_drained p state now" by (auto simp: lb_drained_def split: option.splits)
  have "js_sub t (js_mul (elapsed_since a now) (rate_per_ms p)) \<le> t" if "js_num t" for t a
    unfolding js_sub_def using that earned_nonneg [OF assms(1), of "elapsed_since a now"]
    by (intro js.rnd_le) (simp_all add: js_num_def)
  then show "lb_drained p state now \<le> capacity p"
    using assms by (fastforce simp: lb_drained_def lb_inv_def valid_policyD less_imp_le split: option.splits
        intro: order_trans)
qed

lemma leakyBucket_step:
  assumes "valid_policy p" "safe_int now" "safe_int cost" "pred_option (lb_inv p) state"
    and "leakyBucket state p now cost = (s', r)"
  shows "lb_inv p s'" "0 \<le> remaining r \<and> remaining r \<le> capacity p" "lb_lastLeakMs s' = now"
    "\<not> allowed r \<Longrightarrow> 1 \<le> retryAfterMs r"
    "allowed r \<longleftrightarrow> js_add (lb_drained p state now) cost \<le> capacity p"
    "lb_level s' = (if allowed r then js_add (lb_drained p state now) cost else lb_drained p state now)"
proof -
  let ?l = "lb_drained p state now"
  note l = lb_drained_range [OF assms(1,4), of now]
  note E = assms(5) [unfolded leakyBucket_eq [OF assms(2)] Let_def]
  have add: "js_num (js_add ?l cost)" "0 \<le> js_add ?l cost"
    using l safe_int_nonneg [OF assms(3)] by (simp_all add: js_add_def js.rnd_nonneg)
  show "lb_inv p s'" using E l add assms(2) by (auto simp: lb_inv_def split: if_splits)
  have cap: "js_num (capacity p)" "0 \<le> capacity p" using assms(1) by (simp_all add: valid_policyD less_imp_le)
  have "js_floor (js_sub (capacity p) x) \<le> capacity p" if "0 \<le> x" for x
    using js_floor_le [of "js_sub (capacity p) x"] js.rnd_le [of "capacity p - x" "capacity p"] that cap
    by (simp add: js_sub_def js_num_def)
  then show "0 \<le> remaining r \<and> remaining r \<le> capacity p"
    using E l(2) add(2) cap by (auto split: if_splits)
  show "lb_lastLeakMs s' = now" "allowed r \<longleftrightarrow> js_add ?l cost \<le> capacity p"
    "lb_level s' = (if allowed r then js_add ?l cost else ?l)"
    using E by auto
  assume "\<not> allowed r"
  then have "0 < js_div (js_sub (js_add ?l cost) (capacity p)) (rate_per_ms p)"
    using E rate_per_ms_pos [OF assms(1)] by (auto simp: js_div_def js_sub_def js.rnd_pos)
  from js_ceil_pos [OF this] show "1 \<le> retryAfterMs r"
    using E \<open>\<not> allowed r\<close> by auto
qed

interpretation lb: rate_algorithm leakyBucket lb_inv capacity
proof unfold_locales
  fix p now cost s s' r
  assume a: "valid_policy p" "safe_int now" "safe_int cost" "pred_option (lb_inv p) s"
    "leakyBucket s p now cost = (s', r)"
  show "lb_inv p s'" using a by (rule leakyBucket_step)
  show "0 \<le> remaining r \<and> remaining r \<le> capacity p" using a by (rule leakyBucket_step)
  show "1 \<le> retryAfterMs r" if "\<not> allowed r" using a that by (rule leakyBucket_step)
qed (auto simp: leakyBucket_def Let_def)

section \<open>The average rate\<close>

lemma lb_filled:
  assumes "valid_policy p" "safe_int now" "safe_int cost" "pred_option (lb_inv p) s"
    and "leakyBucket s p now cost = (s', r)"
  shows "(if allowed r then cost else 0) + lb_drained p s now \<le> lb_level s' + 2 * u64 * capacity p"
proof -
  let ?l = "lb_drained p s now"
  note l = lb_drained_range [OF assms(1,4), of now]
  note step = leakyBucket_step [OF assms]
  have cap: "0 \<le> capacity p" using assms(1) by (simp add: valid_policyD less_imp_le)
  show ?thesis
  proof (cases "allowed r")
    case True
    have low: "(?l + cost) * (1 - u64) \<le> js_add ?l cost"
      unfolding js_add_def using l safe_int_nonneg [OF assms(3)] by (intro round64_lower) simp
    also have "\<dots> \<le> capacity p" using True step(5) by simp
    finally have "(?l + cost) / 2 \<le> capacity p"
      using mult_left_mono [of "1 / 2" "1 - u64" "?l + cost"] l safe_int_nonneg [OF assms(3)]
      by (simp add: u64_def)
    then have "u64 * (?l + cost) \<le> u64 * (2 * capacity p)" by (intro mult_left_mono) auto
    with low True step(6) show ?thesis by (simp add: algebra_simps)
  next
    case False
    with step(6) cap show ?thesis by simp
  qed
qed

lemma lb_drained_lower:
  assumes "valid_policy p" "lb_inv p s" "safe_int now" "lb_lastLeakMs s \<le> now"
  shows "lb_level s \<le> lb_drained p (Some s) now + rate_ceiling p * (now - lb_lastLeakMs s) + u64 * capacity p"
proof -
  let ?m = "js_mul (now - lb_lastLeakMs s) (rate_per_ms p)"
  have s: "0 \<le> lb_level s" "lb_level s \<le> capacity p" "safe_int (lb_lastLeakMs s)"
    using assms by (auto simp: lb_inv_def)
  have d: "lb_drained p (Some s) now = max 0 (js_sub (lb_level s) ?m)"
    using assms s by (simp add: lb_drained_def max_def)
  have m: "0 \<le> ?m" "?m \<le> rate_ceiling p * (now - lb_lastLeakMs s)"
    using assms by (auto intro: earned_nonneg earned_le)
  have c: "u64 * (lb_level s - ?m) \<le> u64 * capacity p" using s m by (intro mult_left_mono) auto
  show ?thesis
  proof (cases "?m \<le> lb_level s")
    case True
    then have "(lb_level s - ?m) * (1 - u64) \<le> js_sub (lb_level s) ?m"
      unfolding js_sub_def by (intro round64_lower) simp
    with c m d show ?thesis by (simp add: algebra_simps)
  next
    case False
    moreover have "0 \<le> u64 * capacity p" using s by (intro mult_nonneg_nonneg) auto
    moreover have "0 \<le> lb_drained p (Some s) now" unfolding d by simp
    ultimately show ?thesis using m by linarith
  qed
qed

interpretation lb: bucket_algorithm leakyBucket lb_inv "\<lambda>p s. capacity p - lb_level s" lb_lastLeakMs
proof unfold_locales
  fix p now cost s s0 s' r
  assume v: "valid_policy p" "safe_int now" "safe_int cost"
  have cap: "0 \<le> u64 * capacity p" using v by (simp add: valid_policyD less_imp_le)
  show "(if allowed r then cost else 0) + (capacity p - lb_level s') \<le> capacity p + call_slack p"
    if "pred_option (lb_inv p) s" "leakyBucket s p now cost = (s', r)"
    using lb_filled [OF v that] lb_drained_range(2) [OF v(1) that(1), of now] cap
    by (simp add: call_slack_def)
  show "(if allowed r then cost else 0) + (capacity p - lb_level s')
      \<le> capacity p - lb_level s0 + rate_ceiling p * (now - lb_lastLeakMs s0) + call_slack p"
    if "lb_inv p s0" "lb_lastLeakMs s0 \<le> now" "leakyBucket (Some s0) p now cost = (s', r)"
    using lb_filled [OF v _ that(3)] lb_drained_lower [OF v(1) that(1) v(2) that(2)] that cap
    by (simp add: call_slack_def)
qed (auto simp: leakyBucket_def Let_def lb_inv_def)

text \<open>
  C31: the average rate of the leaky bucket, the same bound as the token bucket's: over any
  interval \<open>[t0, t1]\<close> and from any stored state, the admitted cost is at most
  \<open>capacity + limit / windowMs * (t1 - t0)\<close>, up to explicit rounding.
\<close>

theorem leakyBucket_rate_bound:
  assumes "valid_policy p" "valid_requests t0 rs" "pred_option (lb_inv p) s"
    and "\<forall>r \<in> set rs. fst r \<le> t1" "t0 \<le> t1"
  shows "total_cost (admitted leakyBucket p s rs)
    \<le> capacity p + limit p / windowMs p * (1 + 1 / 2 ^ 53) ^ 3 * (t1 - t0)
      + of_nat (length rs) * (capacity p / 2 ^ 51)"
  using lb.run_bound [OF assms] by (simp add: rate_ceiling_def call_slack_def u64_def)

lemma leakyBucket_rate_bound_witness:
  "total_cost (admitted leakyBucket \<lparr>limit = 2, windowMs = 1000, burst = Some 3\<rparr> None
      [(1000, 1), (1000, 1), (1200, 3)])
    \<le> 3 + 2 / 1000 * (1 + 1 / 2 ^ 53) ^ 3 * (2000 - 0) + of_nat 3 * (3 / 2 ^ 51)"
  using leakyBucket_rate_bound [of "\<lparr>limit = 2, windowMs = 1000, burst = Some 3\<rparr>" 0
      "[(1000, 1), (1000, 1), (1200, 3)]" None 2000]
  by (simp add: valid_policy_def capacity_def)

section \<open>The retry delay\<close>

text \<open>
  A request refused by the leaky bucket is let through when it is repeated one millisecond
  after the reported \<open>retryAfterMs\<close> (nothing else having been charged), provided it fits the
  capacity and one millisecond's drain is above the rounding of a full bucket.
\<close>

theorem leakyBucket_retry_after:
  assumes "valid_policy p" "precise_policy p" "safe_int now" "safe_int cost" "cost \<le> capacity p"
    and "pred_option (lb_inv p) s" "leakyBucket s p now cost = (s', r)" "\<not> allowed r"
    and "safe_int (now + retryAfterMs r + 1)"
  shows "allowed (snd (leakyBucket (Some s') p (now + retryAfterMs r + 1) cost))"
proof -
  let ?l = "lb_drained p s now" and ?later = "now + retryAfterMs r + 1" and ?cap = "capacity p"
  let ?v = "js_add ?l cost" and ?m = "js_mul (retryAfterMs r + 1) (rate_per_ms p)"
  note step = leakyBucket_step [OF assms(1,3,4,6,7)]
  note l = lb_drained_range [OF assms(1,6), of now]
  have cost: "0 \<le> cost" using assms(4) by (rule safe_int_nonneg)
  have cap: "0 \<le> ?cap" "js_num ?cap" using assms(1) by (simp_all add: valid_policyD less_imp_le)
  have over: "?cap < ?v" using step(5) assms(8) by simp
  have retry: "retryAfterMs r = js_ceil (js_div (js_sub ?v ?cap) (rate_per_ms p))"
    using assms(7,8) by (auto simp: leakyBucket_eq [OF assms(3)] Let_def)
  have over': "?cap < ?l + cost"
    using over js.rnd_le [of "?l + cost" ?cap] cap by (force simp: js_add_def js_num_def)
  have earned: "?l + cost - ?cap + u64 * ?cap \<le> ?m"
    unfolding retry
  proof (rule waiting_earns [OF assms(1,2)])
    have "(?l + cost) * (1 - u64) \<le> ?v"
      unfolding js_add_def using l cost by (intro round64_lower) simp
    moreover have "u64 * (?l + cost) \<le> u64 * (2 * ?cap)"
      using l assms(5) by (intro mult_left_mono) auto
    ultimately have "?l + cost - ?cap - 2 * (u64 * ?cap) \<le> ?v - ?cap" by (simp add: algebra_simps)
    then have "(?l + cost - ?cap - 2 * (u64 * ?cap)) * (1 - u64) \<le> (?v - ?cap) * (1 - u64)"
      using u64_less_1 by (intro mult_right_mono) auto
    also have "\<dots> \<le> js_sub ?v ?cap"
      unfolding js_sub_def using over by (intro round64_lower) simp
    finally have "(?l + cost - ?cap) * (1 - u64) \<le> js_sub ?v ?cap + 2 * (u64 * ?cap) * (1 - u64)"
      by (simp add: algebra_simps)
    moreover have "u64 * ?cap * (1 - u64) \<le> u64 * ?cap"
      using cap u64_less_1 by (intro mult_left_le) auto
    moreover have "(?l + cost - ?cap + u64 * ?cap) * (1 - u64)
        = (?l + cost - ?cap) * (1 - u64) + u64 * ?cap * (1 - u64)"
      by (simp only: distrib_right)
    moreover have "2 * (u64 * ?cap) * (1 - u64) = 2 * (u64 * ?cap * (1 - u64))" by (simp only: mult.assoc)
    moreover have "0 \<le> u64 * ?cap" using cap by simp
    ultimately show "(?l + cost - ?cap + u64 * ?cap) * (1 - u64) \<le> js_sub ?v ?cap + 4 * (u64 * ?cap)"
      by linarith
    have "u64 * ?cap \<le> 1 / 8 * ?cap" using cap by (intro mult_right_mono) (simp_all add: u64_def)
    then show "?l + cost - ?cap + u64 * ?cap \<le> 9 / 8 * ?cap" using l(3) assms(5) by simp
    show "0 \<le> js_sub ?v ?cap" using over by (simp add: js_sub_def js.rnd_nonneg)
    show "0 \<le> ?l + cost - ?cap + u64 * ?cap" using over' cap by (simp add: add_nonneg_nonneg)
  qed
  have "js_sub ?l ?m \<le> ?cap - cost"
  proof (cases "?m \<le> ?l")
    case True
    have "js_sub ?l ?m \<le> (?l - ?m) * (1 + u64)"
      unfolding js_sub_def using True by (intro round64_upper) simp
    also have "\<dots> = (?l - ?m) + u64 * (?l - ?m)" by (simp add: algebra_simps)
    also have "\<dots> \<le> (?l - ?m) + u64 * ?cap"
    proof (intro add_left_mono mult_left_mono)
      have "0 \<le> u64 * ?cap" using cap by simp
      then have "0 \<le> ?m" using earned over' by linarith
      then show "?l - ?m \<le> ?cap" using l by simp
    qed simp
    finally show ?thesis using earned by simp
  next
    case False
    then have "js_sub ?l ?m \<le> 0" by (simp add: js_sub_def js.rnd_nonpos)
    then show ?thesis using assms(5) by simp
  qed
  then have "max 0 (js_sub ?l ?m) + cost \<le> ?cap" using assms(5) by simp
  moreover have "elapsed_since (lb_lastLeakMs s') ?later = retryAfterMs r + 1"
    using step(3) step(4) [OF assms(8)] assms(3,9) by simp
  ultimately have "js_add (lb_drained p (Some s') ?later) cost \<le> ?cap"
    unfolding js_add_def using step(6) assms(8) cap
    by (intro js.rnd_le) (simp_all add: lb_drained_def js_num_def)
  then show ?thesis by (simp add: leakyBucket_eq [OF assms(9)] Let_def)
qed

lemma leakyBucket_retry_after_witness:
  "allowed (snd (leakyBucket (Some \<lparr>lb_level = 1000, lb_lastLeakMs = 500\<rparr>)
     \<lparr>limit = 1000, windowMs = 1000, burst = None\<rparr> (500 + 3 + 1) 3))"
proof -
  let ?p = "\<lparr>limit = 1000, windowMs = 1000, burst = None\<rparr>"
    and ?s = "\<lparr>lb_level = 1000, lb_lastLeakMs = 500\<rparr>"
  have v: "valid_policy ?p" "precise_policy ?p"
    by (simp_all add: valid_policy_def capacity_def precise_policy_def)
  have inv: "pred_option (lb_inv ?p) (Some ?s)" by (simp add: lb_inv_def capacity_def js_num_def)
  obtain s' r where step: "leakyBucket (Some ?s) ?p 500 3 = (s', r)" by force
  have "s' = ?s" "\<not> allowed r" "retryAfterMs r = 3"
    using step by (auto simp: leakyBucket_def capacity_def rate_per_ms_def js_ops Let_def)
  then show ?thesis
    using leakyBucket_retry_after [OF v _ _ _ inv step] by (simp add: capacity_def)
qed

section \<open>Bursts\<close>

lemma leakyBucket_unit:
  assumes "valid_policy p" "safe_int now" "safe_int (of_nat k)"
  shows "leakyBucket (Some \<lparr>lb_level = of_nat k, lb_lastLeakMs = now\<rparr>) p now 1 =
    (if of_nat k + 1 \<le> capacity p
     then (\<lparr>lb_level = of_nat (Suc k), lb_lastLeakMs = now\<rparr>,
       \<lparr>allowed = True, res_limit = limit p,
        remaining = max 0 (js_floor (js_sub (capacity p) (of_nat (Suc k)))), retryAfterMs = 0\<rparr>)
     else (\<lparr>lb_level = of_nat k, lb_lastLeakMs = now\<rparr>,
       \<lparr>allowed = False, res_limit = limit p,
        remaining = max 0 (js_floor (js_sub (capacity p) (of_nat k))),
        retryAfterMs = js_ceil (js_div (js_sub (of_nat k + 1) (capacity p)) (rate_per_ms p))\<rparr>))"
  using assms by (simp add: leakyBucket_eq lb_drained_def js_mul_def js_sub_def Let_def add.commute)

lemma leakyBucket_burst_from:
  assumes "valid_policy p" "safe_int now" "of_nat k \<le> capacity p"
  shows "admitted leakyBucket p (Some \<lparr>lb_level = of_nat k, lb_lastLeakMs = now\<rparr>) (replicate n (now, 1))
    = replicate (min n (nat \<lfloor>capacity p\<rfloor> - k)) (now, 1)"
  using assms(3)
proof (induction n arbitrary: k)
  case (Suc n)
  have cap: "safe_int (capacity p)" using assms(1) by (rule valid_policyD)
  have k: "safe_int (of_nat k)"
    using Suc.prems cap by (auto simp: safe_int_def)
  have fits: "of_nat k + 1 \<le> capacity p \<longleftrightarrow> k < nat \<lfloor>capacity p\<rfloor>"
  proof -
    have "of_nat k + 1 \<le> capacity p \<longleftrightarrow> int k + 1 \<le> \<lfloor>capacity p\<rfloor>" by (simp add: le_floor_iff)
    also have "\<dots> \<longleftrightarrow> k < nat \<lfloor>capacity p\<rfloor>" by linarith
    finally show ?thesis .
  qed
  show ?case
  proof (cases "of_nat k + 1 \<le> capacity p")
    case True
    then have "of_nat (Suc k) \<le> capacity p" by simp
    moreover have "min (Suc n) (nat \<lfloor>capacity p\<rfloor> - k) = Suc (min n (nat \<lfloor>capacity p\<rfloor> - Suc k))"
      using True fits by simp
    ultimately show ?thesis
      using True Suc.IH [of "Suc k"] leakyBucket_unit [OF assms(1,2) k] by simp
  next
    case False
    then have "nat \<lfloor>capacity p\<rfloor> - k = 0" using fits by simp
    with False show ?thesis
      using Suc.IH [OF Suc.prems] leakyBucket_unit [OF assms(1,2) k] by simp
  qed
qed simp

text \<open>
  \<open>leakyBucket\<close> absorbs bursts. Of any number of unit requests at one and the same instant on
  a fresh key it lets exactly the first \<open>capacity\<close> through at once: nothing is spread over time.
\<close>

theorem leakyBucket_absorbs_burst:
  assumes "valid_policy p" "safe_int now"
  shows "admitted leakyBucket p None (replicate n (now, 1))
    = replicate (min n (nat \<lfloor>capacity p\<rfloor>)) (now, 1)"
proof -
  have "leakyBucket None p now c = leakyBucket (Some \<lparr>lb_level = of_nat 0, lb_lastLeakMs = now\<rparr>) p now c" for c
    using assms by (simp add: leakyBucket_eq lb_drained_def js_mul_def js_sub_def)
  then have "admitted leakyBucket p None (replicate n (now, 1))
      = admitted leakyBucket p (Some \<lparr>lb_level = of_nat 0, lb_lastLeakMs = now\<rparr>) (replicate n (now, 1))"
    by (cases n) simp_all
  then show ?thesis
    using leakyBucket_burst_from [OF assms, of 0 n] assms(1) by (simp add: valid_policyD less_imp_le)
qed

lemma leakyBucket_absorbs_burst_witness:
  "admitted leakyBucket \<lparr>limit = 10, windowMs = 1000, burst = Some 10\<rparr> None (replicate 30 (0, 1))
    = replicate 10 (0, 1)"
  using leakyBucket_absorbs_burst [of "\<lparr>limit = 10, windowMs = 1000, burst = Some 10\<rparr>" 0 30]
  by (simp add: valid_policy_def capacity_def)

end
