(* ===== verification/SlidingWindowLog.thy ===== *)
theory SlidingWindowLog
  imports RateLimit
begin

text \<open>
  \<open>algorithms/slidingWindowLog.ts\<close>: the log of admitted requests. It is exact: every half-open
  interval of length \<open>windowMs\<close>, aligned or not, lets at most \<open>limit\<close> through.
\<close>

section \<open>The algorithm\<close>

record sliding_window_log_state =
  swl_entries :: "(number \<times> number) list"

definition slidingWindowLog :: "sliding_window_log_state algorithm" where
  "slidingWindowLog state p now cost =
     (let windowStart = js_sub now (windowMs p);
          alive = filter (\<lambda>(ts, c). windowStart < ts) (case state of Some s \<Rightarrow> swl_entries s | None \<Rightarrow> []);
          currentCount = foldl (\<lambda>acc (ts, c). js_add acc c) 0 alive;
          is_allowed = (js_add currentCount cost \<le> limit p);
          entries = (if is_allowed then alive @ [(now, cost)] else alive);
          finalCount = (if is_allowed then js_add currentCount cost else currentCount)
      in (\<lparr>swl_entries = entries\<rparr>,
          \<lparr>allowed = is_allowed, res_limit = limit p,
           remaining = max 0 (js_sub (limit p) finalCount),
           retryAfterMs = (if is_allowed then 0
             else js_sub (js_add (case alive of [] \<Rightarrow> now | (ts, c) # _ \<Rightarrow> ts) (windowMs p)) now)\<rparr>))"

definition swl_inv :: "policy \<Rightarrow> sliding_window_log_state \<Rightarrow> bool" where
  "swl_inv p s \<longleftrightarrow> (\<forall>(t, c) \<in> set (swl_entries s). safe_int t \<and> safe_int c)
     \<and> total_cost (swl_entries s) \<le> limit p"

section \<open>One call\<close>

text \<open>The entries still inside the window, which is what the algorithm counts.\<close>

definition swl_alive :: "policy \<Rightarrow> sliding_window_log_state option \<Rightarrow> number \<Rightarrow> (number \<times> number) list" where
  "swl_alive p state now =
     filter (\<lambda>(ts, c). now - windowMs p < ts) (case state of Some s \<Rightarrow> swl_entries s | None \<Rightarrow> [])"

lemma total_cost_filter_le:
  assumes "\<forall>(t, c) \<in> set es. safe_int t \<and> safe_int c"
  shows "total_cost (filter P es) \<le> total_cost es"
  using assms by (induction es) (auto simp: safe_int_nonneg add_increasing)

lemma log_sum:
  assumes "\<forall>(t, c) \<in> set es. safe_int t \<and> safe_int c" "safe_int a" "a + total_cost es \<le> z" "safe_int z"
  shows "foldl (\<lambda>acc (ts, c). js_add acc c) a es = a + total_cost es \<and> safe_int (a + total_cost es)"
  using assms
proof (induction es arbitrary: a)
  case (Cons e es)
  obtain t c where e [simp]: "e = (t, c)" by force
  have c: "safe_int c" and es: "\<forall>(t, c) \<in> set es. safe_int t \<and> safe_int c" using Cons.prems by auto
  have "0 \<le> total_cost es" using es by (intro total_cost_nonneg) (auto simp: safe_int_nonneg)
  then have le: "a + c \<le> z" using Cons.prems by simp
  then have "safe_int (a + c)" using safe_int_add_le Cons.prems c by blast
  from Cons.IH [OF es this] Cons.prems c show ?case by (simp add: add.assoc)
qed simp

lemma swl_alive_safe:
  assumes "valid_policy p" "pred_option (swl_inv p) s"
  shows "\<forall>(t, c) \<in> set (swl_alive p s now). safe_int t \<and> safe_int c"
    and "total_cost (swl_alive p s now) \<le> limit p" "0 \<le> total_cost (swl_alive p s now)"
    and "safe_int (total_cost (swl_alive p s now))"
proof -
  let ?A = "swl_alive p s now"
  show *: "\<forall>(t, c) \<in> set ?A. safe_int t \<and> safe_int c"
    using assms(2) by (cases s) (auto simp: swl_alive_def swl_inv_def)
  show le: "total_cost ?A \<le> limit p"
    using assms total_cost_filter_le order_trans
    by (cases s) (fastforce simp: swl_alive_def swl_inv_def valid_policyD less_imp_le)+
  show "0 \<le> total_cost ?A" using * by (intro total_cost_nonneg) (auto simp: safe_int_nonneg)
  show "safe_int (total_cost ?A)"
    using log_sum [OF *, of 0 "limit p"] le valid_policyD(1) [OF assms(1)] by simp
qed

text \<open>On valid inputs nothing rounds.\<close>

lemma slidingWindowLog_exact:
  assumes "valid_policy p" "safe_int now" "safe_int cost" "pred_option (swl_inv p) s"
  shows "slidingWindowLog s p now cost =
    (let alive = swl_alive p s now; cur = total_cost alive; is_allowed = (cur + cost \<le> limit p)
     in (\<lparr>swl_entries = (if is_allowed then alive @ [(now, cost)] else alive)\<rparr>,
         \<lparr>allowed = is_allowed, res_limit = limit p,
          remaining = limit p - (if is_allowed then cur + cost else cur),
          retryAfterMs = (if is_allowed then 0
            else (case alive of [] \<Rightarrow> now | (ts, c) # _ \<Rightarrow> ts) + windowMs p - now)\<rparr>))"
proof -
  let ?A = "swl_alive p s now"
  let ?ts = "case ?A of [] \<Rightarrow> now | (ts, c) # _ \<Rightarrow> ts"
  note A = swl_alive_safe [OF assms(1,4), of now]
  have lim: "safe_int (limit p)" "safe_int (windowMs p)" using assms(1) by (simp_all add: valid_policyD)
  have alive: "filter (\<lambda>(ts, c). js_sub now (windowMs p) < ts) (case s of Some s \<Rightarrow> swl_entries s | None \<Rightarrow> []) = ?A"
    using assms(2) lim by (simp add: swl_alive_def)
  have cur: "foldl (\<lambda>acc (ts, c). js_add acc c) 0 ?A = total_cost ?A"
    using log_sum [OF A(1), of 0 "limit p"] A(2) lim by simp
  have sum: "js_add (total_cost ?A) cost = total_cost ?A + cost" using A(4) assms(3) by simp
  have safe: "safe_int (if total_cost ?A + cost \<le> limit p then total_cost ?A + cost else total_cost ?A)"
    using A(4) assms(3) lim(1) safe_int_add_le by auto
  have "safe_int ?ts" using A(1) assms(2) by (auto split: list.splits)
  then obtain a b c where "?ts = of_int a" "0 \<le> a" "a \<le> 2 ^ 52" "windowMs p = of_int b" "0 \<le> b" "b \<le> 2 ^ 52"
      "now = of_int c" "0 \<le> c" "c \<le> 2 ^ 52"
    using lim(2) assms(2) by (meson safe_intE)
  then have "\<exists>i. ?ts + windowMs p - now = of_int i \<and> \<bar>i\<bar> \<le> 2 ^ 53"
    by (intro exI [of _ "a + b - c"]) auto
  then have retry: "js_sub (js_add ?ts (windowMs p)) now = ?ts + windowMs p - now"
    using \<open>safe_int ?ts\<close> lim(2) by (auto simp: js_sub_def round64_int)
  show ?thesis
    unfolding slidingWindowLog_def Let_def alive cur sum retry
    using safe A(2) lim(1) by (auto simp: max_def)
qed

lemma slidingWindowLog_step:
  assumes "valid_policy p" "safe_int now" "safe_int cost" "pred_option (swl_inv p) s"
    and "slidingWindowLog s p now cost = (s', r)"
  shows "swl_inv p s'" "0 \<le> remaining r \<and> remaining r \<le> limit p" "\<not> allowed r \<Longrightarrow> 1 \<le> retryAfterMs r"
    "swl_entries s' = (if allowed r then swl_alive p s now @ [(now, cost)] else swl_alive p s now)"
    "allowed r \<longleftrightarrow> total_cost (swl_alive p s now) + cost \<le> limit p"
proof -
  let ?A = "swl_alive p s now"
  note E = assms(5) [unfolded slidingWindowLog_exact [OF assms(1-4)] Let_def]
  note A = swl_alive_safe [OF assms(1,4), of now]
  show "swl_inv p s'" using E A assms by (auto simp: swl_inv_def split: if_splits)
  show "0 \<le> remaining r \<and> remaining r \<le> limit p"
    using E A safe_int_nonneg [OF assms(3)] by (auto split: if_splits)
  show "swl_entries s' = (if allowed r then ?A @ [(now, cost)] else ?A)"
    "allowed r \<longleftrightarrow> total_cost ?A + cost \<le> limit p" using E by auto
  assume "\<not> allowed r"
  let ?ts = "case ?A of [] \<Rightarrow> now | (ts, c) # _ \<Rightarrow> ts"
  have r: "retryAfterMs r = ?ts + windowMs p - now" using E \<open>\<not> allowed r\<close> by auto
  have "safe_int ?ts" using A(1) assms(2) by (auto split: list.splits)
  moreover have "now - windowMs p < ?ts"
  proof (cases ?A)
    case Nil
    then show ?thesis using assms(1) by (simp add: valid_policyD)
  next
    case (Cons e es)
    then have "e \<in> set ?A" by simp
    then show ?thesis using Cons by (auto simp: swl_alive_def)
  qed
  moreover obtain i j k where "?ts = of_int i" "windowMs p = of_int j" "now = of_int k"
    using \<open>safe_int ?ts\<close> valid_policyD(3) [OF assms(1)] assms(2) by (meson safe_intE)
  moreover from calculation have "(0::rat) < of_int (i + j - k)" by simp
  then have "(1::rat) \<le> of_int (i + j - k)" by (simp only: of_int_1_le_iff of_int_0_less_iff)
  ultimately show "1 \<le> retryAfterMs r" using r by simp
qed

interpretation swl: rate_algorithm slidingWindowLog swl_inv limit
proof unfold_locales
  fix p now cost s s' r
  assume a: "valid_policy p" "safe_int now" "safe_int cost" "pred_option (swl_inv p) s"
    "slidingWindowLog s p now cost = (s', r)"
  show "swl_inv p s'" using a by (rule slidingWindowLog_step)
  show "0 \<le> remaining r \<and> remaining r \<le> limit p" using a by (rule slidingWindowLog_step)
  show "1 \<le> retryAfterMs r" if "\<not> allowed r" using a that by (rule slidingWindowLog_step)
qed (auto simp: slidingWindowLog_def Let_def)

section \<open>Exactness\<close>

text \<open>The requests in the sliding window \<open>(t - windowMs, t]\<close>.\<close>

definition sliding :: "policy \<Rightarrow> number \<Rightarrow> (number \<times> number) list \<Rightarrow> (number \<times> number) list" where
  "sliding p t rs = filter (\<lambda>(s, c). t - windowMs p < s \<and> s \<le> t) rs"

lemma sliding_Nil [simp]: "sliding p t [] = []"
  by (simp add: sliding_def)

lemma sliding_append [simp]: "sliding p t (rs @ qs) = sliding p t rs @ sliding p t qs"
  by (simp add: sliding_def)

lemma sliding_alive: "now \<le> t \<Longrightarrow> sliding p t (swl_alive p (Some s) now) = sliding p t (swl_entries s)"
  unfolding sliding_def swl_alive_def filter_filter by (auto intro: filter_cong)

lemma sliding_future:
  assumes "valid_requests now rs" "t < now"
  shows "sliding p t (admitted alg p s rs) = []"
proof -
  have "\<not> ts \<le> t" if "(ts, c) \<in> set (admitted alg p s rs)" for ts c
    using admitted_valid [OF assms(1) that] assms(2) by linarith
  then show ?thesis by (force simp: sliding_def filter_empty_conv)
qed

lemma swl_budget:
  assumes "valid_policy p" "valid_requests t0 rs" "swl_inv p s"
  shows "total_cost (sliding p t (swl_entries s @ admitted slidingWindowLog p (Some s) rs)) \<le> limit p"
  using assms(2-)
proof (induction rs arbitrary: s t0)
  case Nil
  then show ?case
    using total_cost_filter_le order_trans by (fastforce simp: swl_inv_def sliding_def)
next
  case (Cons r rs)
  obtain now cost where r [simp]: "r = (now, cost)" by force
  have v: "safe_int now" "safe_int cost" "valid_requests now rs" using Cons.prems by auto
  obtain s' q where step: "slidingWindowLog (Some s) p now cost = (s', q)" by force
  note S = slidingWindowLog_step [OF assms(1) v(1,2) _ step, simplified, OF Cons.prems(2)]
  show ?case
  proof (cases "now \<le> t")
    case True
    show ?thesis
      using Cons.IH [OF v(3) S(1)] step sliding_alive [OF True, of p s]
      unfolding S(4) by (auto simp: total_cost_def)
  next
    case False
    then have "sliding p t (admitted slidingWindowLog p (Some s) (r # rs)) = []"
      using v by (intro sliding_future [of now]) auto
    then show ?thesis
      using Cons.prems(2) total_cost_filter_le order_trans by (fastforce simp: swl_inv_def sliding_def)
  qed
qed

lemma slidingWindowLog_budget:
  assumes "valid_policy p" "valid_requests 0 rs"
  shows "total_cost (sliding p t (admitted slidingWindowLog p None rs)) \<le> limit p"
proof -
  have init: "slidingWindowLog None p = slidingWindowLog (Some \<lparr>swl_entries = []\<rparr>) p"
    by (intro ext) (simp add: slidingWindowLog_def)
  have "admitted slidingWindowLog p None rs = admitted slidingWindowLog p (Some \<lparr>swl_entries = []\<rparr>) rs"
    by (cases rs) (auto simp: init)
  then show ?thesis
    using swl_budget [OF assms, of "\<lparr>swl_entries = []\<rparr>" t] assms(1)
    by (simp add: swl_inv_def valid_policyD less_imp_le)
qed

text \<open>
  C3: in every interval \<open>(t - windowMs, t]\<close> whatsoever, the requests \<open>slidingWindowLog\<close> lets
  through cost at most \<open>limit\<close> together: the boundary burst of the fixed window cannot happen.
\<close>

theorem slidingWindowLog_exact_limit:
  assumes "valid_policy p" "valid_requests 0 rs"
  shows "total_cost (sliding p t (admitted slidingWindowLog p None rs)) \<le> limit p"
  using assms by (rule slidingWindowLog_budget)

text \<open>
  A unit-cost request refused by \<open>slidingWindowLog\<close> is let through when it is repeated after
  exactly the reported \<open>retryAfterMs\<close>: the oldest live entry has just left the window.
\<close>

theorem slidingWindowLog_retry_after:
  assumes "valid_policy p" "safe_int now" "pred_option (swl_inv p) s"
    and "\<forall>(t, c) \<in> set (swl_alive p s now). 1 \<le> c"
    and "slidingWindowLog s p now 1 = (s', r)" "\<not> allowed r" "safe_int (now + retryAfterMs r)"
  shows "allowed (snd (slidingWindowLog (Some s') p (now + retryAfterMs r) 1))"
proof -
  let ?A = "swl_alive p s now" and ?later = "now + retryAfterMs r"
  note S = slidingWindowLog_step [OF assms(1,2) safe_int_1 assms(3,5)]
  note A = swl_alive_safe [OF assms(1,3), of now]
  have over: "limit p < total_cost ?A + 1" using S(5) assms(6) by simp
  have "?A \<noteq> []" using over assms(1) by (auto simp: valid_policy_def)
  then obtain ts c es where e: "?A = (ts, c) # es" by (cases ?A) auto
  have "retryAfterMs r = ts + windowMs p - now"
    using assms(5,6) e unfolding slidingWindowLog_exact [OF assms(1,2) safe_int_1 assms(3)] Let_def by auto
  then have "swl_alive p (Some s') ?later = filter (\<lambda>(u, d). ts < u) es"
    using S(4) assms(6) e by (simp add: swl_alive_def)
  moreover have "total_cost (filter (\<lambda>(u, d). ts < u) es) \<le> total_cost es"
    using A(1) e by (intro total_cost_filter_le) auto
  moreover have "c + total_cost es \<le> limit p" "1 \<le> c" using A(2) assms(4) e by auto
  ultimately have "total_cost (swl_alive p (Some s') ?later) + 1 \<le> limit p" by simp
  then show ?thesis
    using S(1) assms(1,7) by (simp add: slidingWindowLog_exact Let_def)
qed

section \<open>Witnesses\<close>

lemma slidingWindowLog_exact_limit_witness:
  "total_cost (sliding \<lparr>limit = 2, windowMs = 1000, burst = None\<rparr> 1500
     (admitted slidingWindowLog \<lparr>limit = 2, windowMs = 1000, burst = None\<rparr> None
        [(990, 1), (995, 1), (999, 1), (1000, 1)])) \<le> 2"
  using slidingWindowLog_exact_limit [of "\<lparr>limit = 2, windowMs = 1000, burst = None\<rparr>"
      "[(990, 1), (995, 1), (999, 1), (1000, 1)]" 1500]
  by (simp add: valid_policy_def capacity_def)

lemma slidingWindowLog_retry_after_witness:
  "allowed (snd (slidingWindowLog (Some \<lparr>swl_entries = [(990, 1), (995, 1)]\<rparr>)
     \<lparr>limit = 2, windowMs = 1000, burst = None\<rparr> (1200 + 790) 1))"
proof -
  let ?p = "\<lparr>limit = 2, windowMs = 1000, burst = None\<rparr>" and ?s = "\<lparr>swl_entries = [(990, 1), (995, 1)]\<rparr>"
  have v: "valid_policy ?p" by (simp add: valid_policy_def capacity_def)
  have inv: "pred_option (swl_inv ?p) (Some ?s)" by (simp add: swl_inv_def)
  obtain s' r where step: "slidingWindowLog (Some ?s) ?p 1200 1 = (s', r)" by force
  have "s' = ?s" "\<not> allowed r" "retryAfterMs r = 790"
    using step by (auto simp: slidingWindowLog_exact [OF v _ _ inv] Let_def swl_alive_def)
  with slidingWindowLog_retry_after [OF v _ inv _ step] show ?thesis
    by (simp add: swl_alive_def)
qed

end
