(* ===== verification/FixedWindow.thy ===== *)
theory FixedWindow
  imports RateLimit
begin

text \<open>
  \<open>algorithms/fixedWindow.ts\<close>: one counter per aligned window. The counter never passes the limit,
  so every aligned window lets at most \<open>limit\<close> through; a client that waits the reported delay
  finds a fresh window.
\<close>

section \<open>The algorithm\<close>

record fixed_window_state =
  fw_windowStart :: number
  fw_count :: number

definition fixedWindow :: "fixed_window_state algorithm" where
  "fixedWindow state p now cost =
     (let windowStart = js_mul (js_floor (js_div now (windowMs p))) (windowMs p);
          currentCount = (case state of
              Some s \<Rightarrow> if fw_windowStart s = windowStart then fw_count s else 0
            | None \<Rightarrow> 0);
          projected = js_add currentCount cost;
          is_allowed = (projected \<le> limit p);
          count = (if is_allowed then projected else currentCount)
      in (\<lparr>fw_windowStart = windowStart, fw_count = count\<rparr>,
          \<lparr>allowed = is_allowed, res_limit = limit p,
           remaining = max 0 (js_sub (limit p) count),
           retryAfterMs = (if is_allowed then 0
                           else js_sub (js_add windowStart (windowMs p)) now)\<rparr>))"

definition fw_inv :: "policy \<Rightarrow> fixed_window_state \<Rightarrow> bool" where
  "fw_inv p s \<longleftrightarrow> safe_int (fw_count s) \<and> fw_count s \<le> limit p"

section \<open>Aligned windows\<close>

definition window_of :: "policy \<Rightarrow> number \<Rightarrow> int" where
  "window_of p t = \<lfloor>t\<rfloor> div \<lfloor>windowMs p\<rfloor>"

definition window_begin :: "policy \<Rightarrow> int \<Rightarrow> number" where
  "window_begin p k = of_int (k * \<lfloor>windowMs p\<rfloor>)"

lemma floor_window:
  assumes "valid_policy p"
  shows "of_int \<lfloor>windowMs p\<rfloor> = windowMs p" "0 < \<lfloor>windowMs p\<rfloor>"
  using assms by (auto simp: valid_policy_def safe_int_def)

lemma window_start_eq:
  assumes "valid_policy p" "safe_int now"
  shows "js_mul (js_floor (js_div now (windowMs p))) (windowMs p) = window_begin p (window_of p now)"
  using assms js_window_start [of now "windowMs p"]
  by (simp add: window_begin_def window_of_def valid_policyD)

lemma window_begin_inj [simp]:
  "valid_policy p \<Longrightarrow> window_begin p j = window_begin p k \<longleftrightarrow> j = k"
  using floor_window by (force simp: window_begin_def)

lemma window_begin_le:
  assumes "valid_policy p" "safe_int now"
  shows "window_begin p (window_of p now) \<le> now" "now + 1 \<le> window_begin p (window_of p now) + windowMs p"
proof -
  define w where "w = \<lfloor>windowMs p\<rfloor>"
  have w: "0 < w" "of_int w = windowMs p" using floor_window [OF assms(1)] by (auto simp: w_def)
  obtain i where i: "now = of_int i" "0 \<le> i" using assms(2) by (auto elim: safe_intE)
  have "i div w * w \<le> i" "i + 1 \<le> i div w * w + w"
    using w div_mult_mod_eq [of i w] pos_mod_bound [of w i] pos_mod_sign [of w i] by linarith+
  then have "(of_int (i div w * w) :: rat) \<le> of_int i" "(of_int (i + 1) :: rat) \<le> of_int (i div w * w + w)"
    by (simp_all only: of_int_le_iff)
  then show "window_begin p (window_of p now) \<le> now" "now + 1 \<le> window_begin p (window_of p now) + windowMs p"
    by (simp_all add: window_begin_def window_of_def i w_def [symmetric] w)
qed

lemma window_begin_safe [simp]:
  assumes "valid_policy p" "safe_int now"
  shows "safe_int (window_begin p (window_of p now))"
proof -
  have "0 \<le> window_of p now" using assms floor_window
    by (auto simp: window_of_def pos_imp_zdiv_nonneg_iff elim: safe_intE)
  then have "0 \<le> window_begin p (window_of p now)"
    using floor_window [OF assms(1)] by (simp add: window_begin_def)
  moreover have "window_begin p (window_of p now) \<le> 2 ^ 52"
    using window_begin_le [OF assms] assms(2) by (simp add: safe_int_def)
  moreover have "of_int \<lfloor>window_begin p (window_of p now)\<rfloor> = window_begin p (window_of p now)"
    unfolding window_begin_def by (simp only: floor_of_int)
  ultimately show ?thesis unfolding safe_int_def by blast
qed

lemma window_of_mono: "valid_policy p \<Longrightarrow> s \<le> t \<Longrightarrow> window_of p s \<le> window_of p t"
  using floor_window by (auto simp: window_of_def intro!: zdiv_mono1 floor_mono)

lemma window_begin_next:
  "valid_policy p \<Longrightarrow> window_begin p (k + 1) = window_begin p k + windowMs p"
  unfolding window_begin_def distrib_right of_int_add mult_1 by (simp only: floor_window(1))

lemma window_of_begin [simp]: "valid_policy p \<Longrightarrow> window_of p (window_begin p k) = k"
  unfolding window_of_def window_begin_def floor_of_int
  using floor_window(2) [of p] by (metis less_irrefl nonzero_mult_div_cancel_right)

lemma window_of_next:
  "valid_policy p \<Longrightarrow> window_of p (window_begin p k + windowMs p) = k + 1"
  by (simp flip: window_begin_next)

section \<open>Correctness\<close>

text \<open>The counter the algorithm reads: that of the stored window if it is the current one.\<close>

definition fw_current :: "policy \<Rightarrow> fixed_window_state option \<Rightarrow> number \<Rightarrow> number" where
  "fw_current p state now =
     (case state of Some s \<Rightarrow> if fw_windowStart s = window_begin p (window_of p now) then fw_count s else 0
      | None \<Rightarrow> 0)"

lemma fw_current_safe:
  "pred_option (fw_inv p) s \<Longrightarrow> valid_policy p \<Longrightarrow> safe_int (fw_current p s now) \<and> fw_current p s now \<le> limit p"
  by (cases s) (auto simp: fw_current_def fw_inv_def valid_policyD less_imp_le)

text \<open>On valid inputs nothing rounds.\<close>

lemma fixedWindow_exact:
  assumes "valid_policy p" "safe_int now" "safe_int cost" "pred_option (fw_inv p) s"
  shows "fixedWindow s p now cost =
    (let cur = fw_current p s now; is_allowed = (cur + cost \<le> limit p);
         count = (if is_allowed then cur + cost else cur); start = window_begin p (window_of p now)
     in (\<lparr>fw_windowStart = start, fw_count = count\<rparr>,
         \<lparr>allowed = is_allowed, res_limit = limit p, remaining = limit p - count,
          retryAfterMs = (if is_allowed then 0 else start + windowMs p - now)\<rparr>))"
proof -
  let ?cur = "fw_current p s now" and ?start = "window_begin p (window_of p now)"
  have cur: "safe_int ?cur" "?cur \<le> limit p" using fw_current_safe assms by auto
  have lim: "safe_int (limit p)" "limit p \<le> 2 ^ 52" using assms by (auto simp: valid_policy_def safe_int_def)
  have sum: "js_add ?cur cost = ?cur + cost" using cur assms by simp
  have safe: "safe_int (if ?cur + cost \<le> limit p then ?cur + cost else ?cur)"
    using cur lim assms by (auto intro: safe_int_add)
  have "\<exists>i. ?start + windowMs p - now = of_int i \<and> \<bar>i\<bar> \<le> 2 ^ 53"
  proof -
    obtain a b c where "?start = of_int a" "0 \<le> a" "a \<le> 2 ^ 52" "windowMs p = of_int b" "0 \<le> b" "b \<le> 2 ^ 52"
      "now = of_int c" "0 \<le> c" "c \<le> 2 ^ 52"
      using assms by (meson safe_intE valid_policyD window_begin_safe)
    then show ?thesis by (intro exI [of _ "a + b - c"]) auto
  qed
  then have retry: "js_sub (js_add ?start (windowMs p)) now = ?start + windowMs p - now"
    using assms by (auto simp: js_sub_def valid_policyD round64_int)
  show ?thesis
    unfolding fixedWindow_def window_start_eq [OF assms(1,2)] fw_current_def [symmetric] Let_def sum retry
    using safe cur lim by (auto simp: max_def)
qed

interpretation fw: rate_algorithm fixedWindow fw_inv limit
proof unfold_locales
  fix p now cost s s' r
  assume a: "valid_policy p" "safe_int now" "safe_int cost" "pred_option (fw_inv p) s"
    "fixedWindow s p now cost = (s', r)"
  note E = a(5) [unfolded fixedWindow_exact [OF a(1-4)] Let_def]
  have cur: "safe_int (fw_current p s now)" "fw_current p s now \<le> limit p" using fw_current_safe a by auto
  show "fw_inv p s'"
    using E cur a(3) safe_int_add_le [OF cur(1) a(3) valid_policyD(1) [OF a(1)]]
    by (auto simp: fw_inv_def split: if_splits)
  show "0 \<le> remaining r \<and> remaining r \<le> limit p"
    using E cur safe_int_nonneg [OF cur(1)] safe_int_nonneg [OF a(3)] by (auto split: if_splits)
  show "1 \<le> retryAfterMs r" if "\<not> allowed r"
    using E that window_begin_le [OF a(1,2)] by auto
qed (auto simp: fixedWindow_def Let_def)

text \<open>A run from a stored state: what is still let through in each window.\<close>

definition in_window :: "policy \<Rightarrow> int \<Rightarrow> (number \<times> number) list \<Rightarrow> (number \<times> number) list" where
  "in_window p k rs = filter (\<lambda>(t, c). window_of p t = k) rs"

lemma in_window_past:
  assumes "valid_policy p" "valid_requests now rs" "k < window_of p now"
  shows "in_window p k (admitted alg p s rs) = []"
proof -
  have "window_of p t \<noteq> k" if "(t, c) \<in> set (admitted alg p s rs)" for t c
    using admitted_valid [OF assms(2) that] window_of_mono [OF assms(1), of now t] assms(3) by linarith
  then show ?thesis by (force simp: in_window_def filter_empty_conv)
qed

lemma fw_budget:
  assumes "valid_policy p" "valid_requests t rs" "fw_inv p s"
    and "fw_windowStart s = window_begin p (window_of p t)" "window_of p t \<le> k"
  shows "(if k = window_of p t then fw_count s else 0)
    + total_cost (in_window p k (admitted fixedWindow p (Some s) rs)) \<le> limit p"
  using assms(2-)
proof (induction rs arbitrary: s t)
  case Nil
  then show ?case using assms(1) by (auto simp: fw_inv_def in_window_def valid_policyD less_imp_le)
next
  case (Cons r rs)
  obtain now cost where r [simp]: "r = (now, cost)" by force
  have v: "t \<le> now" "safe_int now" "safe_int cost" "valid_requests now rs" using Cons.prems by auto
  obtain s' q where step: "fixedWindow (Some s) p now cost = (s', q)" by force
  have inv': "fw_inv p s'"
    using fw.alg_inv [OF assms(1) v(2,3) _ step] Cons.prems by simp
  note E = step [unfolded fixedWindow_exact [OF assms(1) v(2,3), of "Some s", simplified, OF Cons.prems(2)] Let_def]
  have ws: "fw_windowStart s' = window_begin p (window_of p now)" using E by auto
  have mono: "window_of p t \<le> window_of p now" using window_of_mono assms(1) v(1) by blast
  have cur: "fw_current p (Some s) now = (if window_of p now = window_of p t then fw_count s else 0)"
    using assms(1) Cons.prems(3) by (simp add: fw_current_def)
  show ?case
  proof (cases "window_of p now \<le> k")
    case True
    have IH: "(if k = window_of p now then fw_count s' else 0)
        + total_cost (in_window p k (admitted fixedWindow p (Some s') rs)) \<le> limit p"
      using Cons.IH [OF v(4) inv' ws True] .
    show ?thesis
    proof (cases "window_of p now = window_of p t")
      case True
      with IH E cur step show ?thesis by (auto simp: in_window_def split: if_splits)
    next
      case False
      with mono True have "k \<noteq> window_of p t" by linarith
      with False IH E cur step show ?thesis by (auto simp: in_window_def split: if_splits)
    qed
  next
    case False
    then have "in_window p k (admitted fixedWindow p (Some s) (r # rs)) = []"
      using v by (intro in_window_past [OF assms(1), of now]) auto
    with Cons.prems assms(1) show ?thesis by (auto simp: fw_inv_def valid_policyD less_imp_le)
  qed
qed

text \<open>
  C4: in every aligned window, the requests \<open>fixedWindow\<close> lets through cost at most \<open>limit\<close>
  together, whatever the sequence of calls.
\<close>

theorem fixedWindow_window_bound:
  assumes "valid_policy p" "valid_requests 0 rs"
  shows "total_cost (in_window p k (admitted fixedWindow p None rs)) \<le> limit p"
proof (cases rs)
  case Nil
  then show ?thesis using assms by (simp add: in_window_def valid_policyD less_imp_le)
next
  case (Cons r rs')
  obtain now cost where r: "r = (now, cost)" by force
  have v: "safe_int now" "safe_int cost" "valid_requests now rs'" "valid_requests now rs" 
    using assms Cons r by auto
  obtain s q where step: "fixedWindow None p now cost = (s, q)" by force
  note E = step [unfolded fixedWindow_exact [OF assms(1) v(1,2), of None, simplified] Let_def]
  have inv: "fw_inv p s" using fw.alg_inv [OF assms(1) v(1,2) _ step] by simp
  show ?thesis
  proof (cases "window_of p now \<le> k")
    case True
    have "(if k = window_of p now then fw_count s else 0)
        + total_cost (in_window p k (admitted fixedWindow p (Some s) rs')) \<le> limit p"
      using fw_budget [OF assms(1) v(3) inv _ True] E by auto
    then show ?thesis
      using E step Cons r by (auto simp: in_window_def fw_current_def split: if_splits)
  next
    case False
    then have "in_window p k (admitted fixedWindow p None rs) = []"
      by (intro in_window_past [OF assms(1) v(4)]) simp
    then show ?thesis using assms by (simp add: valid_policyD less_imp_le)
  qed
qed

text \<open>
  A request refused by \<open>fixedWindow\<close> is let through if it is repeated after exactly the reported
  \<open>retryAfterMs\<close> (with no other request in between), provided it fits the limit at all.
\<close>

theorem fixedWindow_retry_after:
  assumes "valid_policy p" "safe_int now" "safe_int cost" "pred_option (fw_inv p) s" "cost \<le> limit p"
    and "fixedWindow s p now cost = (s', r)" "\<not> allowed r" "safe_int (now + retryAfterMs r)"
  shows "allowed (snd (fixedWindow (Some s') p (now + retryAfterMs r) cost))"
proof -
  note E = assms(6) [unfolded fixedWindow_exact [OF assms(1-4)] Let_def]
  have later: "now + retryAfterMs r = window_begin p (window_of p now) + windowMs p"
    using E assms(7) by auto
  have "fw_inv p s'" using fw.alg_inv assms by blast
  moreover have "fw_current p (Some s') (now + retryAfterMs r) = 0"
    using E assms(1) unfolding later by (auto simp: fw_current_def window_of_next)
  ultimately show ?thesis
    using assms by (simp add: fixedWindow_exact Let_def)
qed

section \<open>Witnesses\<close>

lemma fixedWindow_window_bound_witness:
  "total_cost (in_window (\<lparr>limit = 2, windowMs = 1000, burst = None\<rparr>) 0
     (admitted fixedWindow (\<lparr>limit = 2, windowMs = 1000, burst = None\<rparr>) None [(990, 1), (995, 1), (999, 1), (1000, 1)])) \<le> 2"
  using fixedWindow_window_bound [of "\<lparr>limit = 2, windowMs = 1000, burst = None\<rparr>" "[(990, 1), (995, 1), (999, 1), (1000, 1)]" 0]
  by (simp add: valid_policy_def capacity_def)

lemma fixedWindow_retry_after_witness:
  "allowed (snd (fixedWindow (Some \<lparr>fw_windowStart = 0, fw_count = 2\<rparr>) (\<lparr>limit = 2, windowMs = 1000, burst = None\<rparr>) (990 + 10) 1))"
proof -
  let ?p = "\<lparr>limit = 2, windowMs = 1000, burst = None\<rparr>" and ?s = "\<lparr>fw_windowStart = 0, fw_count = 2\<rparr>"
  have v: "valid_policy ?p" by (simp add: valid_policy_def capacity_def)
  have inv: "pred_option (fw_inv ?p) (Some ?s)" by (simp add: fw_inv_def capacity_def)
  obtain s' r where step: "fixedWindow (Some ?s) ?p 990 1 = (s', r)" by force
  have "s' = ?s" "\<not> allowed r" "retryAfterMs r = 10"
    using step by (auto simp: fixedWindow_exact [OF v _ _ inv] fw_current_def window_begin_def
        window_of_def capacity_def Let_def)
  then show ?thesis
    using fixedWindow_retry_after [OF v _ _ inv _ step] by (simp add: capacity_def)
qed

end
