(* ===== verification/SlidingWindowCounter.thy ===== *)
theory SlidingWindowCounter
  imports FixedWindow Bucket
begin

text \<open>
  \<open>algorithms/slidingWindowCounter.ts\<close>: two aligned counters, the older one weighted by its
  overlap with the sliding window. The counters are exact, so at every admitted request the
  weighted sum of what was really let through is within the limit; the reported delay, however,
  is computed as if the estimate drained at \<open>limit / windowMs\<close>, which it does not.
\<close>

section \<open>The algorithm\<close>

record sliding_window_counter_state =
  swc_windowStart :: number
  swc_previousCount :: number
  swc_currentCount :: number

text \<open>\<open>carryForward\<close> returns (previousCount, currentCount) for the window starting at \<open>windowStart\<close>.\<close>

definition carryForward :: "sliding_window_counter_state option \<Rightarrow> number \<Rightarrow> number \<Rightarrow> number \<times> number" where
  "carryForward state windowStart w =
     (case state of
        None \<Rightarrow> (0, 0)
      | Some s \<Rightarrow>
          if swc_windowStart s = windowStart then (swc_previousCount s, swc_currentCount s)
          else if swc_windowStart s = js_sub windowStart w then (swc_currentCount s, 0)
          else (0, 0))"

definition slidingWindowCounter :: "sliding_window_counter_state algorithm" where
  "slidingWindowCounter state p now cost =
     (let windowStart = js_mul (js_floor (js_div now (windowMs p))) (windowMs p);
          (previousCount, currentCount) = carryForward state windowStart (windowMs p);
          elapsedInWindow = js_sub now windowStart;
          overlap = max 0 (js_div (js_sub (windowMs p) elapsedInWindow) (windowMs p));
          estimate = js_add (js_mul previousCount overlap) currentCount;
          is_allowed = (js_add estimate cost \<le> limit p);
          ratePerMs = js_div (limit p) (windowMs p)
      in (\<lparr>swc_windowStart = windowStart, swc_previousCount = previousCount,
           swc_currentCount = (if is_allowed then js_add currentCount cost else currentCount)\<rparr>,
          \<lparr>allowed = is_allowed, res_limit = limit p,
           remaining = max 0 (js_floor (js_sub (limit p) (if is_allowed then js_add estimate cost else estimate))),
           retryAfterMs = (if is_allowed then 0
                           else js_ceil (js_div (js_sub (js_add estimate cost) (limit p)) ratePerMs))\<rparr>))"

definition swc_inv :: "policy \<Rightarrow> sliding_window_counter_state \<Rightarrow> bool" where
  "swc_inv p s \<longleftrightarrow> safe_int (swc_previousCount s) \<and> swc_previousCount s \<le> limit p
     \<and> safe_int (swc_currentCount s) \<and> swc_currentCount s \<le> limit p"

section \<open>One call\<close>

text \<open>The two counters as of the window of \<open>now\<close>, and the weight of the older one.\<close>

definition swc_counts :: "policy \<Rightarrow> sliding_window_counter_state option \<Rightarrow> number \<Rightarrow> number \<times> number" where
  "swc_counts p state now =
     (case state of
        None \<Rightarrow> (0, 0)
      | Some s \<Rightarrow>
          if swc_windowStart s = window_begin p (window_of p now) then (swc_previousCount s, swc_currentCount s)
          else if swc_windowStart s = window_begin p (window_of p now - 1) then (swc_currentCount s, 0)
          else (0, 0))"

definition swc_overlap :: "policy \<Rightarrow> number \<Rightarrow> number" where
  "swc_overlap p now = js_div (windowMs p - (now - window_begin p (window_of p now))) (windowMs p)"

definition swc_estimate :: "policy \<Rightarrow> sliding_window_counter_state option \<Rightarrow> number \<Rightarrow> number" where
  "swc_estimate p state now =
     js_add (js_mul (fst (swc_counts p state now)) (swc_overlap p now)) (snd (swc_counts p state now))"

lemma swc_counts_safe:
  assumes "valid_policy p" "pred_option (swc_inv p) s" "swc_counts p s now = (a, b)"
  shows "safe_int a" "a \<le> limit p" "safe_int b" "b \<le> limit p"
  using assms by (auto simp: swc_counts_def swc_inv_def valid_policyD less_imp_le split: option.splits if_splits)

lemma elapsed_in_window:
  assumes "valid_policy p" "safe_int now"
  shows "safe_int (now - window_begin p (window_of p now))"
    and "now - window_begin p (window_of p now) < windowMs p"
    and "0 \<le> now - window_begin p (window_of p now)"
  using window_begin_le [OF assms] safe_int_diff assms by auto

lemma swc_overlap_range:
  assumes "valid_policy p" "safe_int now"
  shows "0 \<le> swc_overlap p now"
    and "(1 - (now - window_begin p (window_of p now)) / windowMs p) * (1 - u64) \<le> swc_overlap p now"
proof -
  let ?e = "now - window_begin p (window_of p now)"
  have w: "0 < windowMs p" using assms(1) by (simp add: valid_policyD)
  have *: "(windowMs p - ?e) / windowMs p = 1 - ?e / windowMs p" using w by (simp add: diff_divide_distrib)
  have pos: "0 \<le> (windowMs p - ?e) / windowMs p"
    using elapsed_in_window [OF assms] w by (intro divide_nonneg_nonneg) auto
  then show "0 \<le> swc_overlap p now" by (simp add: swc_overlap_def js_div_def js.rnd_nonneg)
  show "(1 - ?e / windowMs p) * (1 - u64) \<le> swc_overlap p now"
    unfolding swc_overlap_def js_div_def using round64_lower [OF pos] unfolding * .
qed

lemma slidingWindowCounter_eq:
  assumes "valid_policy p" "safe_int now"
  shows "slidingWindowCounter s p now cost =
    (let (prev, cur) = swc_counts p s now; est = swc_estimate p s now; is_allowed = (js_add est cost \<le> limit p)
     in (\<lparr>swc_windowStart = window_begin p (window_of p now), swc_previousCount = prev,
          swc_currentCount = (if is_allowed then js_add cur cost else cur)\<rparr>,
         \<lparr>allowed = is_allowed, res_limit = limit p,
          remaining = max 0 (js_floor (js_sub (limit p) (if is_allowed then js_add est cost else est))),
          retryAfterMs = (if is_allowed then 0
                          else js_ceil (js_div (js_sub (js_add est cost) (limit p)) (rate_per_ms p)))\<rparr>))"
proof -
  let ?b = "window_begin p (window_of p now)"
  have w: "safe_int (windowMs p)" using assms(1) by (simp add: valid_policyD)
  have b: "safe_int ?b" using assms by simp
  have prev: "js_sub ?b (windowMs p) = window_begin p (window_of p now - 1)"
    using w b window_begin_next [OF assms(1), of "window_of p now - 1"] by simp
  have counts: "carryForward s ?b (windowMs p) = swc_counts p s now"
    unfolding carryForward_def swc_counts_def prev ..
  have e: "js_sub now ?b = now - ?b" using assms b by simp
  have "js_sub (windowMs p) (now - ?b) = windowMs p - (now - ?b)"
    using w elapsed_in_window(1) [OF assms] by simp
  then have ov: "max 0 (js_div (js_sub (windowMs p) (now - ?b)) (windowMs p)) = swc_overlap p now"
    using swc_overlap_range(1) [OF assms] by (simp add: swc_overlap_def)
  show ?thesis
    unfolding slidingWindowCounter_def window_start_eq [OF assms] Let_def counts e ov swc_estimate_def rate_per_ms_def
    by (simp split: prod.split)
qed

text \<open>The estimate never undercounts the current window.\<close>

lemma swc_estimate_ge:
  assumes "valid_policy p" "safe_int now" "pred_option (swc_inv p) s"
  shows "0 \<le> swc_estimate p s now" "snd (swc_counts p s now) \<le> swc_estimate p s now"
proof -
  obtain a b where ab: "swc_counts p s now = (a, b)" by force
  note c = swc_counts_safe [OF assms(1,3) ab]
  have "0 \<le> js_mul a (swc_overlap p now)"
    unfolding js_mul_def using swc_overlap_range(1) [OF assms(1,2)] safe_int_nonneg [OF c(1)]
    by (intro js.rnd_nonneg mult_nonneg_nonneg)
  then have "round64 b \<le> js_add (js_mul a (swc_overlap p now)) b"
    unfolding js_add_def by (intro js.rnd_mono) simp
  then show "snd (swc_counts p s now) \<le> swc_estimate p s now" using c ab by (simp add: swc_estimate_def)
  then show "0 \<le> swc_estimate p s now" using c ab safe_int_nonneg [OF c(3)] by simp
qed

lemma slidingWindowCounter_step:
  assumes "valid_policy p" "safe_int now" "safe_int cost" "pred_option (swc_inv p) s"
    and "slidingWindowCounter s p now cost = (s', r)"
  shows "swc_inv p s'" "0 \<le> remaining r \<and> remaining r \<le> limit p" "\<not> allowed r \<Longrightarrow> 1 \<le> retryAfterMs r"
    "swc_windowStart s' = window_begin p (window_of p now)"
    "swc_previousCount s' = fst (swc_counts p s now)"
    "swc_currentCount s' = snd (swc_counts p s now) + (if allowed r then cost else 0)"
    "allowed r \<longleftrightarrow> js_add (swc_estimate p s now) cost \<le> limit p"
proof -
  obtain a b where ab: "swc_counts p s now = (a, b)" by force
  note c = swc_counts_safe [OF assms(1,4) ab]
  let ?est = "swc_estimate p s now"
  have est: "0 \<le> ?est" "b \<le> ?est" using swc_estimate_ge [OF assms(1,2,4)] ab by auto
  note E = assms(5) [unfolded slidingWindowCounter_eq [OF assms(1,2)] Let_def ab prod.case]
  have sum: "js_add b cost = b + cost" using c assms(3) by simp
  have lim: "safe_int (limit p)" "0 < limit p" using assms(1) by (simp_all add: valid_policyD)
  show al: "allowed r \<longleftrightarrow> js_add ?est cost \<le> limit p" using E by auto
  have fits: "b + cost \<le> limit p" if "js_add ?est cost \<le> limit p"
  proof -
    have "round64 (b + cost) \<le> js_add ?est cost" unfolding js_add_def using est by (intro js.rnd_mono) simp
    moreover have "round64 (b + cost) = b + cost" using sum by (simp add: js_add_def)
    ultimately show ?thesis using that by simp
  qed
  have safe: "safe_int (b + cost)" if "js_add ?est cost \<le> limit p"
    using safe_int_add_le [OF c(3) assms(3) lim(1) fits [OF that]] .
  show "swc_inv p s'" using E c fits safe by (auto simp: swc_inv_def sum split: if_splits)
  show "swc_windowStart s' = window_begin p (window_of p now)" "swc_previousCount s' = fst (swc_counts p s now)"
    "swc_currentCount s' = snd (swc_counts p s now) + (if allowed r then cost else 0)"
    using E ab sum by auto
  have "js_floor (js_sub (limit p) x) \<le> limit p" if "0 \<le> x" for x
    using js_floor_le [of "js_sub (limit p) x"] js.rnd_le [of "limit p - x" "limit p"] that lim
    by (simp add: js_sub_def)
  moreover have "0 \<le> js_add ?est cost"
    using est safe_int_nonneg [OF assms(3)] by (simp add: js_add_def js.rnd_nonneg)
  ultimately show "0 \<le> remaining r \<and> remaining r \<le> limit p"
    using E est lim by (auto split: if_splits)
  assume "\<not> allowed r"
  then have "0 < js_div (js_sub (js_add ?est cost) (limit p)) (rate_per_ms p)"
    using al rate_per_ms_pos [OF assms(1)] by (auto simp: js_div_def js_sub_def js.rnd_pos)
  from js_ceil_pos [OF this] show "1 \<le> retryAfterMs r" using E \<open>\<not> allowed r\<close> by auto
qed

interpretation swc: rate_algorithm slidingWindowCounter swc_inv limit
proof unfold_locales
  fix p now cost s s' r
  assume a: "valid_policy p" "safe_int now" "safe_int cost" "pred_option (swc_inv p) s"
    "slidingWindowCounter s p now cost = (s', r)"
  show "swc_inv p s'" using a by (rule slidingWindowCounter_step)
  show "0 \<le> remaining r \<and> remaining r \<le> limit p" using a by (rule slidingWindowCounter_step)
  show "1 \<le> retryAfterMs r" if "\<not> allowed r" using a that by (rule slidingWindowCounter_step)
qed (auto simp: slidingWindowCounter_def Let_def split: prod.splits)

section \<open>The counters are exact\<close>

text \<open>\<open>swc_tracks p rs t s\<close>: after letting \<open>rs\<close> through, the last call at \<open>t\<close>, the state counts \<open>rs\<close>.\<close>

definition swc_tracks :: "policy \<Rightarrow> (number \<times> number) list \<Rightarrow> number \<Rightarrow> sliding_window_counter_state \<Rightarrow> bool" where
  "swc_tracks p rs t s \<longleftrightarrow> swc_windowStart s = window_begin p (window_of p t)
     \<and> swc_previousCount s = total_cost (in_window p (window_of p t - 1) rs)
     \<and> swc_currentCount s = total_cost (in_window p (window_of p t) rs)"

lemma in_window_append [simp]: "in_window p k (rs @ qs) = in_window p k rs @ in_window p k qs"
  by (simp add: in_window_def)

lemma in_window_future:
  assumes "valid_policy p" "\<forall>(u, c) \<in> set rs. u \<le> t" "window_of p t < k"
  shows "in_window p k rs = []"
proof -
  have "window_of p u \<noteq> k" if "(u, c) \<in> set rs" for u c
    using assms(2,3) that window_of_mono [OF assms(1), of u t] by fastforce
  then show ?thesis by (force simp: in_window_def filter_empty_conv)
qed

lemma swc_counts_track:
  assumes "valid_policy p" "swc_tracks p rs t s" "t \<le> now" "\<forall>(u, c) \<in> set rs. u \<le> t"
  shows "swc_counts p (Some s) now =
    (total_cost (in_window p (window_of p now - 1) rs), total_cost (in_window p (window_of p now) rs))"
proof -
  have mono: "window_of p t \<le> window_of p now" using window_of_mono assms by blast
  then have "window_of p t < window_of p now \<Longrightarrow> in_window p (window_of p now) rs = []"
    and "window_of p t < window_of p now - 1 \<Longrightarrow> in_window p (window_of p now - 1) rs = []"
    using in_window_future [OF assms(1,4)] by auto
  then show ?thesis
    using assms(1,2) mono by (auto simp: swc_counts_def swc_tracks_def)
qed

lemma swc_run_tracks:
  assumes "valid_policy p" "valid_requests 0 (rs @ [(now, cost)])"
  shows "\<exists>s. final_state slidingWindowCounter p None (rs @ [(now, cost)]) = Some s
    \<and> swc_tracks p (admitted slidingWindowCounter p None (rs @ [(now, cost)])) now s"
  using assms(2)
proof (induction rs arbitrary: now cost rule: rev_induct)
  case Nil
  then have v: "safe_int now" "safe_int cost" by auto
  obtain s' q where step: "slidingWindowCounter None p now cost = (s', q)" by force
  note S = slidingWindowCounter_step [OF assms(1) v _ step, simplified]
  show ?case
    using step S by (auto simp: swc_tracks_def swc_counts_def in_window_def)
next
  case (snoc r rs)
  obtain t c where r [simp]: "r = (t, c)" by force
  let ?H = "admitted slidingWindowCounter p None (rs @ [(t, c)])"
  have v: "valid_requests 0 (rs @ [(t, c)])" "safe_int now" "safe_int cost" "t \<le> now"
    using snoc.prems valid_requests_snoc [of 0 "rs @ [r]" now cost] by auto
  obtain s where s: "final_state slidingWindowCounter p None (rs @ [(t, c)]) = Some s" "swc_tracks p ?H t s"
    using snoc.IH v(1) by blast
  have inv: "swc_inv p s" using swc.final_inv [OF assms(1) v(1), of None] s(1) by simp
  have past: "\<forall>(u, d) \<in> set ?H. u \<le> t"
    using v(1) admitted_subset [of slidingWindowCounter p None "rs @ [(t, c)]"]
    unfolding valid_requests_snoc by auto
  obtain s' q where step: "slidingWindowCounter (Some s) p now cost = (s', q)" by force
  note S = slidingWindowCounter_step [OF assms(1) v(2,3) _ step, simplified, OF inv]
  note C = swc_counts_track [OF assms(1) s(2) v(4) past]
  have "final_state slidingWindowCounter p None ((rs @ [r]) @ [(now, cost)]) = Some s'"
    using s(1) step unfolding final_state_append [of _ _ _ "rs @ [r]"] by simp
  moreover have A: "admitted slidingWindowCounter p None ((rs @ [r]) @ [(now, cost)])
      = ?H @ (if allowed q then [(now, cost)] else [])"
    using s(1) step unfolding admitted_append [of _ _ _ "rs @ [r]"] by simp
  moreover have "swc_tracks p (?H @ (if allowed q then [(now, cost)] else [])) now s'"
    unfolding swc_tracks_def using S(4-6) C by (auto simp: in_window_def)
  ultimately show ?case by auto
qed

text \<open>
  C30: whenever \<open>slidingWindowCounter\<close> lets a request through at \<open>now\<close>, what it has let through in
  the current aligned window (this request included) plus what it let through in the previous one,
  weighted by the part of it the sliding window still covers, is within the limit (up to the
  rounding of the four operations of the estimate). In particular no aligned window passes the limit.
\<close>

theorem slidingWindowCounter_weighted_bound:
  assumes "valid_policy p" "valid_requests 0 (rs @ [(now, cost)])"
    and "final_state slidingWindowCounter p None rs = s"
    and "allowed (snd (slidingWindowCounter s p now cost))"
    and "admitted slidingWindowCounter p None (rs @ [(now, cost)]) = H"
  shows "(total_cost (in_window p (window_of p now - 1) H)
      * (1 - (now - window_begin p (window_of p now)) / windowMs p)
      + total_cost (in_window p (window_of p now) H)) * (1 - 1 / 2 ^ 53) ^ 4 \<le> limit p
    \<and> total_cost (in_window p (window_of p now) H) \<le> limit p"
    (is "(?prev * ?part + ?cur) * _ \<le> _ \<and> _")
proof -
  have v: "safe_int now" "safe_int cost" "valid_requests 0 rs"
    using assms(2) by (auto simp: valid_requests_snoc)
  have inv: "pred_option (swc_inv p) s"
    using swc.final_inv [OF assms(1) v(3), of None] assms(3) by simp
  obtain s' q where step: "slidingWindowCounter s p now cost = (s', q)" by force
  note S = slidingWindowCounter_step [OF assms(1) v(1,2) inv step]
  have q: "allowed q" using assms(4) step by simp
  obtain a b where ab: "swc_counts p s now = (a, b)" by force
  note c = swc_counts_safe [OF assms(1) inv ab]
  have "final_state slidingWindowCounter p None (rs @ [(now, cost)]) = Some s'"
    using assms(3) step by (simp add: final_state_append)
  with swc_run_tracks [OF assms(1,2)] assms(5) have "swc_tracks p H now s'" by auto
  then have counts: "?prev = a" "?cur = b + cost"
    using S(5,6) q ab by (auto simp: swc_tracks_def)
  have a: "0 \<le> a" and b: "0 \<le> b" and k: "0 \<le> cost" using c v by (simp_all add: safe_int_nonneg)
  have whole: "?cur \<le> limit p" using S(1,6) q ab counts by (simp add: swc_inv_def)
  let ?d = "1 - u64" and ?ov = "swc_overlap p now"
  have d: "0 \<le> ?d" "?d \<le> 1" using u64_less_1 by auto
  have part: "0 \<le> ?part" using elapsed_in_window [OF assms(1) v(1)] assms(1) by (simp add: valid_policyD)
  have "a * (?part * ?d) * ?d \<le> a * ?ov * ?d"
    using swc_overlap_range(2) [OF assms(1) v(1)] a d by (intro mult_right_mono mult_left_mono) auto
  then have "a * ?part * ?d * ?d \<le> a * ?ov * ?d" by (simp only: mult.assoc)
  also have "\<dots> \<le> js_mul a ?ov"
    unfolding js_mul_def using a swc_overlap_range(1) [OF assms(1) v(1)] by (intro round64_lower) simp
  finally have m: "a * ?part * ?d * ?d \<le> js_mul a ?ov" .
  have dd: "b * ?d * ?d \<le> b" using b d by (simp add: mult.assoc mult_left_le mult_le_one)
  have "(a * ?part + b) * ?d * ?d * ?d = (a * ?part * ?d * ?d + b * ?d * ?d) * ?d" by (simp add: algebra_simps)
  also have "\<dots> \<le> (js_mul a ?ov + b) * ?d" using m dd d by (intro mult_right_mono add_mono) auto
  also have "\<dots> \<le> swc_estimate p s now"
    unfolding swc_estimate_def js_add_def ab using b
    by (auto intro!: round64_lower add_nonneg_nonneg order_trans [OF _ m] mult_nonneg_nonneg a part d)
  finally have est: "(a * ?part + b) * ?d * ?d * ?d \<le> swc_estimate p s now" .
  have ddd: "cost * ?d * ?d * ?d \<le> cost" using k d by (simp add: mult.assoc mult_left_le mult_le_one)
  have "(x + (y + z)) * e ^ 4 = ((x + y) * e * e * e + z * e * e * e) * e" for x y z e :: number
    by (simp add: algebra_simps power4_eq_xxxx)
  then have "(a * ?part + (b + cost)) * ?d ^ 4 = ((a * ?part + b) * ?d * ?d * ?d + cost * ?d * ?d * ?d) * ?d" .
  also have "\<dots> \<le> (swc_estimate p s now + cost) * ?d" using est ddd d by (intro mult_right_mono add_mono) auto
  also have "\<dots> \<le> js_add (swc_estimate p s now) cost"
    unfolding js_add_def using swc_estimate_ge(1) [OF assms(1) v(1) inv] k by (intro round64_lower) simp
  also have "\<dots> \<le> limit p" using S(7) q by simp
  finally have "(?prev * ?part + ?cur) * (1 - 1 / 2 ^ 53) ^ 4 \<le> limit p"
    unfolding counts u64_def .
  with whole show ?thesis by simp
qed

lemma slidingWindowCounter_weighted_bound_witness:
  "(total_cost (in_window \<lparr>limit = 2, windowMs = 1000, burst = None\<rparr> 0 [(900, 1), (1100, 1)])
      * (1 - (1100 - 1000) / 1000)
      + total_cost (in_window \<lparr>limit = 2, windowMs = 1000, burst = None\<rparr> 1 [(900, 1), (1100, 1)]))
    * (1 - 1 / 2 ^ 53) ^ 4 \<le> 2"
proof -
  let ?p = "\<lparr>limit = 2, windowMs = 1000, burst = None\<rparr>"
  have v: "valid_policy ?p" by (simp add: valid_policy_def capacity_def)
  have "js_mul 1 (js_div 900 1000) \<le> 1" by code_simp
  then have ov: "js_add (js_add (js_mul 1 (js_div 900 1000)) 0) 1 \<le> 2"
    unfolding js_add_def by (intro js.rnd_le) (simp_all add: js.rnd_le)
  have one: "slidingWindowCounter None ?p 900 1 =
      (\<lparr>swc_windowStart = 0, swc_previousCount = 0, swc_currentCount = 1\<rparr>,
       \<lparr>allowed = True, res_limit = 2, remaining = 1, retryAfterMs = 0\<rparr>)"
    by (simp add: slidingWindowCounter_eq [OF v] swc_estimate_def swc_counts_def window_of_def
        window_begin_def js_mul_def js_floor_def Let_def)
  have two: "allowed (snd (slidingWindowCounter
      (Some \<lparr>swc_windowStart = 0, swc_previousCount = 0, swc_currentCount = 1\<rparr>) ?p 1100 1))"
    using ov
    by (simp add: slidingWindowCounter_eq [OF v] swc_estimate_def swc_overlap_def swc_counts_def window_of_def
        window_begin_def Let_def)
  have "admitted slidingWindowCounter ?p None ([(900, 1)] @ [(1100, 1)]) = [(900, 1), (1100, 1)]"
    using one two by (simp add: case_prod_beta)
  from slidingWindowCounter_weighted_bound [OF v _ _ _ this] one two show ?thesis
    by (simp add: window_of_def window_begin_def)
qed

section \<open>The retry delay\<close>

abbreviation ten_per_second :: policy where
  "ten_per_second \<equiv> \<lparr>limit = 10, windowMs = 1000, burst = None\<rparr>"

abbreviation swc_at :: "number \<Rightarrow> number \<Rightarrow> number \<Rightarrow> sliding_window_counter_state" where
  "swc_at w a b \<equiv> \<lparr>swc_windowStart = w, swc_previousCount = a, swc_currentCount = b\<rparr>"

lemma ten_per_second_valid: "valid_policy ten_per_second"
  by (simp add: valid_policy_def capacity_def)

lemma ten_fill:
  assumes "safe_int n" "n \<le> 9"
  shows "fst (slidingWindowCounter (Some (swc_at 0 0 n)) ten_per_second 0 1) = swc_at 0 0 (n + 1)"
proof -
  have "safe_int (n + 1)" using assms safe_int_add_le [of n 1 10] by simp
  then show ?thesis
    using assms by (simp add: slidingWindowCounter_eq [OF ten_per_second_valid] swc_estimate_def
      swc_counts_def window_of_def window_begin_def js_mul_def js_add_def Let_def)
qed

lemma ten_filled: "final_state slidingWindowCounter ten_per_second None (replicate 10 (0, 1)) = Some (swc_at 0 0 10)"
proof -
  have "fst (slidingWindowCounter None ten_per_second 0 1) = swc_at 0 0 1"
    by (simp add: slidingWindowCounter_eq [OF ten_per_second_valid] swc_estimate_def
      swc_counts_def window_of_def window_begin_def js_mul_def js_add_def Let_def)
  then show ?thesis using ten_fill by (simp add: eval_nat_numeral)
qed

lemma ten_refused:
  assumes "now \<in> {0, 100, 900}"
  shows "slidingWindowCounter (Some (swc_at 0 0 10)) ten_per_second now 1 =
    (swc_at 0 0 10, \<lparr>allowed = False, res_limit = 10, remaining = 0, retryAfterMs = 100\<rparr>)"
proof -
  have "js_ceil (js_div 1 (rate_per_ms ten_per_second)) = 100" by code_simp
  then show ?thesis
    using assms by (auto simp add: slidingWindowCounter_eq [OF ten_per_second_valid] swc_estimate_def
      swc_counts_def window_of_def window_begin_def js_mul_def js_floor_def Let_def)
qed

lemma ten_later: "allowed (snd (slidingWindowCounter (Some (swc_at 0 0 10)) ten_per_second 1100 1))"
proof -
  have "js_mul 10 (js_div 900 1000) = 9" by code_simp
  then show ?thesis
    by (simp add: slidingWindowCounter_eq [OF ten_per_second_valid] swc_estimate_def swc_overlap_def
      swc_counts_def window_of_def window_begin_def Let_def)
qed

text \<open>
  The reported delay is not enough. With ten requests per second admitted at time 0, the
  eleventh is told to wait 100 ms; repeated 100 ms later, and even 900 ms later, it is refused again,
  since the current window's counter only leaves the estimate at the window boundary.
\<close>

theorem slidingWindowCounter_retry_too_early:
  "let p = \<lparr>limit = 10, windowMs = 1000, burst = None\<rparr>;
       s = final_state slidingWindowCounter p None (replicate 10 (0, 1));
       (s1, r1) = slidingWindowCounter s p 0 1;
       (s2, r2) = slidingWindowCounter (Some s1) p (0 + retryAfterMs r1) 1
   in \<not> allowed r1 \<and> retryAfterMs r1 = 100 \<and> \<not> allowed r2 \<and> retryAfterMs r2 = 100
      \<and> \<not> allowed (snd (slidingWindowCounter (Some s2) p 900 1))
      \<and> allowed (snd (slidingWindowCounter (Some s2) p 1100 1))"
  using ten_later by (simp add: ten_filled ten_refused)

end
