(* ===== verification/MemoryStore.thy ===== *)
theory MemoryStore
  imports TokenBucket LeakyBucket SlidingWindowLog SlidingWindowCounter
begin

text \<open>
  The in-process rate limit store (\<open>ratelimit/stores/memoryStore.ts\<close>): one algorithm state per key.
  The locale \<open>rate_store\<close> is the \<open>Store\<close> interface with what its clients rely on: a key's state
  is private to it, and every decision is well formed. From that, calls on other keys never
  change the decisions of a key, whatever the interleaving.
\<close>

section \<open>The Store interface\<close>

text \<open>The calls a store receives; the time is the value of \<open>Date.now()\<close> in \<open>consume\<close>.\<close>

datatype store_call =
    Consume (call_key: string) policy number number
  | Reset (call_key: string)
  | Close

text \<open>What a sequence of calls answers: each \<open>consume\<close> with its key, time, cost and result.\<close>

type_synonym answer = "string \<times> number \<times> number \<times> rate_result"

fun store_run ::
  "('m \<Rightarrow> string \<Rightarrow> policy \<Rightarrow> number \<Rightarrow> number \<Rightarrow> 'm \<times> rate_result) \<Rightarrow> ('m \<Rightarrow> string \<Rightarrow> 'm) \<Rightarrow> ('m \<Rightarrow> 'm)
    \<Rightarrow> 'm \<Rightarrow> store_call list \<Rightarrow> answer list" where
  "store_run con res clo m [] = []"
| "store_run con res clo m (Consume k p now cost # cs) =
     (let (m', r) = con m k p now cost in (k, now, cost, r) # store_run con res clo m' cs)"
| "store_run con res clo m (Reset k # cs) = store_run con res clo (res m k) cs"
| "store_run con res clo m (Close # cs) = store_run con res clo (clo m) cs"

definition answers_for :: "string \<Rightarrow> answer list \<Rightarrow> answer list" where
  "answers_for k as = filter (\<lambda>a. fst a = k) as"

text \<open>The calls that concern a key; \<open>close\<close> concerns every key.\<close>

definition calls_for :: "string \<Rightarrow> store_call list \<Rightarrow> store_call list" where
  "calls_for k cs = filter (\<lambda>c. c = Close \<or> call_key c = k) cs"

lemma answers_for_Cons [simp]:
  "answers_for k ((k', a) # as) = (if k' = k then (k', a) # answers_for k as else answers_for k as)"
  by (simp add: answers_for_def)

lemma calls_for_Cons [simp]:
  "calls_for k (Consume k' p now cost # cs) = (if k' = k then Consume k' p now cost # calls_for k cs else calls_for k cs)"
  "calls_for k (Reset k' # cs) = (if k' = k then Reset k' # calls_for k cs else calls_for k cs)"
  "calls_for k (Close # cs) = Close # calls_for k cs"
  "calls_for k [] = []"
  by (simp_all add: calls_for_def)

text \<open>\<open>view m k\<close> is the part of the store that belongs to \<open>k\<close>; \<open>ok p (view m k)\<close> its invariant.\<close>

locale rate_store =
  fixes con :: "'m \<Rightarrow> string \<Rightarrow> policy \<Rightarrow> number \<Rightarrow> number \<Rightarrow> 'm \<times> rate_result"
    and res :: "'m \<Rightarrow> string \<Rightarrow> 'm"
    and clo :: "'m \<Rightarrow> 'm"
    and view :: "'m \<Rightarrow> string \<Rightarrow> 'v"
    and ok :: "policy \<Rightarrow> 'v \<Rightarrow> bool"
    and cap :: "'v \<Rightarrow> policy \<Rightarrow> number"
  assumes consume_other: "k' \<noteq> k \<Longrightarrow> view (fst (con m k p now cost)) k' = view m k'"
    and consume_local: "view m k = view m' k
      \<Longrightarrow> snd (con m k p now cost) = snd (con m' k p now cost)
        \<and> view (fst (con m k p now cost)) k = view (fst (con m' k p now cost)) k"
    and reset_other: "k' \<noteq> k \<Longrightarrow> view (res m k) k' = view m k'"
    and reset_local: "view m k = view m' k \<Longrightarrow> view (res m k) k = view (res m' k) k"
    and close_local: "view m k = view m' k \<Longrightarrow> view (clo m) k = view (clo m') k"
    and reset_ok: "ok p (view m k) \<Longrightarrow> ok p (view (res m k) k)"
    and close_ok: "ok p (view m k) \<Longrightarrow> ok p (view (clo m) k)"
    and consume_ok: "\<lbrakk>valid_policy p; safe_int now; safe_int cost; ok p (view m k)\<rbrakk>
      \<Longrightarrow> ok p (view (fst (con m k p now cost)) k)
        \<and> good_result (cap (view m k)) p (snd (con m k p now cost))"
begin

text \<open>A key's answers are those of its own calls alone.\<close>

lemma isolation:
  "view m k = view m' k
    \<Longrightarrow> answers_for k (store_run con res clo m cs) = store_run con res clo m' (calls_for k cs)"
proof (induction cs arbitrary: m m')
  case (Cons c cs)
  show ?case
  proof (cases c)
    case (Consume k' p now cost)
    show ?thesis
    proof (cases "k' = k")
      case True
      then show ?thesis
        using Consume Cons.IH [of "fst (con m k p now cost)" "fst (con m' k p now cost)"]
          consume_local [OF Cons.prems, of p now cost]
        by (auto simp: case_prod_beta)
    next
      case False
      then show ?thesis
        using Consume Cons.IH [of "fst (con m k' p now cost)" m'] consume_other [of k k' m p now cost] Cons.prems
        by (auto simp: case_prod_beta)
    qed
  next
    case (Reset k')
    then show ?thesis
      using Cons.IH [OF reset_local [OF Cons.prems]] Cons.IH [of "res m k'" m']
        reset_other [of k k' m] Cons.prems by auto
  next
    case Close
    then show ?thesis using Cons.IH [OF close_local [OF Cons.prems]] by simp
  qed
qed (simp add: answers_for_def)

end

section \<open>fromAlgorithm\<close>

text \<open>The closure's \<open>Map\<close> is a map from keys to states.\<close>

type_synonym 's states = "string \<rightharpoonup> 's"

definition from_consume :: "'s algorithm \<Rightarrow> 's states \<Rightarrow> string \<Rightarrow> policy \<Rightarrow> number \<Rightarrow> number \<Rightarrow> 's states \<times> rate_result" where
  "from_consume alg st key p now cost = (let (nextState, result) = alg (st key) p now cost in (st(key \<mapsto> nextState), result))"

definition from_reset :: "'s states \<Rightarrow> string \<Rightarrow> 's states" where
  "from_reset st key = st(key := None)"

definition from_close :: "'s states \<Rightarrow> 's states" where
  "from_close st = Map.empty"

context rate_algorithm
begin

lemma from_store:
  "rate_store (from_consume alg) from_reset from_close (\<lambda>st k. st k) (\<lambda>p. pred_option (inv p)) (\<lambda>_. cap)"
proof unfold_locales
  fix p now cost k and st :: "'s states"
  assume "valid_policy p" "safe_int now" "safe_int cost" "pred_option (inv p) (st k)"
  then show "pred_option (inv p) (fst (from_consume alg st k p now cost) k)
      \<and> good_result cap p (snd (from_consume alg st k p now cost))"
    using alg_good [of p now cost "st k"] by (cases "alg (st k) p now cost") (simp add: from_consume_def)
qed (auto simp: from_consume_def from_reset_def from_close_def case_prod_beta)

end

section \<open>createMemoryStore\<close>

datatype algorithm_name = FixedWindow | TokenBucket | LeakyBucket | SlidingWindowLog | SlidingWindowCounter

text \<open>A store is the algorithm it was created for with the states of that algorithm.\<close>

datatype memory_store =
    FwStore "fixed_window_state states"
  | TbStore "token_bucket_state states"
  | LbStore "leaky_bucket_state states"
  | SwlStore "sliding_window_log_state states"
  | SwcStore "sliding_window_counter_state states"

fun createMemoryStore :: "algorithm_name \<Rightarrow> memory_store" where
  "createMemoryStore FixedWindow = FwStore Map.empty"
| "createMemoryStore TokenBucket = TbStore Map.empty"
| "createMemoryStore LeakyBucket = LbStore Map.empty"
| "createMemoryStore SlidingWindowLog = SwlStore Map.empty"
| "createMemoryStore SlidingWindowCounter = SwcStore Map.empty"

fun ms_consume :: "memory_store \<Rightarrow> string \<Rightarrow> policy \<Rightarrow> number \<Rightarrow> number \<Rightarrow> memory_store \<times> rate_result" where
  "ms_consume (FwStore st) k p now cost = map_prod FwStore id (from_consume fixedWindow st k p now cost)"
| "ms_consume (TbStore st) k p now cost = map_prod TbStore id (from_consume tokenBucket st k p now cost)"
| "ms_consume (LbStore st) k p now cost = map_prod LbStore id (from_consume leakyBucket st k p now cost)"
| "ms_consume (SwlStore st) k p now cost = map_prod SwlStore id (from_consume slidingWindowLog st k p now cost)"
| "ms_consume (SwcStore st) k p now cost = map_prod SwcStore id (from_consume slidingWindowCounter st k p now cost)"

fun ms_reset :: "memory_store \<Rightarrow> string \<Rightarrow> memory_store" where
  "ms_reset (FwStore st) k = FwStore (from_reset st k)"
| "ms_reset (TbStore st) k = TbStore (from_reset st k)"
| "ms_reset (LbStore st) k = LbStore (from_reset st k)"
| "ms_reset (SwlStore st) k = SwlStore (from_reset st k)"
| "ms_reset (SwcStore st) k = SwcStore (from_reset st k)"

fun ms_close :: "memory_store \<Rightarrow> memory_store" where
  "ms_close (FwStore st) = FwStore (from_close st)"
| "ms_close (TbStore st) = TbStore (from_close st)"
| "ms_close (LbStore st) = LbStore (from_close st)"
| "ms_close (SwlStore st) = SwlStore (from_close st)"
| "ms_close (SwcStore st) = SwcStore (from_close st)"

section \<open>The store is a family of independent algorithms\<close>

datatype key_state =
    FwState "fixed_window_state option"
  | TbState "token_bucket_state option"
  | LbState "leaky_bucket_state option"
  | SwlState "sliding_window_log_state option"
  | SwcState "sliding_window_counter_state option"

fun ms_view :: "memory_store \<Rightarrow> string \<Rightarrow> key_state" where
  "ms_view (FwStore st) k = FwState (st k)"
| "ms_view (TbStore st) k = TbState (st k)"
| "ms_view (LbStore st) k = LbState (st k)"
| "ms_view (SwlStore st) k = SwlState (st k)"
| "ms_view (SwcStore st) k = SwcState (st k)"

fun ms_ok :: "policy \<Rightarrow> key_state \<Rightarrow> bool" where
  "ms_ok p (FwState s) = pred_option (fw_inv p) s"
| "ms_ok p (TbState s) = pred_option (tb_inv p) s"
| "ms_ok p (LbState s) = pred_option (lb_inv p) s"
| "ms_ok p (SwlState s) = pred_option (swl_inv p) s"
| "ms_ok p (SwcState s) = pred_option (swc_inv p) s"

text \<open>The buckets may report up to their capacity, the windows up to the limit.\<close>

fun ms_cap :: "key_state \<Rightarrow> policy \<Rightarrow> number" where
  "ms_cap (TbState s) = capacity"
| "ms_cap (LbState s) = capacity"
| "ms_cap _ = limit"

lemmas from_stores = fw.from_store tb.from_store lb.from_store swl.from_store swc.from_store

interpretation ms: rate_store ms_consume ms_reset ms_close ms_view ms_ok ms_cap
proof unfold_locales
  fix k k' m m' p now cost
  show "k' \<noteq> k \<Longrightarrow> ms_view (fst (ms_consume m k p now cost)) k' = ms_view m k'"
    by (cases m) (simp_all add: from_consume_def case_prod_beta)
  show "k' \<noteq> k \<Longrightarrow> ms_view (ms_reset m k) k' = ms_view m k'"
    by (cases m) (simp_all add: from_reset_def)
  show "ms_view m k = ms_view m' k \<Longrightarrow> ms_view (ms_reset m k) k = ms_view (ms_reset m' k) k"
    by (cases m; cases m') (simp_all add: from_reset_def)
  show "ms_view m k = ms_view m' k \<Longrightarrow> ms_view (ms_close m) k = ms_view (ms_close m') k"
    by (cases m; cases m') (simp_all add: from_close_def)
  show "ms_ok p (ms_view m k) \<Longrightarrow> ms_ok p (ms_view (ms_reset m k) k)"
    by (cases m) (simp_all add: from_reset_def)
  show "ms_ok p (ms_view m k) \<Longrightarrow> ms_ok p (ms_view (ms_close m) k)"
    by (cases m) (simp_all add: from_close_def)
  show "ms_view m k = ms_view m' k \<Longrightarrow> snd (ms_consume m k p now cost) = snd (ms_consume m' k p now cost)
      \<and> ms_view (fst (ms_consume m k p now cost)) k = ms_view (fst (ms_consume m' k p now cost)) k"
    by (cases m; cases m') (simp_all add: from_consume_def case_prod_beta)
  assume "valid_policy p" "safe_int now" "safe_int cost" "ms_ok p (ms_view m k)"
  then show "ms_ok p (ms_view (fst (ms_consume m k p now cost)) k)
      \<and> good_result (ms_cap (ms_view m k)) p (snd (ms_consume m k p now cost))"
    using from_stores [THEN rate_store.consume_ok] by (cases m) auto
qed

text \<open>
  C15: in the in-process store a key's decisions depend on that key's own calls only: whatever calls
  on other keys are interleaved, its answers are those of the same store receiving its calls alone.
\<close>

theorem memoryStore_isolation:
  "answers_for k (store_run ms_consume ms_reset ms_close m cs)
     = store_run ms_consume ms_reset ms_close m (calls_for k cs)"
  by (rule ms.isolation) simp

subsection \<open>A key's answers are a run of the algorithm\<close>

definition granted :: "answer list \<Rightarrow> (number \<times> number) list" where
  "granted as = map (\<lambda>(k, now, cost, r). (now, cost)) (filter (\<lambda>(k, now, cost, r). allowed r) as)"

text \<open>The requests of a key under one policy, as calls, between the calls of all the others.\<close>

definition requests_of :: "string \<Rightarrow> policy \<Rightarrow> store_call list \<Rightarrow> (number \<times> number) list \<Rightarrow> bool" where
  "requests_of k p cs rs \<longleftrightarrow> calls_for k cs = map (\<lambda>(now, cost). Consume k p now cost) rs"

lemma from_run_admitted:
  "granted (store_run (from_consume alg) from_reset from_close st (map (\<lambda>(now, cost). Consume k p now cost) rs))
     = admitted alg p (st k) rs"
proof (induction rs arbitrary: st)
  case (Cons r rs)
  obtain now cost where r: "r = (now, cost)" by force
  show ?case
    using Cons.IH by (auto simp: r granted_def from_consume_def case_prod_beta)
qed (simp add: granted_def)

lemma ms_run_swl:
  "store_run ms_consume ms_reset ms_close (SwlStore st) cs
     = store_run (from_consume slidingWindowLog) from_reset from_close st cs"
proof (induction cs arbitrary: st)
  case (Cons c cs)
  then show ?case by (cases c) (auto simp: case_prod_beta)
qed simp

text \<open>
  A sliding-window-log store, shared by any number of clients whose calls interleave at will,
  lets each key through for at most \<open>limit\<close> in every interval of \<open>windowMs\<close> milliseconds.
\<close>

theorem memoryStore_key_limit:
  assumes "valid_policy p" "valid_requests 0 rs" "requests_of k p cs rs"
  shows "total_cost (sliding p t (granted (answers_for k
      (store_run ms_consume ms_reset ms_close (createMemoryStore SlidingWindowLog) cs)))) \<le> limit p"
  unfolding ms.isolation [OF refl] assms(3) [unfolded requests_of_def]
  using slidingWindowLog_budget [OF assms(1,2)] by (simp add: ms_run_swl from_run_admitted)

section \<open>Witness\<close>

lemma memoryStore_key_limit_witness:
  "total_cost (sliding \<lparr>limit = 2, windowMs = 1000, burst = None\<rparr> 1500 (granted (answers_for ''a''
      (store_run ms_consume ms_reset ms_close (createMemoryStore SlidingWindowLog)
        [Consume ''a'' \<lparr>limit = 2, windowMs = 1000, burst = None\<rparr> 990 1,
         Consume ''b'' \<lparr>limit = 5, windowMs = 10, burst = None\<rparr> 991 1, Reset ''b'',
         Consume ''a'' \<lparr>limit = 2, windowMs = 1000, burst = None\<rparr> 1000 2])))) \<le> 2"
  using memoryStore_key_limit [of "\<lparr>limit = 2, windowMs = 1000, burst = None\<rparr>" "[(990, 1), (1000, 2)]" "''a''"
      "[Consume ''a'' \<lparr>limit = 2, windowMs = 1000, burst = None\<rparr> 990 1,
        Consume ''b'' \<lparr>limit = 5, windowMs = 10, burst = None\<rparr> 991 1, Reset ''b'',
        Consume ''a'' \<lparr>limit = 2, windowMs = 1000, burst = None\<rparr> 1000 2]" 1500]
  by (simp add: valid_policy_def capacity_def requests_of_def del: store_run.simps)

end
