(* ===== verification/CircuitBreaker.thy ===== *)
theory CircuitBreaker
  imports JsNumber
begin

text \<open>
  \<open>breaker/circuitBreaker.ts\<close>: the circuit breaker and its life among its callers. The methods are
  functions on the object's fields; \<open>cb_step\<close> is the system of one breaker and its callers, each of
  which asks, and then reports a success, a failure, or (as callers in the gateway can) nothing.
  Failure counts and the threshold, positive integers in the source, are natural numbers.
\<close>

section \<open>The class\<close>

datatype circuit_state = Closed | Open | HalfOpen

record breaker_options =
  failureThreshold :: nat
  resetTimeoutMs :: number

record breaker =
  cb_state :: circuit_state
  consecutiveFailures :: nat
  openedAt :: number
  halfOpenTrialInFlight :: bool

definition new_breaker :: breaker where
  "new_breaker = \<lparr>cb_state = Closed, consecutiveFailures = 0, openedAt = 0, halfOpenTrialInFlight = False\<rparr>"

definition getState :: "breaker \<Rightarrow> circuit_state" where
  "getState b = cb_state b"

text \<open>\<open>canRequest\<close> returns its answer and changes the object.\<close>

definition canRequest :: "breaker_options \<Rightarrow> number \<Rightarrow> breaker \<Rightarrow> bool \<times> breaker" where
  "canRequest opts now b =
     (let half_open = (\<lambda>b. if halfOpenTrialInFlight b then (False, b)
                            else (True, b\<lparr>halfOpenTrialInFlight := True\<rparr>))
      in case cb_state b of
           Closed \<Rightarrow> (True, b)
         | Open \<Rightarrow> if js_sub now (openedAt b) < resetTimeoutMs opts then (False, b)
                   else half_open (b\<lparr>cb_state := HalfOpen, halfOpenTrialInFlight := False\<rparr>)
         | HalfOpen \<Rightarrow> half_open b)"

definition recordSuccess :: "breaker \<Rightarrow> breaker" where
  "recordSuccess b = b\<lparr>cb_state := Closed, consecutiveFailures := 0, halfOpenTrialInFlight := False\<rparr>"

definition recordFailure :: "breaker_options \<Rightarrow> number \<Rightarrow> breaker \<Rightarrow> breaker" where
  "recordFailure opts now b =
     (let b = b\<lparr>halfOpenTrialInFlight := False\<rparr>
      in if cb_state b = HalfOpen then b\<lparr>cb_state := Open, openedAt := now\<rparr>
         else (let b = b\<lparr>consecutiveFailures := consecutiveFailures b + 1\<rparr>
               in if failureThreshold opts \<le> consecutiveFailures b then b\<lparr>cb_state := Open, openedAt := now\<rparr>
                  else b))"

lemmas cb_ops = new_breaker_def getState_def canRequest_def recordSuccess_def recordFailure_def Let_def

section \<open>The breaker and its callers\<close>

text \<open>
  \<open>pending\<close> counts the granted requests that have not ended yet. \<open>Lost\<close> is a request that ends
  without a report.
\<close>

datatype cb_event = Granted number | Refused number | Succeeded number | Failed number | Lost number

record cb_system =
  cb :: breaker
  pending :: nat
  clock :: number

inductive cb_step :: "breaker_options \<Rightarrow> cb_system \<Rightarrow> cb_event \<Rightarrow> cb_system \<Rightarrow> bool" for opts where
  ask: "\<lbrakk>clock s \<le> now; safe_int now; canRequest opts now (cb s) = (ok, b)\<rbrakk>
    \<Longrightarrow> cb_step opts s (if ok then Granted now else Refused now)
          (s\<lparr>cb := b, pending := (if ok then Suc (pending s) else pending s), clock := now\<rparr>)"
| success: "\<lbrakk>clock s \<le> now; safe_int now; pending s = Suc n\<rbrakk>
    \<Longrightarrow> cb_step opts s (Succeeded now) (s\<lparr>cb := recordSuccess (cb s), pending := n, clock := now\<rparr>)"
| failure: "\<lbrakk>clock s \<le> now; safe_int now; pending s = Suc n\<rbrakk>
    \<Longrightarrow> cb_step opts s (Failed now) (s\<lparr>cb := recordFailure opts now (cb s), pending := n, clock := now\<rparr>)"
| lost: "\<lbrakk>clock s \<le> now; safe_int now; pending s = Suc n\<rbrakk>
    \<Longrightarrow> cb_step opts s (Lost now) (s\<lparr>pending := n, clock := now\<rparr>)"

inductive cb_run :: "breaker_options \<Rightarrow> cb_system \<Rightarrow> cb_event list \<Rightarrow> cb_system \<Rightarrow> bool" for opts where
  stop: "cb_run opts s [] s"
| step: "cb_step opts s e s' \<Longrightarrow> cb_run opts s' es s'' \<Longrightarrow> cb_run opts s (e # es) s''"

inductive_cases cb_stepE: "cb_step opts s e s'"
inductive_cases cb_run_NilE [elim!]: "cb_run opts s [] s'"
inductive_cases cb_run_ConsE: "cb_run opts s (e # es) s'"

definition cb_initial :: cb_system where
  "cb_initial = \<lparr>cb = new_breaker, pending = 0, clock = 0\<rparr>"

definition valid_options :: "breaker_options \<Rightarrow> bool" where
  "valid_options opts \<longleftrightarrow> 1 \<le> failureThreshold opts \<and> safe_int (resetTimeoutMs opts)"

text \<open>The invariant of the object.\<close>

definition cb_inv :: "breaker_options \<Rightarrow> cb_system \<Rightarrow> bool" where
  "cb_inv opts s \<longleftrightarrow>
     (cb_state (cb s) = Closed \<longleftrightarrow> consecutiveFailures (cb s) < failureThreshold opts)
     \<and> (halfOpenTrialInFlight (cb s) \<longrightarrow> cb_state (cb s) = HalfOpen)
     \<and> safe_int (openedAt (cb s)) \<and> safe_int (clock s) \<and> openedAt (cb s) \<le> clock s"

lemma cb_inv_initial [wf_intro]: "valid_options opts \<Longrightarrow> cb_inv opts cb_initial"
  by (simp add: cb_inv_def cb_initial_def new_breaker_def valid_options_def)

lemma cb_inv_step [wf_intro]:
  "cb_step opts s e s' \<Longrightarrow> valid_options opts \<Longrightarrow> cb_inv opts s \<Longrightarrow> cb_inv opts s'"
  by (induction rule: cb_step.induct)
    (auto simp: cb_inv_def cb_ops valid_options_def split: circuit_state.splits if_splits)

lemma cb_inv_run:
  "cb_run opts s es s' \<Longrightarrow> valid_options opts \<Longrightarrow> cb_inv opts s \<Longrightarrow> cb_inv opts s'"
  by (induction rule: cb_run.induct) (auto intro: cb_inv_step)

text \<open>
  In every reachable state the circuit is closed exactly while fewer than \<open>failureThreshold\<close>
  consecutive failures are on record, and a half-open trial is marked only in the half-open state.
\<close>

theorem breaker_invariant:
  assumes "valid_options opts" "cb_run opts cb_initial es s"
  shows "(getState (cb s) = Closed \<longleftrightarrow> consecutiveFailures (cb s) < failureThreshold opts)
    \<and> (halfOpenTrialInFlight (cb s) \<longrightarrow> getState (cb s) = HalfOpen) \<and> openedAt (cb s) \<le> clock s"
  using cb_inv_run [OF assms(2,1) cb_inv_initial] assms(1) by (simp add: cb_inv_def getState_def)

section \<open>Opening\<close>

text \<open>
  While the circuit is open nothing passes before \<open>resetTimeoutMs\<close> have gone by, and the request
  at or after that moment does: the only one, since it turns the circuit half-open.
\<close>

theorem breaker_open_window:
  assumes "valid_options opts" "cb_run opts cb_initial es s" "getState (cb s) = Open"
    and "clock s \<le> now" "safe_int now"
  shows "canRequest opts now (cb s) =
    (if now < openedAt (cb s) + resetTimeoutMs opts then (False, cb s)
     else (True, (cb s)\<lparr>cb_state := HalfOpen, halfOpenTrialInFlight := True\<rparr>))"
  using cb_inv_run [OF assms(2,1) cb_inv_initial] assms
  by (auto simp: cb_inv_def cb_ops algebra_simps)

text \<open>Failures reported in a row.\<close>

fun record_failures :: "breaker_options \<Rightarrow> number list \<Rightarrow> breaker \<Rightarrow> breaker" where
  "record_failures opts [] b = b"
| "record_failures opts (t # ts) b = record_failures opts ts (recordFailure opts t b)"

lemma record_failures_below:
  "cb_state b = Closed \<Longrightarrow> consecutiveFailures b + length ts < failureThreshold opts
    \<Longrightarrow> record_failures opts ts b
      = (if ts = [] then b
         else b\<lparr>consecutiveFailures := consecutiveFailures b + length ts, halfOpenTrialInFlight := False\<rparr>)"
  by (induction ts arbitrary: b) (auto simp: recordFailure_def Let_def)

lemma record_failures_append:
  "record_failures opts (ts @ us) b = record_failures opts us (record_failures opts ts b)"
  by (induction ts arbitrary: b) auto

text \<open>
  After a success, \<open>failureThreshold\<close> failures in a row open the circuit, at the time of the
  last one, and fewer leave it closed.
\<close>

theorem breaker_trips:
  assumes "1 \<le> failureThreshold opts" "length ts < failureThreshold opts"
  shows "getState (record_failures opts ts (recordSuccess b)) = Closed
    \<and> (length ts + 1 = failureThreshold opts \<longrightarrow>
        getState (record_failures opts (ts @ [t]) (recordSuccess b)) = Open
        \<and> openedAt (record_failures opts (ts @ [t]) (recordSuccess b)) = t)"
  using record_failures_below [of "recordSuccess b" ts opts] assms
  by (auto simp: record_failures_append getState_def recordSuccess_def recordFailure_def Let_def)

section \<open>The half-open trial\<close>

text \<open>The answers to a series of questions with no report in between.\<close>

fun ask_all :: "breaker_options \<Rightarrow> number list \<Rightarrow> breaker \<Rightarrow> bool list" where
  "ask_all opts [] b = []"
| "ask_all opts (t # ts) b = (let (ok, b') = canRequest opts t b in ok # ask_all opts ts b')"

lemma ask_all_trial:
  "cb_state b = HalfOpen \<Longrightarrow> halfOpenTrialInFlight b \<Longrightarrow> ask_all opts ts b = replicate (length ts) False"
  by (induction ts) (auto simp: canRequest_def)

lemma ask_all_half_open:
  "cb_state b = HalfOpen \<Longrightarrow> length (filter id (ask_all opts ts b)) \<le> 1"
  by (cases ts) (auto simp: canRequest_def ask_all_trial)

text \<open>
  Once the circuit has left the closed state, at most one of any number of requests passes until
  some caller reports its outcome: the half-open trial is single.
\<close>

theorem breaker_single_trial:
  assumes "getState b \<noteq> Closed"
  shows "length (filter id (ask_all opts ts b)) \<le> 1"
  using assms
proof (induction ts)
  case (Cons t ts)
  show ?case
  proof (cases "cb_state b")
    case Open
    then show ?thesis
      using Cons by (auto simp: canRequest_def ask_all_trial Let_def)
  next
    case HalfOpen
    then show ?thesis by (rule ask_all_half_open)
  qed (use Cons.prems in \<open>simp add: getState_def\<close>)
qed simp

text \<open>Without lost requests the mark always has an owner.\<close>

definition trial_owned :: "cb_system \<Rightarrow> bool" where
  "trial_owned s \<longleftrightarrow> (halfOpenTrialInFlight (cb s) \<longrightarrow> 0 < pending s)"

lemma trial_owned_step:
  "cb_step opts s e s' \<Longrightarrow> (\<And>t. e \<noteq> Lost t) \<Longrightarrow> trial_owned s \<Longrightarrow> trial_owned s'"
  by (induction rule: cb_step.induct)
    (auto simp: trial_owned_def cb_ops split: circuit_state.splits if_splits)

lemma trial_owned_run:
  "cb_run opts s es s' \<Longrightarrow> (\<forall>t. Lost t \<notin> set es) \<Longrightarrow> trial_owned s \<Longrightarrow> trial_owned s'"
  by (induction rule: cb_run.induct) (auto dest: trial_owned_step)

text \<open>
  C7: as long as every granted request is reported, the breaker is never stuck: whatever its state,
  either a request is granted once \<open>resetTimeoutMs\<close> have passed, or a granted request is still
  pending whose success will close the circuit.
\<close>

theorem breaker_recovers:
  assumes "valid_options opts" "cb_run opts cb_initial es s" "\<forall>t. Lost t \<notin> set es"
    and "safe_int now" "clock s + resetTimeoutMs opts \<le> now"
  shows "fst (canRequest opts now (cb s)) \<or> 0 < pending s \<and> getState (recordSuccess (cb s)) = Closed"
proof -
  have inv: "cb_inv opts s" using cb_inv_run [OF assms(2,1) cb_inv_initial] assms(1) by simp
  have own: "trial_owned s"
    by (rule trial_owned_run [OF assms(2,3)]) (simp add: trial_owned_def cb_initial_def new_breaker_def)
  show ?thesis
    using inv own assms(4,5) by (auto simp: cb_inv_def trial_owned_def cb_ops split: circuit_state.splits)
qed

text \<open>
  One half-open trial that ends without a report wedges the breaker: with no other request
  pending, from then on every request is refused, at every time, for ever.
\<close>

theorem breaker_lost_trial_wedges:
  assumes "getState (cb s) = HalfOpen" "halfOpenTrialInFlight (cb s)" "pending s = 1"
    and "cb_step opts s (Lost t) s'" "cb_run opts s' es s''"
  shows "cb s'' = cb s \<and> pending s'' = 0 \<and> (\<forall>now. \<not> fst (canRequest opts now (cb s'')))"
proof -
  have start: "cb s' = cb s" "pending s' = 0" using assms(3,4) by (auto elim!: cb_stepE split: if_splits)
  from assms(5) have "cb s'' = cb s' \<and> pending s'' = 0"
    using start assms(1,2)
  proof (induction rule: cb_run.induct)
    case (step s1 e s2 es s3)
    have "cb s2 = cb s1 \<and> pending s2 = 0"
      using step.hyps(1) step.prems
      by (auto elim!: cb_stepE simp: canRequest_def getState_def Let_def split: if_splits)
    with step show ?case by simp
  qed simp
  with start assms(1,2) show ?thesis by (auto simp: canRequest_def getState_def)
qed

text \<open>
  A failed trial reopens the circuit for another \<open>resetTimeoutMs\<close> but, against the class comment
  (which has the counter reset), keeps the failure count.
\<close>

theorem breaker_failed_trial:
  "getState b = HalfOpen \<Longrightarrow> recordFailure opts now b =
     b\<lparr>cb_state := Open, openedAt := now, halfOpenTrialInFlight := False\<rparr>
     \<and> consecutiveFailures (recordFailure opts now b) = consecutiveFailures b"
  by (simp add: recordFailure_def getState_def Let_def)

section \<open>Witnesses\<close>

text \<open>A breaker that trips at once, opened at 5, tried again at 20.\<close>

abbreviation hasty :: breaker_options where
  "hasty \<equiv> \<lparr>failureThreshold = 1, resetTimeoutMs = 10\<rparr>"

abbreviation cb_at :: "circuit_state \<Rightarrow> nat \<Rightarrow> number \<Rightarrow> bool \<Rightarrow> nat \<Rightarrow> number \<Rightarrow> cb_system" where
  "cb_at st n opened trial k t \<equiv>
    \<lparr>cb = \<lparr>cb_state = st, consecutiveFailures = n, openedAt = opened, halfOpenTrialInFlight = trial\<rparr>,
     pending = k, clock = t\<rparr>"

lemma hasty_valid: "valid_options hasty"
  by (simp add: valid_options_def)

lemma hasty_opens: "cb_run hasty cb_initial [Granted 1, Failed 5] (cb_at Open 1 5 False 0 5)"
proof (rule cb_run.intros)
  show "cb_step hasty cb_initial (Granted 1) (cb_at Closed 0 0 False 1 1)"
    using cb_step.ask [of cb_initial 1 hasty True new_breaker]
    by (simp add: cb_initial_def new_breaker_def canRequest_def)
  have "cb_step hasty (cb_at Closed 0 0 False 1 1) (Failed 5) (cb_at Open 1 5 False 0 5)"
    using cb_step.failure [of "cb_at Closed 0 0 False 1 1" 5 0 hasty] by (simp add: recordFailure_def)
  then show "cb_run hasty (cb_at Closed 0 0 False 1 1) [Failed 5] (cb_at Open 1 5 False 0 5)"
    by (rule cb_run.step [OF _ cb_run.stop])
qed

lemma hasty_lost: "cb_step hasty (cb_at HalfOpen 1 5 True 1 20) (Lost 21) (cb_at HalfOpen 1 5 True 0 21)"
  using cb_step.lost [of "cb_at HalfOpen 1 5 True 1 20" 21 0 hasty] by simp

lemma hasty_refuses:
  "cb_run hasty (cb_at HalfOpen 1 5 True 0 21) [Refused 5000] (cb_at HalfOpen 1 5 True 0 5000)"
proof (rule cb_run.step [OF _ cb_run.stop])
  show "cb_step hasty (cb_at HalfOpen 1 5 True 0 21) (Refused 5000) (cb_at HalfOpen 1 5 True 0 5000)"
    using cb_step.ask [of "cb_at HalfOpen 1 5 True 0 21" 5000 hasty False "cb (cb_at HalfOpen 1 5 True 0 21)"]
    by (simp add: canRequest_def)
qed

lemma breaker_invariant_witness:
  "(getState (cb (cb_at Open 1 5 False 0 5)) = Closed) = (consecutiveFailures (cb (cb_at Open 1 5 False 0 5)) < 1)"
  using breaker_invariant [OF hasty_valid hasty_opens] by simp

lemma breaker_open_window_witness:
  "canRequest hasty 14 (cb (cb_at Open 1 5 False 0 5)) = (False, cb (cb_at Open 1 5 False 0 5))
    \<and> fst (canRequest hasty 15 (cb (cb_at Open 1 5 False 0 5)))"
  using breaker_open_window [OF hasty_valid hasty_opens, of 14] breaker_open_window [OF hasty_valid hasty_opens, of 15]
  by (simp add: getState_def)

lemma breaker_trips_witness:
  "getState (record_failures \<lparr>failureThreshold = 2, resetTimeoutMs = 10\<rparr> [7] (recordSuccess new_breaker)) = Closed
    \<and> getState (record_failures \<lparr>failureThreshold = 2, resetTimeoutMs = 10\<rparr> ([7] @ [8]) (recordSuccess new_breaker)) = Open"
  using breaker_trips [of "\<lparr>failureThreshold = 2, resetTimeoutMs = 10\<rparr>" "[7]" new_breaker 8] by simp

lemma breaker_single_trial_witness:
  "length (filter id (ask_all hasty [14, 15, 16] (cb (cb_at Open 1 5 False 0 5)))) \<le> 1"
  by (rule breaker_single_trial) (simp add: getState_def)

lemma breaker_recovers_witness:
  "fst (canRequest hasty 15 (cb (cb_at Open 1 5 False 0 5)))
    \<or> 0 < pending (cb_at Open 1 5 False 0 5) \<and> getState (recordSuccess (cb (cb_at Open 1 5 False 0 5))) = Closed"
  using breaker_recovers [OF hasty_valid hasty_opens, of 15] by simp

lemma breaker_lost_trial_wedges_witness:
  "\<forall>now. \<not> fst (canRequest hasty now (cb (cb_at HalfOpen 1 5 True 0 5000)))"
  using breaker_lost_trial_wedges [OF _ _ _ hasty_lost hasty_refuses] by (simp add: getState_def)

lemma breaker_failed_trial_witness:
  "recordFailure hasty 30 (cb (cb_at HalfOpen 1 5 True 1 20)) = cb (cb_at Open 1 30 False 1 20)"
  using breaker_failed_trial [of "cb (cb_at HalfOpen 1 5 True 1 20)" hasty 30] by (simp add: getState_def)

end
