(* ===== verification/Config.thy ===== *)
theory Config
  imports MemoryStore CircuitBreaker
begin

text \<open>
  The configuration (\<open>gateway/src/config/schema.ts\<close>): the types the schema infers, one record per
  object, and its refinements (\<open>positive\<close>, \<open>min(1)\<close>, the \<open>superRefine\<close> of the rate limit) as
  predicates. Records of header names to values are association lists, in insertion order.
  Defaults are the schema library's work and are applied before these values exist.
\<close>

section \<open>Types\<close>

record health_check =
  hc_path :: string
  hc_intervalMs :: number

record upstream =
  targets :: "string list"
  healthCheck :: "health_check option"
  timeoutMs :: number
  bodyTimeoutMs :: "number option"

datatype auth_config =
    AuthNone
  | AuthApiKey
  | AuthJwt (jwksUrl: string) (issuer: "string option") (audience: "string option")
      (tenantClaim: "string option") (scopeClaim: "string option")

datatype key_kind = KeyTenant | KeyIp | KeyGlobal

record global_rate_limit =
  g_limit :: number
  g_windowSec :: number
  g_burst :: "number option"

record rate_limit_config =
  rl_algorithm :: algorithm_name
  rl_keyBy :: "key_kind list"
  rl_limit :: number
  rl_windowSec :: number
  rl_burst :: "number option"
  rl_global :: "global_rate_limit option"

record cache_config =
  cache_enabled :: bool
  cache_ttlSec :: number
  cache_varyBy :: "string list"

record transform_request =
  setHeaders :: "(string \<times> string) list"
  removeHeaders :: "string list"

record cors_config =
  cors_enabled :: bool
  cors_origins :: "string list"
  cors_methods :: "string list"
  cors_allowedHeaders :: "string list"
  cors_exposedHeaders :: "string list"
  cors_credentials :: bool
  cors_maxAgeSec :: number

record message_rate_limit =
  m_algorithm :: algorithm_name
  m_limit :: number
  m_windowSec :: number
  m_burst :: "number option"

record websocket_config =
  ws_enabled :: bool
  ws_origins :: "string list option"
  ws_queryToken :: bool
  ws_maxConnections :: nat
  ws_maxMessageBytes :: number
  ws_maxBufferedBytes :: number
  ws_pingIntervalMs :: number
  ws_idleTimeoutMs :: number
  ws_messageRateLimit :: "message_rate_limit option"

record retry_config =
  attempts :: nat
  backoffMs :: number

record route_match =
  m_path :: string
  m_methods :: "string list option"
  m_host :: "string option"

text \<open>\<open>rewrite?.stripPrefix\<close> and \<open>transform?.request\<close> are single options.\<close>

record route_config =
  route_id :: string
  match :: route_match
  stripPrefix :: "string option"
  upstream :: upstream
  auth :: auth_config
  rateLimit :: "rate_limit_config option"
  cache :: "cache_config option"
  cors :: "cors_config option"
  websocket :: "websocket_config option"
  transform_req :: "transform_request option"
  retry :: "retry_config option"
  circuitBreaker :: "breaker_options option"

text \<open>A route with nothing configured, and a gateway around it.\<close>

definition bare_route :: "string \<Rightarrow> route_config" where
  "bare_route rid = \<lparr>route_id = rid, match = \<lparr>m_path = ''/*'', m_methods = None, m_host = None\<rparr>, stripPrefix = None,
     upstream = \<lparr>targets = [''http://u''], healthCheck = None, timeoutMs = 5000, bodyTimeoutMs = None\<rparr>,
     auth = AuthNone, rateLimit = None, cache = None, cors = None, websocket = None, transform_req = None,
     retry = None, circuitBreaker = None\<rparr>"

lemma bare_route_simps [simp]:
  "route_id (bare_route rid) = rid" "auth (bare_route rid) = AuthNone" "rateLimit (bare_route rid) = None"
  "cache (bare_route rid) = None" "cors (bare_route rid) = None" "websocket (bare_route rid) = None"
  "retry (bare_route rid) = None" "circuitBreaker (bare_route rid) = None" "stripPrefix (bare_route rid) = None"
  "transform_req (bare_route rid) = None" "m_host (match (bare_route rid)) = None"
  "m_methods (match (bare_route rid)) = None" "m_path (match (bare_route rid)) = ''/*''"
  "targets (upstream (bare_route rid)) = [''http://u'']"
  by (simp_all add: bare_route_def)

record server_config =
  port :: nat
  trustProxyHops :: nat
  maxBodyBytes :: number
  maxHeaderCount :: nat
  requestTimeoutMs :: number
  watch :: bool

record redis_config =
  redis_url :: string
  failOpen :: bool

record gateway_config =
  server :: server_config
  redis :: "redis_config option"
  db_url :: "string option"
  admin_token :: "string option"
  routes :: "route_config list"

section \<open>Refinements\<close>

text \<open>\<open>z.number().int().positive()\<close>, and the range in which a product with 1000 stays exact.\<close>

definition int_positive :: "number \<Rightarrow> bool" where
  "int_positive x \<longleftrightarrow> of_int \<lfloor>x\<rfloor> = x \<and> 0 < x"

definition in_range :: "number \<Rightarrow> bool" where
  "in_range x \<longleftrightarrow> x \<le> 2 ^ 42"

text \<open>The \<open>superRefine\<close> of \<open>rateLimitSchema\<close>: a global key needs a global policy.\<close>

definition global_refined :: "rate_limit_config \<Rightarrow> bool" where
  "global_refined c \<longleftrightarrow> \<not> (KeyGlobal \<in> set (rl_keyBy c) \<and> rl_global c = None)"

definition rate_limit_accepted :: "rate_limit_config \<Rightarrow> bool" where
  "rate_limit_accepted c \<longleftrightarrow> rl_keyBy c \<noteq> [] \<and> int_positive (rl_limit c) \<and> int_positive (rl_windowSec c)
     \<and> pred_option int_positive (rl_burst c)
     \<and> pred_option (\<lambda>g. int_positive (g_limit g) \<and> int_positive (g_windowSec g) \<and> pred_option int_positive (g_burst g))
         (rl_global c)
     \<and> global_refined c"

definition retry_accepted :: "retry_config \<Rightarrow> bool" where
  "retry_accepted c \<longleftrightarrow> int_positive (backoffMs c)"

definition breaker_accepted :: "breaker_options \<Rightarrow> bool" where
  "breaker_accepted c \<longleftrightarrow> 1 \<le> failureThreshold c \<and> int_positive (resetTimeoutMs c)"

definition upstream_accepted :: "upstream \<Rightarrow> bool" where
  "upstream_accepted u \<longleftrightarrow> targets u \<noteq> []
     \<and> pred_option (\<lambda>h. int_positive (hc_intervalMs h)) (healthCheck u) \<and> int_positive (timeoutMs u)
     \<and> pred_option (\<lambda>b. of_int \<lfloor>b\<rfloor> = b \<and> 0 \<le> b) (bodyTimeoutMs u)"

lemma int_positive_safe: "int_positive x \<Longrightarrow> in_range x \<Longrightarrow> safe_int x \<and> 1 \<le> x"
proof -
  assume a: "int_positive x" "in_range x"
  then have x: "of_int \<lfloor>x\<rfloor> = x" "0 < x" "x \<le> 2 ^ 42" by (auto simp: int_positive_def in_range_def)
  then have "0 < \<lfloor>x\<rfloor>" by (metis of_int_0_less_iff)
  with x show ?thesis by (simp add: safe_int_def)
qed

lemma int_positive_ms:
  assumes "int_positive x" "in_range x"
  shows "js_mul x 1000 = x * 1000 \<and> safe_int (x * 1000) \<and> 1 \<le> x * 1000"
proof -
  have x: "of_int \<lfloor>x\<rfloor> = x" "0 < x" "x \<le> 2 ^ 42" using assms by (auto simp: int_positive_def in_range_def)
  obtain n where n: "x = of_int n" by (metis x(1))
  have le: "x * 1000 \<le> 2 ^ 52" using x(3) by simp
  have "x * 1000 = of_int (n * 1000)" by (simp add: n)
  then have "of_int \<lfloor>x * 1000\<rfloor> = x * 1000" by (simp only: floor_of_int)
  then have "safe_int (x * 1000)" using le x(2) unfolding safe_int_def by simp
  then show ?thesis using int_positive_safe [OF assms] by (simp add: js_mul_def)
qed

end
