(* ===== verification/Http.thy ===== *)
theory Http
  imports Prelude JsNumber "HOL-Library.AList"
begin

text \<open>
  What the hooks see of a request and do to a reply. Header maps are association lists with
  lower-case names, as Node delivers them; \<open>reply.header\<close> replaces the header of the same name.
  Of an error body the model keeps the \<open>error\<close> code and \<open>retryAfter\<close>, not the message text.
\<close>

datatype header_value = HText string | HNum number | HTexts "string list"

type_synonym headers = "(string \<times> header_value) list"

record request =
  req_method :: string
  req_url :: string
  req_headers :: headers
  req_ip :: string
  req_hostname :: string

record response =
  status :: nat
  error_code :: string
  retryAfter :: "number option"

record reply =
  r_headers :: headers
  r_sent :: "response option"

definition set_header :: "string \<Rightarrow> header_value \<Rightarrow> reply \<Rightarrow> reply" where
  "set_header name v r = r\<lparr>r_headers := AList.update (js_lower name) v (r_headers r)\<rparr>"

definition send_error :: "nat \<Rightarrow> string \<Rightarrow> reply \<Rightarrow> reply" where
  "send_error st e r = r\<lparr>r_sent := Some \<lparr>status = st, error_code = e, retryAfter = None\<rparr>\<rparr>"

definition reply_header :: "string \<Rightarrow> reply \<Rightarrow> header_value option" where
  "reply_header name r = map_of (r_headers r) (js_lower name)"

lemma reply_header_set [simp]:
  "reply_header n (set_header m v r) = (if js_lower n = js_lower m then Some v else reply_header n r)"
  by (simp add: reply_header_def set_header_def update_conv')

lemma sent_simps [simp]:
  "r_sent (set_header n v r) = r_sent r"
  "r_headers (send_error st e r) = r_headers r"
  "r_sent (send_error st e r) = Some \<lparr>status = st, error_code = e, retryAfter = None\<rparr>"
  "reply_header n (send_error st e r) = reply_header n r"
  "reply_header n (r\<lparr>r_sent := x\<rparr>) = reply_header n r"
  "reply_header n \<lparr>r_headers = [], r_sent = x\<rparr> = None"
  by (simp_all add: set_header_def send_error_def reply_header_def)

text \<open>Header names are compared in lower case.\<close>

lemma header_names [simp]:
  "js_lower ''Access-Control-Allow-Origin'' = ''access-control-allow-origin''"
  "js_lower ''Vary'' = ''vary''"
  "js_lower ''Access-Control-Allow-Credentials'' = ''access-control-allow-credentials''"
  "js_lower ''Access-Control-Expose-Headers'' = ''access-control-expose-headers''"
  "js_lower ''Access-Control-Allow-Methods'' = ''access-control-allow-methods''"
  "js_lower ''Access-Control-Allow-Headers'' = ''access-control-allow-headers''"
  "js_lower ''Access-Control-Max-Age'' = ''access-control-max-age''"
  "js_lower ''X-Cache'' = ''x-cache''"
  "js_lower ''Retry-After'' = ''retry-after''"
  "js_lower ''RateLimit-Limit'' = ''ratelimit-limit''"
  "js_lower ''RateLimit-Remaining'' = ''ratelimit-remaining''"
  "js_lower ''RateLimit-Reset'' = ''ratelimit-reset''"
  "js_lower ''access-control-allow-origin'' = ''access-control-allow-origin''"
  "js_lower ''vary'' = ''vary''"
  "js_lower ''access-control-allow-credentials'' = ''access-control-allow-credentials''"
  "js_lower ''access-control-expose-headers'' = ''access-control-expose-headers''"
  "js_lower ''access-control-allow-methods'' = ''access-control-allow-methods''"
  "js_lower ''access-control-allow-headers'' = ''access-control-allow-headers''"
  "js_lower ''access-control-max-age'' = ''access-control-max-age''"
  "js_lower ''x-cache'' = ''x-cache''"
  "js_lower ''retry-after'' = ''retry-after''"
  "js_lower ''ratelimit-limit'' = ''ratelimit-limit''"
  "js_lower ''ratelimit-remaining'' = ''ratelimit-remaining''"
  "js_lower ''ratelimit-reset'' = ''ratelimit-reset''"
  "js_lower ''x-request-id'' = ''x-request-id''"
  "js_lower ''content-type'' = ''content-type''"
  "js_lower ''www-authenticate'' = ''www-authenticate''"
  by code_simp+

section \<open>http/bearerToken.ts\<close>

definition extractBearerToken :: "string option \<Rightarrow> string option" where
  "extractBearerToken header =
     (case header of
        None \<Rightarrow> None
      | Some h \<Rightarrow>
          if h = [] then None
          else (case js_split (CHR '' '') h of
                  scheme # token # _ \<Rightarrow> if js_lower scheme = ''bearer'' \<and> token \<noteq> [] then Some token else None
                | _ \<Rightarrow> None))"

lemma extractBearerToken_Some:
  assumes "extractBearerToken (Some h) = Some token"
  shows "token \<noteq> [] \<and> CHR '' '' \<notin> set token
    \<and> (\<exists>scheme rest. js_split (CHR '' '') h = scheme # token # rest \<and> js_lower scheme = ''bearer'')"
proof -
  obtain scheme rest where s: "js_split (CHR '' '') h = scheme # token # rest"
    and t: "js_lower scheme = ''bearer''" "token \<noteq> []"
    using assms by (auto simp: extractBearerToken_def split: if_splits list.splits)
  then have "CHR '' '' \<notin> set token" using js_split_pieces [of token "CHR '' ''" h] by simp
  with s t show ?thesis by blast
qed

lemma extractBearerToken_roundtrip:
  assumes "js_lower scheme = ''bearer''" "CHR '' '' \<notin> set scheme" "token \<noteq> []" "CHR '' '' \<notin> set token"
  shows "extractBearerToken (Some (scheme @ '' '' @ token)) = Some token"
proof -
  have "js_split (CHR '' '') (scheme @ '' '' @ token) = [scheme, token]" using assms by simp
  moreover have "scheme @ '' '' @ token \<noteq> []" by simp
  ultimately show ?thesis using assms unfolding extractBearerToken_def option.case by simp
qed

end
