(* ===== verification/RateLimitHook.thy ===== *)
theory RateLimitHook
  imports Config Http
begin

text \<open>
  \<open>gateway/src/ratelimit/index.ts\<close>: the hook that charges a request to every key its route asks for.
  The store is a parameter with the \<open>rate_store\<close> contract; a call may also fail (\<open>Inl\<close>), as an
  unreachable Redis does. The keys are charged in one turn, at one \<open>Date.now()\<close>.
\<close>

section \<open>The hook\<close>

record tenant_plan =
  plan_limit :: number
  plan_windowSec :: number
  plan_burst :: number

record rate_context =
  ctx_tenantId :: "string option"
  ctx_plan :: "tenant_plan option"

definition routePolicy :: "rate_limit_config \<Rightarrow> policy" where
  "routePolicy c = \<lparr>limit = rl_limit c, windowMs = js_mul (rl_windowSec c) 1000, burst = rl_burst c\<rparr>"

definition globalPolicy :: "global_rate_limit \<Rightarrow> policy" where
  "globalPolicy g = \<lparr>limit = g_limit g, windowMs = js_mul (g_windowSec g) 1000, burst = g_burst g\<rparr>"

definition planPolicy :: "tenant_plan \<Rightarrow> policy" where
  "planPolicy pl = \<lparr>limit = plan_limit pl, windowMs = js_mul (plan_windowSec pl) 1000, burst = Some (plan_burst pl)\<rparr>"

text \<open>
  The checks of the loop over \<open>keyBy\<close>. \<open>None\<close> is the exception that \<open>config.global!\<close> would raise
  without a global policy.
\<close>

fun rate_checks :: "string \<Rightarrow> rate_limit_config \<Rightarrow> string \<Rightarrow> rate_context \<Rightarrow> key_kind list \<Rightarrow> (string \<times> policy) list option" where
  "rate_checks rid c ip ctx [] = Some []"
| "rate_checks rid c ip ctx (KeyIp # ks) =
     map_option ((#) (''ip:'' @ ip @ '':route:'' @ rid, routePolicy c)) (rate_checks rid c ip ctx ks)"
| "rate_checks rid c ip ctx (KeyGlobal # ks) =
     (case rl_global c of
        None \<Rightarrow> None
      | Some g \<Rightarrow> map_option ((#) (''global:route:'' @ rid, globalPolicy g)) (rate_checks rid c ip ctx ks))"
| "rate_checks rid c ip ctx (KeyTenant # ks) =
     (case ctx_tenantId ctx of
        Some t \<Rightarrow>
          if t = [] then rate_checks rid c ip ctx ks
          else map_option ((#) (''tenant:'' @ t @ '':route:'' @ rid,
                 (case ctx_plan ctx of Some pl \<Rightarrow> planPolicy pl | None \<Rightarrow> routePolicy c)))
               (rate_checks rid c ip ctx ks)
      | None \<Rightarrow> rate_checks rid c ip ctx ks)"

text \<open>\<open>Promise.all(checks.map(check => store.consume(...)))\<close>: every key is charged, whatever happens.\<close>

type_synonym 'm consume = "'m \<Rightarrow> string \<Rightarrow> policy \<Rightarrow> number \<Rightarrow> number \<Rightarrow> 'm \<times> (unit + rate_result)"

fun consume_all :: "'m consume \<Rightarrow> number \<Rightarrow> 'm \<Rightarrow> (string \<times> policy) list \<Rightarrow> 'm \<times> (unit + rate_result) list" where
  "consume_all con now m [] = (m, [])"
| "consume_all con now m ((key, p) # checks) =
     (let (m', r) = con m key p now 1; (m'', rs) = consume_all con now m' checks in (m'', r # rs))"

text \<open>
  \<open>Some True\<close>: the request may go on; \<open>Some False\<close>: the reply has been sent; \<open>None\<close>: an exception.
\<close>

definition enforceRateLimit ::
  "'m consume \<Rightarrow> number \<Rightarrow> 'm \<Rightarrow> route_config \<Rightarrow> string \<Rightarrow> rate_context \<Rightarrow> bool \<Rightarrow> reply \<Rightarrow> 'm \<times> reply \<times> bool option" where
  "enforceRateLimit con now m route ip ctx fail_open reply =
     (case rateLimit route of
        None \<Rightarrow> (m, reply, Some True)
      | Some c \<Rightarrow>
          (case rate_checks (route_id route) c ip ctx (rl_keyBy c) of
             None \<Rightarrow> (m, reply, None)
           | Some [] \<Rightarrow> (m, reply, Some True)
           | Some checks \<Rightarrow>
               (let (m', outcomes) = consume_all con now m checks in
                if list_ex isl outcomes
                then (if fail_open then (m', reply, Some True)
                      else (m', send_error 503 ''rate_limit_unavailable'' reply, Some False))
                else
                  (let results = map projr outcomes;
                       rejected = js_find (\<lambda>r. \<not> allowed r) results;
                       reported = (case rejected of Some r \<Rightarrow> r | None \<Rightarrow> hd results);
                       reply = set_header ''RateLimit-Limit'' (HNum (res_limit reported)) reply;
                       reply = set_header ''RateLimit-Remaining'' (HNum (remaining reported)) reply;
                       reply = set_header ''RateLimit-Reset'' (HNum (js_ceil (js_div (retryAfterMs reported) 1000))) reply
                   in case rejected of
                        Some r \<Rightarrow>
                          (let retryAfterSec = js_ceil (js_div (retryAfterMs r) 1000);
                               reply = set_header ''Retry-After'' (HNum retryAfterSec) reply
                           in (m', reply\<lparr>r_sent := Some \<lparr>status = 429, error_code = ''rate_limit_exceeded'',
                                     retryAfter = Some retryAfterSec\<rparr>\<rparr>, Some False))
                      | None \<Rightarrow> (m', reply, Some True)))))"

section \<open>The keys\<close>

text \<open>Which client a key stands for.\<close>

fun key_subject :: "string \<Rightarrow> rate_context \<Rightarrow> key_kind \<Rightarrow> string" where
  "key_subject ip ctx KeyIp = ip"
| "key_subject ip ctx KeyGlobal = []"
| "key_subject ip ctx KeyTenant = (case ctx_tenantId ctx of Some t \<Rightarrow> t | None \<Rightarrow> [])"

fun rate_key :: "string \<Rightarrow> string \<Rightarrow> rate_context \<Rightarrow> key_kind \<Rightarrow> string" where
  "rate_key rid ip ctx KeyIp = ''ip:'' @ ip @ '':route:'' @ rid"
| "rate_key rid ip ctx KeyGlobal = ''global:route:'' @ rid"
| "rate_key rid ip ctx KeyTenant = ''tenant:'' @ (case ctx_tenantId ctx of Some t \<Rightarrow> t | None \<Rightarrow> []) @ '':route:'' @ rid"

lemma rate_key_inj:
  "rate_key rid ip ctx k = rate_key rid ip' ctx' k' \<longleftrightarrow> k = k' \<and> key_subject ip ctx k = key_subject ip' ctx' k'"
  by (cases k; cases k') auto

text \<open>
  Two requests are charged to the same key of a route exactly when the strategy is the same and
  so is the client it names: no address, tenant or route id can be chosen to hit another's quota.
\<close>

theorem rate_key_separates:
  "rate_key rid ip ctx k = rate_key rid ip' ctx' k' \<longleftrightarrow> k = k' \<and> key_subject ip ctx k = key_subject ip' ctx' k'"
  by (rule rate_key_inj)

fun rate_policy :: "rate_limit_config \<Rightarrow> rate_context \<Rightarrow> key_kind \<Rightarrow> policy" where
  "rate_policy c ctx KeyIp = routePolicy c"
| "rate_policy c ctx KeyGlobal = globalPolicy (the (rl_global c))"
| "rate_policy c ctx KeyTenant = (case ctx_plan ctx of Some pl \<Rightarrow> planPolicy pl | None \<Rightarrow> routePolicy c)"

lemma rate_checks_map:
  "rate_checks rid c ip ctx ks = Some checks \<Longrightarrow>
     checks = map (\<lambda>k. (rate_key rid ip ctx k, rate_policy c ctx k))
       (filter (\<lambda>k. k = KeyTenant \<longrightarrow> key_subject ip ctx k \<noteq> []) ks)"
proof (induction ks arbitrary: checks)
  case (Cons k ks)
  then show ?case by (cases k) (auto split: option.splits if_splits)
qed auto

lemma rate_checks_keys:
  "rate_checks rid c ip ctx ks = Some checks \<Longrightarrow> (key, p) \<in> set checks \<Longrightarrow>
     \<exists>k \<in> set ks. key = rate_key rid ip ctx k \<and> p = rate_policy c ctx k"
  by (drule rate_checks_map) auto

text \<open>A key fixes its policy: the checks of one request never charge one key under two policies.\<close>

lemma rate_checks_functional:
  assumes "rate_checks rid c ip ctx ks = Some checks" "(key, p) \<in> set checks" "(key, q) \<in> set checks"
  shows "p = q"
  using rate_checks_keys [OF assms(1,2)] rate_checks_keys [OF assms(1,3)]
  by (auto simp: rate_key_inj simp del: rate_key.simps)

section \<open>Valid policies\<close>

definition ranged :: "number \<Rightarrow> number \<Rightarrow> number option \<Rightarrow> bool" where
  "ranged l win b \<longleftrightarrow> int_positive l \<and> in_range l \<and> int_positive win \<and> in_range win
     \<and> pred_option (\<lambda>x. int_positive x \<and> in_range x) b"

definition ranged_config :: "rate_limit_config \<Rightarrow> bool" where
  "ranged_config c \<longleftrightarrow> ranged (rl_limit c) (rl_windowSec c) (rl_burst c)
     \<and> pred_option (\<lambda>g. ranged (g_limit g) (g_windowSec g) (g_burst g)) (rl_global c)"

definition ranged_context :: "rate_context \<Rightarrow> bool" where
  "ranged_context ctx \<longleftrightarrow>
     pred_option (\<lambda>pl. ranged (plan_limit pl) (plan_windowSec pl) (Some (plan_burst pl))) (ctx_plan ctx)"

lemma ranged_policy [wf_intro]:
  "ranged l win b \<Longrightarrow> valid_policy \<lparr>limit = l, windowMs = js_mul win 1000, burst = b\<rparr>"
  using int_positive_safe int_positive_ms
  by (cases b) (auto simp: valid_policy_def capacity_def ranged_def)

lemma rate_checks_valid:
  assumes "rate_checks rid c ip ctx ks = Some checks" "ranged_config c" "ranged_context ctx"
    and "rate_limit_accepted c" "set ks \<subseteq> set (rl_keyBy c)" "(key, p) \<in> set checks"
  shows "valid_policy p"
proof -
  obtain k where k: "k \<in> set ks" and p: "p = rate_policy c ctx k"
    using rate_checks_keys [OF assms(1,6)] by blast
  have route: "valid_policy (routePolicy c)"
    using assms(2) unfolding routePolicy_def by (intro ranged_policy) (simp add: ranged_config_def)
  show ?thesis
  proof (cases k)
    case KeyGlobal
    then obtain g where g: "rl_global c = Some g"
      using k assms(4,5) by (auto simp: rate_limit_accepted_def global_refined_def)
    then have "valid_policy (globalPolicy g)"
      using assms(2) unfolding globalPolicy_def by (intro ranged_policy) (simp add: ranged_config_def)
    with g KeyGlobal p show ?thesis by simp
  next
    case KeyTenant
    show ?thesis
    proof (cases "ctx_plan ctx")
      case (Some pl)
      then have "valid_policy (planPolicy pl)"
        using assms(3) unfolding planPolicy_def by (intro ranged_policy) (simp add: ranged_context_def)
      with Some KeyTenant p show ?thesis by simp
    qed (use KeyTenant p route in simp)
  qed (use p route in simp)
qed

text \<open>The refinement of the schema rules the exception out.\<close>

lemma rate_checks_total:
  assumes "rate_limit_accepted c" "set ks \<subseteq> set (rl_keyBy c)"
  shows "\<exists>checks. rate_checks rid c ip ctx ks = Some checks"
  using assms(2)
proof (induction ks)
  case (Cons k ks)
  then obtain checks where "rate_checks rid c ip ctx ks = Some checks" by auto
  with Cons.prems assms(1) show ?case
    by (cases k) (auto simp: rate_limit_accepted_def global_refined_def split: option.splits)
qed simp

section \<open>The decisions\<close>

text \<open>A store that never fails, as the in-process one.\<close>

definition live :: "('m \<Rightarrow> string \<Rightarrow> policy \<Rightarrow> number \<Rightarrow> number \<Rightarrow> 'm \<times> rate_result) \<Rightarrow> 'm consume" where
  "live con m k p now cost = map_prod id Inr (con m k p now cost)"

fun consume_live ::
  "('m \<Rightarrow> string \<Rightarrow> policy \<Rightarrow> number \<Rightarrow> number \<Rightarrow> 'm \<times> rate_result) \<Rightarrow> number \<Rightarrow> 'm \<Rightarrow> (string \<times> policy) list
    \<Rightarrow> 'm \<times> rate_result list" where
  "consume_live con now m [] = (m, [])"
| "consume_live con now m ((key, p) # checks) =
     (let (m', r) = con m key p now 1; (m'', rs) = consume_live con now m' checks in (m'', r # rs))"

lemma consume_all_live: "consume_all (live con) now m checks = map_prod id (map Inr) (consume_live con now m checks)"
  by (induction checks arbitrary: m) (auto simp: live_def case_prod_beta)

lemma consume_live_results: "length (snd (consume_live con now m checks)) = length checks"
  by (induction checks arbitrary: m) (auto simp: case_prod_beta)

context rate_store
begin

lemma consume_live_good:
  assumes "safe_int now" "\<forall>(k, p) \<in> set checks. valid_policy p \<and> ok p (view m k)"
    and "\<forall>(k, p) \<in> set checks. \<forall>(k', p') \<in> set checks. k = k' \<longrightarrow> p = p'"
  shows "\<forall>r \<in> set (snd (consume_live con now m checks)). \<exists>c p. good_result c p r"
  using assms(2,3)
proof (induction checks arbitrary: m)
  case (Cons check checks)
  obtain k p where check [simp]: "check = (k, p)" by force
  let ?m = "fst (con m k p now 1)"
  have first: "ok p (view ?m k)" "good_result (cap (view m k)) p (snd (con m k p now 1))"
    using consume_ok [OF _ assms(1) safe_int_1] Cons.prems by auto
  have "ok p' (view ?m k')" if "(k', p') \<in> set checks" for k' p'
    using that Cons.prems first(1) consume_other [of k' k m p now 1] by (cases "k' = k") fastforce+
  with Cons.prems have "\<forall>r \<in> set (snd (consume_live con now ?m checks)). \<exists>c p. good_result c p r"
    by (intro Cons.IH) auto
  with first(2) show ?case by (auto simp: Let_def case_prod_beta)
qed simp

end

text \<open>The hook over a live store, as one decision.\<close>

lemma enforceRateLimit_live:
  assumes "rateLimit route = Some c" "rate_checks (route_id route) c ip ctx (rl_keyBy c) = Some checks" "checks \<noteq> []"
    and "consume_live con now m checks = (m', rs)"
    and "enforceRateLimit (live con) now m route ip ctx fo reply = (m'', reply', verdict)"
  shows "m'' = m'"
    and "js_find (\<lambda>r. \<not> allowed r) rs = None \<Longrightarrow> verdict = Some True \<and> r_sent reply' = r_sent reply"
    and "js_find (\<lambda>r. \<not> allowed r) rs = Some r \<Longrightarrow> verdict = Some False
      \<and> r_sent reply' = Some \<lparr>status = 429, error_code = ''rate_limit_exceeded'',
          retryAfter = Some (js_ceil (js_div (retryAfterMs r) 1000))\<rparr>
      \<and> reply_header ''Retry-After'' reply' = Some (HNum (js_ceil (js_div (retryAfterMs r) 1000)))"
proof -
  have isl: "list_ex isl (map Inr rs) = False" and projr: "map projr (map Inr rs) = rs"
    by (induction rs) auto
  have all: "consume_all (live con) now m checks = (m', map Inr rs)"
    using assms(4) by (simp add: consume_all_live)
  obtain ch chs where ch: "checks = ch # chs" using assms(3) by (cases checks) auto
  then have E: "enforceRateLimit (live con) now m route ip ctx fo reply =
    (let rejected = js_find (\<lambda>r. \<not> allowed r) rs; reported = (case rejected of Some r \<Rightarrow> r | None \<Rightarrow> hd rs);
         reply = set_header ''RateLimit-Limit'' (HNum (res_limit reported)) reply;
         reply = set_header ''RateLimit-Remaining'' (HNum (remaining reported)) reply;
         reply = set_header ''RateLimit-Reset'' (HNum (js_ceil (js_div (retryAfterMs reported) 1000))) reply
     in case rejected of
          Some r \<Rightarrow>
            (let retryAfterSec = js_ceil (js_div (retryAfterMs r) 1000);
                 reply = set_header ''Retry-After'' (HNum retryAfterSec) reply
             in (m', reply\<lparr>r_sent := Some \<lparr>status = 429, error_code = ''rate_limit_exceeded'',
                       retryAfter = Some retryAfterSec\<rparr>\<rparr>, Some False))
        | None \<Rightarrow> (m', reply, Some True))"
    unfolding enforceRateLimit_def assms(1) option.case assms(2) all [unfolded ch] ch list.case
    by (simp only: Let_def prod.case isl projr if_False)
  show "m'' = m'" using assms(5) unfolding E by (auto simp: Let_def split: option.splits)
  show "js_find (\<lambda>r. \<not> allowed r) rs = None \<Longrightarrow> verdict = Some True \<and> r_sent reply' = r_sent reply"
  proof -
    assume none: "js_find (\<lambda>r. \<not> allowed r) rs = None"
    show ?thesis using assms(5) unfolding E Let_def none option.case by auto
  qed
  show "js_find (\<lambda>r. \<not> allowed r) rs = Some r \<Longrightarrow> verdict = Some False
      \<and> r_sent reply' = Some \<lparr>status = 429, error_code = ''rate_limit_exceeded'',
          retryAfter = Some (js_ceil (js_div (retryAfterMs r) 1000))\<rparr>
      \<and> reply_header ''Retry-After'' reply' = Some (HNum (js_ceil (js_div (retryAfterMs r) 1000)))"
    using assms(5) unfolding E by (auto simp: Let_def)
qed

text \<open>
  C8: on a live in-process store, for an accepted configuration, the hook never raises: the request
  goes on, with no response written, exactly when every key has quota left, and otherwise the client
  gets a 429 whose \<open>Retry-After\<close> header and body agree on a delay of at least one second.
\<close>

theorem enforceRateLimit_verdict:
  assumes "rateLimit route = Some c" "rate_limit_accepted c" "ranged_config c" "ranged_context ctx" "safe_int now"
    and "rate_checks (route_id route) c ip ctx (rl_keyBy c) = Some checks" "checks \<noteq> []"
    and "\<forall>(k, p) \<in> set checks. ms_ok p (ms_view m k)"
    and "enforceRateLimit (live ms_consume) now m route ip ctx fo reply = (m', reply', verdict)"
  shows "if \<forall>r \<in> set (snd (consume_live ms_consume now m checks)). allowed r
    then verdict = Some True \<and> r_sent reply' = r_sent reply
    else verdict = Some False
      \<and> (\<exists>s \<ge> 1. r_sent reply' = Some \<lparr>status = 429, error_code = ''rate_limit_exceeded'', retryAfter = Some s\<rparr>
          \<and> reply_header ''Retry-After'' reply' = Some (HNum s))"
proof -
  obtain m1 rs where rs: "consume_live ms_consume now m checks = (m1, rs)" by force
  note E = enforceRateLimit_live [OF assms(1,6,7) rs assms(9)]
  have "\<forall>(k, p) \<in> set checks. valid_policy p \<and> ms_ok p (ms_view m k)"
    using rate_checks_valid [OF assms(6,3,4,2)] assms(8) by auto
  moreover have "\<forall>(k, p) \<in> set checks. \<forall>(k', p') \<in> set checks. k = k' \<longrightarrow> p = p'"
    using rate_checks_functional [OF assms(6)] by auto
  ultimately have good: "\<forall>r \<in> set rs. \<exists>c p. good_result c p r"
    using ms.consume_live_good [OF assms(5)] rs by force
  show ?thesis
  proof (cases "js_find (\<lambda>r. \<not> allowed r) rs")
    case None
    then show ?thesis using E(2) rs by simp
  next
    case (Some r)
    then have r: "r \<in> set rs" "\<not> allowed r" by (auto dest: js_find_SomeD)
    then have "1 \<le> retryAfterMs r" using good by (fastforce simp: good_result_def)
    then have "0 < js_div (retryAfterMs r) 1000" by (simp add: js_div_def js.rnd_pos)
    then have "1 \<le> js_ceil (js_div (retryAfterMs r) 1000)" by (rule js_ceil_pos)
    then show ?thesis using E(3) [OF Some] r rs by auto
  qed
qed

text \<open>
  The hook charges every key of the route on every request, also when an earlier key has already
  refused it: the store ends where charging all keys one after the other leaves it.
\<close>

theorem enforceRateLimit_charges_all:
  assumes "rateLimit route = Some c" "rate_checks (route_id route) c ip ctx (rl_keyBy c) = Some checks"
  shows "fst (enforceRateLimit (live con) now m route ip ctx fo reply)
    = foldl (\<lambda>m (k, p). fst (con m k p now 1)) m checks"
proof (cases "checks = []")
  case True
  then show ?thesis using assms by (simp add: enforceRateLimit_def)
next
  case False
  obtain m1 rs where rs: "consume_live con now m checks = (m1, rs)" by force
  obtain m2 reply' v where e: "enforceRateLimit (live con) now m route ip ctx fo reply = (m2, reply', v)"
    using prod_cases3 by blast
  have "fst (consume_live con now m checks) = foldl (\<lambda>m (k, p). fst (con m k p now 1)) m checks"
    by (induction checks arbitrary: m) (auto simp: case_prod_beta)
  then show ?thesis using enforceRateLimit_live(1) [OF assms False rs e] rs e by simp
qed

text \<open>
  When the store fails, the hook decides by \<open>failOpen\<close> alone: the request passes untouched, or it
  is answered with 503, and no quota header is written in either case.
\<close>

theorem enforceRateLimit_store_down:
  assumes "rateLimit route = Some c" "rate_checks (route_id route) c ip ctx (rl_keyBy c) = Some checks"
    and "checks \<noteq> []" "list_ex isl (snd (consume_all con now m checks))"
  shows "snd (enforceRateLimit con now m route ip ctx fo reply) =
    (if fo then (reply, Some True) else (send_error 503 ''rate_limit_unavailable'' reply, Some False))"
  using assms by (cases checks) (auto simp: enforceRateLimit_def case_prod_beta)

section \<open>A refused client drains the global quota\<close>

text \<open>One request per minute and address, three per minute over all addresses.\<close>

definition guarded_limit :: rate_limit_config where
  "guarded_limit = \<lparr>rl_algorithm = FixedWindow, rl_keyBy = [KeyIp, KeyGlobal], rl_limit = 1, rl_windowSec = 60,
     rl_burst = None, rl_global = Some \<lparr>g_limit = 3, g_windowSec = 60, g_burst = None\<rparr>\<rparr>"

definition guarded_route :: route_config where
  "guarded_route = (bare_route ''r'')\<lparr>rateLimit := Some guarded_limit\<rparr>"

definition anonymous :: rate_context where
  "anonymous = \<lparr>ctx_tenantId = None, ctx_plan = None\<rparr>"

fun hook_verdicts :: "memory_store \<Rightarrow> route_config \<Rightarrow> (number \<times> string) list \<Rightarrow> bool option list" where
  "hook_verdicts m route [] = []"
| "hook_verdicts m route ((now, ip) # rs) =
     (let (m', reply, v) = enforceRateLimit (live ms_consume) now m route ip anonymous True \<lparr>r_headers = [], r_sent = None\<rparr>
      in v # hook_verdicts m' route rs)"

lemma guarded_policies: "valid_policy \<lparr>limit = 1, windowMs = 60000, burst = None\<rparr>"
  "valid_policy \<lparr>limit = 3, windowMs = 60000, burst = None\<rparr>"
  by (simp_all add: valid_policy_def capacity_def)

text \<open>
  A client that is over its own limit still consumes the global quota, although its requests never
  reach the upstream the global policy protects: after one served and two refused requests of one
  address, the first request of another address is refused.
\<close>

theorem refused_requests_drain_global:
  "hook_verdicts (createMemoryStore FixedWindow) guarded_route [(0, ''a''), (1, ''a''), (2, ''a''), (3, ''b'')]
     = [Some True, Some False, Some False, Some False]"
  by (simp add: enforceRateLimit_def guarded_route_def guarded_limit_def anonymous_def live_def from_consume_def
      routePolicy_def globalPolicy_def js_mul_def fixedWindow_exact [OF guarded_policies(1)]
      fixedWindow_exact [OF guarded_policies(2)] fw_current_def fw_inv_def window_of_def window_begin_def Let_def)

section \<open>Witnesses\<close>

abbreviation guarded_checks :: "(string \<times> policy) list" where
  "guarded_checks \<equiv> [(''ip:a:route:r'', \<lparr>limit = 1, windowMs = 60000, burst = None\<rparr>),
     (''global:route:r'', \<lparr>limit = 3, windowMs = 60000, burst = None\<rparr>)]"

lemma guarded_config: "rateLimit guarded_route = Some guarded_limit" "route_id guarded_route = ''r''"
  "rate_limit_accepted guarded_limit" "ranged_config guarded_limit" "ranged_context anonymous"
  by (simp_all add: guarded_route_def guarded_limit_def rate_limit_accepted_def ranged_config_def ranged_def
      ranged_context_def anonymous_def int_positive_def in_range_def global_refined_def)

lemma guarded_checks: "rate_checks (route_id guarded_route) guarded_limit ''a'' anonymous (rl_keyBy guarded_limit) = Some guarded_checks"
  by (simp add: guarded_config(2) guarded_limit_def anonymous_def routePolicy_def globalPolicy_def js_mul_def)

lemma enforceRateLimit_verdict_witness:
  "\<exists>r. r_sent (fst (snd (enforceRateLimit (live ms_consume) 1
      (FwStore [''ip:a:route:r'' \<mapsto> \<lparr>fw_windowStart = 0, fw_count = 1\<rparr>]) guarded_route ''a'' anonymous True
      \<lparr>r_headers = [], r_sent = None\<rparr>))) = Some r \<and> status r = 429"
proof -
  let ?m = "FwStore [''ip:a:route:r'' \<mapsto> \<lparr>fw_windowStart = 0, fw_count = 1\<rparr>]"
  obtain m' reply v where e: "enforceRateLimit (live ms_consume) 1 ?m guarded_route ''a'' anonymous True
      \<lparr>r_headers = [], r_sent = None\<rparr> = (m', reply, v)"
    using prod_cases3 by blast
  have "\<not> (\<forall>r \<in> set (snd (consume_live ms_consume 1 ?m guarded_checks)). allowed r)"
    by (simp add: from_consume_def fixedWindow_exact [OF guarded_policies(1)]
        fixedWindow_exact [OF guarded_policies(2)] fw_current_def fw_inv_def window_of_def window_begin_def Let_def)
  moreover have "\<forall>(k, p) \<in> set guarded_checks. ms_ok p (ms_view ?m k)" by (simp add: fw_inv_def)
  moreover note enforceRateLimit_verdict [OF guarded_config(1,3-5) _ guarded_checks _ _ e]
  ultimately have "v = Some False \<and> (\<exists>s \<ge> 1. r_sent reply =
      Some \<lparr>status = 429, error_code = ''rate_limit_exceeded'', retryAfter = Some s\<rparr>
      \<and> reply_header ''Retry-After'' reply = Some (HNum s))"
    by (simp only: if_False safe_int_1 list.distinct simp_thms)
  then show ?thesis using e by auto
qed

lemma enforceRateLimit_charges_all_witness:
  "fst (enforceRateLimit (live ms_consume) 1 (createMemoryStore FixedWindow) guarded_route ''a'' anonymous True
      \<lparr>r_headers = [], r_sent = None\<rparr>)
    = foldl (\<lambda>m (k, p). fst (ms_consume m k p 1 1)) (createMemoryStore FixedWindow) guarded_checks"
  using enforceRateLimit_charges_all [OF guarded_config(1) guarded_checks,
      of ms_consume 1 "createMemoryStore FixedWindow" True "\<lparr>r_headers = [], r_sent = None\<rparr>"]
  by simp

lemma enforceRateLimit_store_down_witness:
  "snd (enforceRateLimit (\<lambda>m k p now cost. (m, Inl ())) 1 () guarded_route ''a'' anonymous False
      \<lparr>r_headers = [], r_sent = None\<rparr>)
    = (send_error 503 ''rate_limit_unavailable'' \<lparr>r_headers = [], r_sent = None\<rparr>, Some False)"
  using enforceRateLimit_store_down [OF guarded_config(1) guarded_checks,
      of "\<lambda>m k p now cost. (m, Inl ())" 1 "()" False] by simp

end
