(* ===== verification/Routing.thy ===== *)
theory Routing
  imports Config
begin

text \<open>
  \<open>routing/matcher.ts\<close> and \<open>routing/rewrite.ts\<close>: which route serves a request, and the path the
  upstream sees. Routes are tried in order; a path pattern ends in \<open>/*\<close> or is exact, a host pattern
  starts with \<open>*.\<close> or is exact.
\<close>

section \<open>The matcher\<close>

record match_input =
  in_method :: string
  in_path :: string
  in_host :: "string option"

text \<open>\<open>if (!hostname)\<close> holds of \<open>undefined\<close> and of the empty string.\<close>

definition normalizeHost :: "string option \<Rightarrow> string option" where
  "normalizeHost hostname =
     (case hostname of
        None \<Rightarrow> None
      | Some h \<Rightarrow>
          if h = [] then None
          else let l = js_lower h; host = (if js_ends_with l ''.'' then butlast l else l)
               in if host = [] then None else Some host)"

definition matchesMethod :: "route_config \<Rightarrow> string \<Rightarrow> bool" where
  "matchesMethod route method = (case m_methods (match route) of None \<Rightarrow> True | Some ms \<Rightarrow> method \<in> set ms)"

definition matchesPath :: "route_config \<Rightarrow> string \<Rightarrow> bool" where
  "matchesPath route path =
     (let pattern = m_path (match route)
      in if js_ends_with pattern ''/*''
         then (let prefix = take (length pattern - 2) pattern
               in path = prefix \<or> js_starts_with path (prefix @ ''/''))
         else path = pattern)"

definition matchesHost :: "route_config \<Rightarrow> string option \<Rightarrow> bool" where
  "matchesHost route host =
     (case map_option js_lower (m_host (match route)) of
        None \<Rightarrow> True
      | Some pattern \<Rightarrow>
          (case host of
             None \<Rightarrow> False
           | Some h \<Rightarrow>
               if js_starts_with pattern ''*.''
               then (let suffix = drop 1 pattern in length suffix < length h \<and> js_ends_with h suffix)
               else h = pattern))"

definition matchRoute :: "route_config list \<Rightarrow> match_input \<Rightarrow> route_config option" where
  "matchRoute rs input =
     (let host = normalizeHost (in_host input)
      in js_find (\<lambda>route. matchesMethod route (in_method input) \<and> matchesPath route (in_path input)
                          \<and> matchesHost route host) rs)"

definition matchRouteByPath :: "route_config list \<Rightarrow> string \<Rightarrow> string option \<Rightarrow> route_config option" where
  "matchRouteByPath rs path host =
     (let normalized = normalizeHost host
      in js_find (\<lambda>route. matchesPath route path \<and> matchesHost route normalized) rs)"

section \<open>The rewriter\<close>

definition splitUrl :: "string \<Rightarrow> string \<times> string option" where
  "splitUrl url = (case js_index_of (CHR ''?'') url of
      None \<Rightarrow> (url, None)
    | Some i \<Rightarrow> (take i url, Some (drop (i + 1) url)))"

text \<open>\<open>if (stripPrefix && ...)\<close>: an empty prefix strips nothing.\<close>

definition rewritePath :: "string \<Rightarrow> route_config \<Rightarrow> string" where
  "rewritePath originalUrl route =
     (let (path, query) = splitUrl originalUrl;
          rewritten = (case stripPrefix route of
              Some pre \<Rightarrow>
                if pre \<noteq> [] \<and> js_starts_with path pre
                then (let rest = drop (length pre) path
                      in if js_starts_with rest ''/'' then rest else ''/'' @ rest)
                else path
            | None \<Rightarrow> path)
      in case query of None \<Rightarrow> rewritten | Some q \<Rightarrow> rewritten @ ''?'' @ q)"

section \<open>Correctness\<close>

subsection \<open>Hosts\<close>

definition normal_host :: "string \<Rightarrow> bool" where
  "normal_host h \<longleftrightarrow> h \<noteq> [] \<and> js_lower h = h"

lemma normalizeHost_normal: "normalizeHost host = Some h \<Longrightarrow> normal_host h"
proof -
  have "js_lower (butlast s) = butlast (js_lower s)" for s by (simp add: js_lower_def map_butlast)
  moreover assume "normalizeHost host = Some h"
  ultimately show ?thesis
    by (auto simp: normalizeHost_def normal_host_def Let_def split: option.splits if_splits) 
qed

text \<open>
  Host matching is insensitive to case and to the final dot of a fully qualified name: two
  spellings of a host select the same route.
\<close>

theorem matchRoute_host_spelling:
  assumes "h \<noteq> []" "\<not> js_ends_with h ''.''"
  shows "matchRoute rs (input\<lparr>in_host := Some (h @ ''.'')\<rparr>) = matchRoute rs (input\<lparr>in_host := Some h\<rparr>)
    \<and> matchRoute rs (input\<lparr>in_host := Some (js_lower h)\<rparr>) = matchRoute rs (input\<lparr>in_host := Some h\<rparr>)"
proof -
  have dot: "lower_char c = CHR ''.'' \<longleftrightarrow> c = CHR ''.''" for c
    by (auto simp: lower_char_def Let_def char_of_eq_iff take_bit_eq_mod)
  have lower_dot: "js_lower ''.'' = ''.''" by (simp add: js_lower_def dot)
  have "js_ends_with (js_lower h) ''.'' \<longleftrightarrow> js_ends_with h ''.''"
    by (cases h rule: rev_cases) (auto simp: js_ends_with_iff js_lower_def dot)
  with assms(2) have "\<not> js_ends_with (js_lower h) ''.''" by simp
  then have "normalizeHost (Some (h @ ''.'')) = normalizeHost (Some h)"
    "normalizeHost (Some (js_lower h)) = normalizeHost (Some h)"
    using assms dot lower_dot by (auto simp: normalizeHost_def Let_def js_ends_with_def)
  then show ?thesis by (simp add: matchRoute_def)
qed

text \<open>
  A wildcard host pattern \<open>*.d\<close> matches exactly the hosts with something in front of \<open>.d\<close>:
  never \<open>d\<close> itself, and never a host that merely ends in the letters of \<open>d\<close>.
\<close>

theorem matchesHost_wildcard:
  assumes "m_host (match route) = Some (''*.'' @ d)"
  shows "matchesHost route (Some h) \<longleftrightarrow> (\<exists>sub. sub \<noteq> [] \<and> h = sub @ ''.'' @ js_lower d)"
proof -
  have l: "js_lower (''*.'' @ d) = ''*.'' @ js_lower d"
    by (simp add: js_lower_def lower_char_def)
  show ?thesis
    unfolding matchesHost_def assms option.map option.case l Let_def
    by (auto simp: js_starts_with_def js_ends_with_iff)
qed

subsection \<open>Paths\<close>

lemma matchesPath_wildcard:
  "m_path (match route) = pre @ ''/*'' \<Longrightarrow>
     matchesPath route path \<longleftrightarrow> path = pre \<or> (\<exists>rest. path = pre @ ''/'' @ rest)"
  by (simp add: matchesPath_def js_ends_with_iff js_starts_with_iff)

lemma matchesPath_exact:
  "\<not> js_ends_with (m_path (match route)) ''/*'' \<Longrightarrow> matchesPath route path \<longleftrightarrow> path = m_path (match route)"
  by (simp add: matchesPath_def)

text \<open>
  The route that serves a request is the first in configuration order whose method, path and
  host match: any earlier route fails one of the three.
\<close>

theorem matchRoute_first:
  assumes "matchRoute rs input = Some route"
  shows "\<exists>before after. rs = before @ route # after
    \<and> matchesMethod route (in_method input) \<and> matchesPath route (in_path input)
    \<and> matchesHost route (normalizeHost (in_host input))
    \<and> (\<forall>r \<in> set before. \<not> (matchesMethod r (in_method input) \<and> matchesPath r (in_path input)
          \<and> matchesHost r (normalizeHost (in_host input))))"
  using assms unfolding matchRoute_def Let_def by (elim js_find_SomeE) blast

text \<open>A preflight is answered by the first route for the path, so a method restriction cannot hide it.\<close>

lemma matchRouteByPath_covers:
  assumes "matchRoute rs input = Some route"
  shows "\<exists>r. matchRouteByPath rs (in_path input) (in_host input) = Some r"
proof (rule ccontr)
  assume "\<not> ?thesis"
  then have "matchRouteByPath rs (in_path input) (in_host input) = None" by simp
  then show False
    using js_find_SomeD [OF assms [unfolded matchRoute_def Let_def]]
    by (auto simp: matchRouteByPath_def Let_def)
qed

subsection \<open>Rewriting\<close>

lemma splitUrl_path [simp]: "CHR ''?'' \<notin> set path \<Longrightarrow> splitUrl path = (path, None)"
  using js_index_of_None [of "CHR ''?''" path] by (simp add: splitUrl_def)

lemma splitUrl_query [simp]:
  "CHR ''?'' \<notin> set path \<Longrightarrow> splitUrl (path @ CHR ''?'' # q) = (path, Some q)"
  by (simp add: splitUrl_def)

text \<open>
  A route that strips the prefix of its own wildcard pattern sends the upstream exactly the rest
  of the path (\<open>/\<close> when nothing is left), and the query string unchanged.
\<close>

theorem rewritePath_strips:
  assumes "m_path (match route) = pre @ ''/*''" "stripPrefix route = Some pre" "pre \<noteq> []"
    and "matchesPath route path" "CHR ''?'' \<notin> set path"
  shows "\<exists>rest. (path = pre \<and> rest = ''/'' \<or> path = pre @ rest \<and> js_starts_with rest ''/'')
    \<and> rewritePath path route = rest \<and> rewritePath (path @ ''?'' @ query) route = rest @ ''?'' @ query"
proof -
  consider "path = pre" | rest where "path = pre @ ''/'' @ rest"
    using assms(4) matchesPath_wildcard [OF assms(1)] by blast
  then show ?thesis
  proof cases
    case 1
    then show ?thesis
      using assms(2,3,5) by (simp add: rewritePath_def js_starts_with_def Let_def)
  next
    case 2
    have "splitUrl (path @ CHR ''?'' # query) = (path, Some query)" using assms(5) by (rule splitUrl_query)
    then show ?thesis
      using assms(2,3,5) 2
      by (intro exI [of _ "''/'' @ rest"]) (simp add: rewritePath_def js_starts_with_def Let_def)
  qed
qed

text \<open>
  In general the prefix is cut as text, not at a segment: with \<open>stripPrefix: /api/v1\<close> on a route
  for \<open>/api/*\<close>, the request \<open>/api/v10/users\<close> reaches the upstream as \<open>/0/users\<close>.
\<close>

theorem rewritePath_not_segmented:
  "m_path (match route) = ''/api/*'' \<Longrightarrow> stripPrefix route = Some ''/api/v1'' \<Longrightarrow>
     matchesPath route ''/api/v10/users'' \<and> rewritePath ''/api/v10/users'' route = ''/0/users''"
  by (simp add: matchesPath_def rewritePath_def js_starts_with_def js_ends_with_def Let_def)

text \<open>The rewritten path of an absolute request path is absolute.\<close>

lemma rewritePath_absolute:
  assumes "js_starts_with url ''/''"
  shows "js_starts_with (rewritePath url route) ''/''"
proof -
  obtain path query where s: "splitUrl url = (path, query)" by force
  have "js_starts_with path ''/''"
    using assms s by (auto simp: splitUrl_def js_starts_with_iff split: option.splits if_splits)
  then show ?thesis
    by (auto simp: rewritePath_def s js_starts_with_iff Let_def split: option.splits)
qed

section \<open>Witnesses\<close>

abbreviation api_route :: route_config where
  "api_route \<equiv> (bare_route ''api'')\<lparr>match := \<lparr>m_path = ''/api/*'', m_methods = None, m_host = Some ''*.x.io''\<rparr>,
     stripPrefix := Some ''/api''\<rparr>"

lemma matchRoute_host_spelling_witness:
  "matchRoute [api_route] (\<lparr>in_method = ''GET'', in_path = ''/api/u'', in_host = None\<rparr>\<lparr>in_host := Some (''A.X.io'' @ ''.'')\<rparr>)
     = matchRoute [api_route] (\<lparr>in_method = ''GET'', in_path = ''/api/u'', in_host = None\<rparr>\<lparr>in_host := Some ''A.X.io''\<rparr>)"
  using matchRoute_host_spelling [of "''A.X.io''" "[api_route]"
      "\<lparr>in_method = ''GET'', in_path = ''/api/u'', in_host = None\<rparr>"]
  by (simp add: js_ends_with_def)

lemma matchesHost_wildcard_witness:
  "matchesHost api_route (Some ''a.x.io'') \<and> \<not> matchesHost api_route (Some ''x.io'')
     \<and> \<not> matchesHost api_route (Some ''ax.io'')"
proof -
  have d: "js_lower ''x.io'' = ''x.io''" by (simp add: js_lower_def lower_char_def)
  have "matchesHost api_route (Some h) \<longleftrightarrow> (\<exists>sub. sub \<noteq> [] \<and> h = sub @ ''.x.io'')" for h
    using matchesHost_wildcard [of api_route "''x.io''" h] by (simp add: d)
  then show ?thesis by (auto simp: Cons_eq_append_conv)
qed

lemma matchRoute_first_witness:
  "\<exists>before after. [bare_route ''a'', api_route] = before @ bare_route ''a'' # after"
proof -
  have "matchRoute [bare_route ''a'', api_route] \<lparr>in_method = ''GET'', in_path = ''/api/u'', in_host = None\<rparr>
      = Some (bare_route ''a'')"
    by (simp add: matchRoute_def matchesMethod_def matchesPath_def matchesHost_def js_ends_with_def
        js_starts_with_def Let_def)
  from matchRoute_first [OF this] show ?thesis by blast
qed

lemma rewritePath_strips_witness:
  "\<exists>rest. rewritePath (''/api/u'' @ ''?'' @ ''q=1'') api_route = rest @ ''?'' @ ''q=1''"
  using rewritePath_strips [of api_route "''/api''" "''/api/u''" "''q=1''"]
  by (auto simp: matchesPath_def js_ends_with_def js_starts_with_def Let_def)

lemma rewritePath_not_segmented_witness:
  "rewritePath ''/api/v10/users'' (api_route\<lparr>stripPrefix := Some ''/api/v1''\<rparr>) = ''/0/users''"
  using rewritePath_not_segmented [of "api_route\<lparr>stripPrefix := Some ''/api/v1''\<rparr>"] by simp

end
