(* ===== verification/CacheStore.thy ===== *)
theory CacheStore
  imports Http
begin

text \<open>
  The response cache (\<open>core/src/cache/store.ts\<close>, \<open>memoryStore.ts\<close>). The locale \<open>cache_store\<close> is the
  \<open>CacheStore\<close> interface: \<open>live m now\<close> is what the store answers at time \<open>now\<close>, and each operation
  changes that map in one stated way. Whatever was done to the store, an answer was stored under that
  very key, is not older than its time to live, and was not purged since.
\<close>

section \<open>The interface\<close>

record cached_response =
  c_status :: nat
  c_headers :: headers
  c_body :: string

datatype cache_call =
    CGet string
  | CSet string cached_response number
  | CDelete string
  | CClose

text \<open>\<open>Date.now() + ttlSec * 1000\<close>.\<close>

definition expiry :: "number \<Rightarrow> number \<Rightarrow> number" where
  "expiry now ttl = js_add now (js_mul ttl 1000)"

fun cache_run ::
  "('m \<Rightarrow> number \<Rightarrow> string \<Rightarrow> 'm \<times> cached_response option) \<Rightarrow> ('m \<Rightarrow> number \<Rightarrow> string \<Rightarrow> cached_response \<Rightarrow> number \<Rightarrow> 'm)
    \<Rightarrow> ('m \<Rightarrow> number \<Rightarrow> string \<Rightarrow> 'm \<times> nat) \<Rightarrow> ('m \<Rightarrow> 'm) \<Rightarrow> 'm \<Rightarrow> (number \<times> cache_call) list \<Rightarrow> 'm" where
  "cache_run get put del clo m [] = m"
| "cache_run get put del clo m ((now, c) # cs) =
     cache_run get put del clo
       (case c of CGet k \<Rightarrow> fst (get m now k) | CSet k r ttl \<Rightarrow> put m now k r ttl
        | CDelete p \<Rightarrow> fst (del m now p) | CClose \<Rightarrow> clo m) cs"

text \<open>The calls that end the life of an entry under \<open>k\<close>.\<close>

fun drops :: "string \<Rightarrow> cache_call \<Rightarrow> bool" where
  "drops k (CGet k') = False"
| "drops k (CSet k' r ttl) = (k' = k)"
| "drops k (CDelete p) = js_starts_with k p"
| "drops k CClose = True"

fun in_order :: "number \<Rightarrow> (number \<times> cache_call) list \<Rightarrow> bool" where
  "in_order t [] = True"
| "in_order t ((now, c) # cs) = (t \<le> now \<and> in_order now cs)"

locale cache_store =
  fixes get :: "'m \<Rightarrow> number \<Rightarrow> string \<Rightarrow> 'm \<times> cached_response option"
    and put :: "'m \<Rightarrow> number \<Rightarrow> string \<Rightarrow> cached_response \<Rightarrow> number \<Rightarrow> 'm"
    and del :: "'m \<Rightarrow> number \<Rightarrow> string \<Rightarrow> 'm \<times> nat"
    and clo :: "'m \<Rightarrow> 'm"
    and live :: "'m \<Rightarrow> number \<Rightarrow> string \<Rightarrow> cached_response option"
    and wf :: "'m \<Rightarrow> bool"
  assumes get_live: "snd (get m now k) = live m now k"
    and get_keeps: "now \<le> later \<Longrightarrow> live (fst (get m now k)) later k' = live m later k'"
    and set_live: "live (put m now k r ttl) later k'
      = (if k' = k then (if later < expiry now ttl then Some r else None) else live m later k')"
    and del_live: "live (fst (del m now p)) later k = (if js_starts_with k p then None else live m later k)"
    and del_count: "wf m \<Longrightarrow> snd (del m now p) = card {k. js_starts_with k p \<and> live m now k \<noteq> None}"
    and clo_live: "live (clo m) later k = None"
    and wf_keeps: "wf m \<Longrightarrow> wf (fst (get m now k)) \<and> wf (put m now k r ttl) \<and> wf (fst (del m now p)) \<and> wf (clo m)"
begin

lemma run_keeps:
  assumes "\<forall>(t, c) \<in> set cs. \<not> drops k c" "in_order t0 cs" "\<forall>(t, c) \<in> set cs. t \<le> later"
  shows "live (cache_run get put del clo m cs) later k = live m later k"
  using assms
proof (induction cs arbitrary: m t0)
  case (Cons call cs)
  obtain now c where [simp]: "call = (now, c)" by force
  show ?case
  proof (cases c)
    case (CGet k')
    then show ?thesis using Cons.IH [of now "fst (get m now k')"] Cons.prems get_keeps [of now later m k' k] by simp
  qed (use Cons.IH [of now] Cons.prems in \<open>auto simp: set_live del_live\<close>)
qed simp

text \<open>An answer has a source.\<close>

lemma run_source:
  assumes "\<And>k later. live m later k = None" "in_order t0 cs" "\<forall>(t, c) \<in> set cs. t \<le> later"
    and "live (cache_run get put del clo m cs) later k = Some r"
  shows "\<exists>before t ttl after. cs = before @ (t, CSet k r ttl) # after \<and> later < expiry t ttl
    \<and> (\<forall>(u, c) \<in> set after. \<not> drops k c)"
proof -
  have "live m later k = Some r \<and> (\<forall>(u, c) \<in> set cs. \<not> drops k c)
      \<or> (\<exists>before t ttl after. cs = before @ (t, CSet k r ttl) # after \<and> later < expiry t ttl
          \<and> (\<forall>(u, c) \<in> set after. \<not> drops k c))"
    using assms(2-4)
  proof (induction cs arbitrary: m t0)
    case (Cons call cs)
    obtain now c where call [simp]: "call = (now, c)" by force
    let ?m = "case c of CGet k \<Rightarrow> fst (get m now k) | CSet k r ttl \<Rightarrow> put m now k r ttl
        | CDelete p \<Rightarrow> fst (del m now p) | CClose \<Rightarrow> clo m"
    have "live ?m later k = Some r \<and> (\<forall>(u, c) \<in> set cs. \<not> drops k c)
        \<or> (\<exists>before t ttl after. cs = before @ (t, CSet k r ttl) # after \<and> later < expiry t ttl
          \<and> (\<forall>(u, c) \<in> set after. \<not> drops k c))"
      using Cons.prems by (intro Cons.IH [of now]) auto
    then show ?case
    proof (elim disjE conjE exE)
      assume l: "live ?m later k = Some r" and nd: "\<forall>(u, c) \<in> set cs. \<not> drops k c"
      show ?thesis
      proof (cases c)
        case (CGet k')
        with l nd Cons.prems get_keeps [of now later m k' k] show ?thesis by (intro disjI1) auto
      next
        case (CSet k' r' ttl)
        show ?thesis
        proof (cases "k' = k")
          case True
          with l CSet have "r' = r" "later < expiry now ttl" by (auto simp: set_live split: if_splits)
          with True CSet nd show ?thesis by (intro disjI2 exI [of _ "[]"]) auto
        next
          case False
          with l nd CSet show ?thesis by (intro disjI1) (auto simp: set_live)
        qed
      next
        case (CDelete p)
        with l nd show ?thesis by (intro disjI1) (auto simp: del_live split: if_splits)
      next
        case CClose
        with l show ?thesis by (simp add: clo_live)
      qed
    next
      fix before t ttl after
      assume "cs = before @ (t, CSet k r ttl) # after" "later < expiry t ttl" "\<forall>(u, c) \<in> set after. \<not> drops k c"
      then show ?thesis by (intro disjI2 exI [of _ "call # before"]) auto
    qed
  qed simp
  with assms(1) show ?thesis by auto
qed

end

section \<open>createMemoryCacheStore\<close>

text \<open>A \<open>Map\<close> of entries, in insertion order.\<close>

record entry =
  e_response :: cached_response
  expiresAt :: number

type_synonym entries = "(string \<times> entry) list"

definition mc_get :: "entries \<Rightarrow> number \<Rightarrow> string \<Rightarrow> entries \<times> cached_response option" where
  "mc_get es now key =
     (case map_of es key of
        None \<Rightarrow> (es, None)
      | Some e \<Rightarrow> if expiresAt e \<le> now then (AList.delete key es, None) else (es, Some (e_response e)))"

definition mc_set :: "entries \<Rightarrow> number \<Rightarrow> string \<Rightarrow> cached_response \<Rightarrow> number \<Rightarrow> entries" where
  "mc_set es now key r ttl = AList.update key \<lparr>e_response = r, expiresAt = expiry now ttl\<rparr> es"

text \<open>The loop deletes each entry with the prefix and counts those that had not expired.\<close>

fun mc_delete_loop :: "number \<Rightarrow> string \<Rightarrow> entries \<Rightarrow> nat \<Rightarrow> entries \<times> nat" where
  "mc_delete_loop now p [] removed = ([], removed)"
| "mc_delete_loop now p ((k, e) # es) removed =
     (if \<not> js_starts_with k p then (let (es', n) = mc_delete_loop now p es removed in ((k, e) # es', n))
      else mc_delete_loop now p es (if now < expiresAt e then removed + 1 else removed))"

definition mc_deleteByPrefix :: "entries \<Rightarrow> number \<Rightarrow> string \<Rightarrow> entries \<times> nat" where
  "mc_deleteByPrefix es now p = mc_delete_loop now p es 0"

definition mc_close :: "entries \<Rightarrow> entries" where
  "mc_close es = []"

definition mc_live :: "entries \<Rightarrow> number \<Rightarrow> string \<Rightarrow> cached_response option" where
  "mc_live es now k =
     (case map_of es k of Some e \<Rightarrow> if now < expiresAt e then Some (e_response e) else None | None \<Rightarrow> None)"

definition mc_wf :: "entries \<Rightarrow> bool" where
  "mc_wf es \<longleftrightarrow> distinct (map fst es)"

lemma mc_delete_loop_eq:
  "mc_delete_loop now p es n =
     (filter (\<lambda>(k, e). \<not> js_starts_with k p) es,
      n + length (filter (\<lambda>(k, e). js_starts_with k p \<and> now < expiresAt e) es))"
  by (induction now p es n rule: mc_delete_loop.induct) (auto simp: Let_def)

lemma map_of_kept: "map_of (filter (\<lambda>(k, e). \<not> js_starts_with k p) es) k
    = (if js_starts_with k p then None else map_of es k)"
  by (induction es) auto

lemma live_keys_count:
  "distinct (map fst es) \<Longrightarrow>
     length (filter (\<lambda>(k, e). js_starts_with k p \<and> now < expiresAt e) es)
       = card {k. js_starts_with k p \<and> mc_live es now k \<noteq> None}"
proof -
  assume d: "distinct (map fst es)"
  let ?fs = "filter (\<lambda>(k, e). js_starts_with k p \<and> now < expiresAt e) es"
  have "{k. js_starts_with k p \<and> mc_live es now k \<noteq> None} = set (map fst ?fs)"
  proof (intro set_eqI)
    fix x
    have "mc_live es now x \<noteq> None \<longleftrightarrow> (\<exists>e. (x, e) \<in> set es \<and> now < expiresAt e)"
      using map_of_eq_Some_iff [OF d, of x] by (cases "map_of es x") (force simp: mc_live_def)+
    then show "x \<in> {k. js_starts_with k p \<and> mc_live es now k \<noteq> None} \<longleftrightarrow> x \<in> set (map fst ?fs)"
      by (auto simp: image_iff)
  qed
  moreover have "distinct (map fst ?fs)" using d by (rule distinct_map_filter)
  ultimately show ?thesis using distinct_card [of "map fst ?fs"] by simp
qed

interpretation mc: cache_store mc_get mc_set mc_deleteByPrefix mc_close mc_live mc_wf
proof unfold_locales
  fix m :: entries and now later :: number and k k' p :: string and r ttl
  show "snd (mc_get m now k) = mc_live m now k"
    by (auto simp: mc_get_def mc_live_def split: option.splits)
  show "now \<le> later \<Longrightarrow> mc_live (fst (mc_get m now k)) later k' = mc_live m later k'"
    by (auto simp: mc_get_def mc_live_def delete_conv' split: option.splits)
  show "mc_live (mc_set m now k r ttl) later k'
      = (if k' = k then (if later < expiry now ttl then Some r else None) else mc_live m later k')"
    by (simp add: mc_set_def mc_live_def update_conv')
  show "mc_live (fst (mc_deleteByPrefix m now p)) later k = (if js_starts_with k p then None else mc_live m later k)"
    by (simp add: mc_deleteByPrefix_def mc_delete_loop_eq mc_live_def map_of_kept)
  show "mc_wf m \<Longrightarrow> snd (mc_deleteByPrefix m now p) = card {k. js_starts_with k p \<and> mc_live m now k \<noteq> None}"
    by (simp add: mc_deleteByPrefix_def mc_delete_loop_eq live_keys_count mc_wf_def)
  show "mc_live (mc_close m) later k = None" by (simp add: mc_close_def mc_live_def)
  show "mc_wf m \<Longrightarrow> mc_wf (fst (mc_get m now k)) \<and> mc_wf (mc_set m now k r ttl)
      \<and> mc_wf (fst (mc_deleteByPrefix m now p)) \<and> mc_wf (mc_close m)"
    by (auto simp: mc_wf_def mc_get_def mc_set_def mc_deleteByPrefix_def mc_delete_loop_eq mc_close_def
        distinct_update distinct_delete distinct_map_filter split: option.splits)
qed

text \<open>
  C29: whatever calls the in-process cache has served, a response it returns was stored under exactly
  that key, its time to live has not run out, and no later call replaced or purged it.
\<close>

theorem memoryCache_sound:
  assumes "in_order t0 cs" "\<forall>(t, c) \<in> set cs. t \<le> now"
    and "snd (mc_get (cache_run mc_get mc_set mc_deleteByPrefix mc_close [] cs) now k) = Some r"
  shows "\<exists>before t ttl after. cs = before @ (t, CSet k r ttl) # after \<and> now < expiry t ttl
    \<and> (\<forall>(u, c) \<in> set after. \<not> drops k c)"
  using assms unfolding mc.get_live by (intro mc.run_source [of "[]"]) (simp_all add: mc_live_def)

text \<open>
  And conversely a stored response is served until its time to live runs out, unless a later call
  replaces or purges it.
\<close>

theorem memoryCache_complete:
  assumes "in_order t (after @ [(now, CGet k)])" "\<forall>(u, c) \<in> set after. \<not> drops k c" "now < expiry t ttl"
  shows "snd (mc_get (cache_run mc_get mc_set mc_deleteByPrefix mc_close (mc_set es t k r ttl) after) now k) = Some r"
proof -
  have "\<forall>(u, c) \<in> set after. u \<le> now \<and> t \<le> now" and "in_order t after \<and> t \<le> now"
    using assms(1) by (induction after arbitrary: t) fastforce+
  then show ?thesis
    using mc.run_keeps [of after k t now "mc_set es t k r ttl"] assms(2,3)
    by (force simp: mc.get_live mc.set_live)
qed

text \<open>
  A purge by prefix removes exactly the entries under the prefix, and reports how many of them
  were still alive.
\<close>

theorem memoryCache_purge:
  assumes "distinct (map fst es)"
  shows "mc_live (fst (mc_deleteByPrefix es now p)) later k = (if js_starts_with k p then None else mc_live es later k)
    \<and> snd (mc_deleteByPrefix es now p) = card {k. js_starts_with k p \<and> mc_live es now k \<noteq> None}"
  using mc.del_live mc.del_count assms unfolding mc_wf_def by simp

section \<open>Witnesses\<close>

abbreviation a_response :: cached_response where
  "a_response \<equiv> \<lparr>c_status = 200, c_headers = [], c_body = ''a''\<rparr>"

lemma expiry_60: "expiry 5 60 = 60005"
  by (simp add: expiry_def js_mul_def js_add_def)

lemma memoryCache_sound_witness:
  "\<exists>before t ttl after. [(5::number, CSet ''k'' a_response 60), (7, CDelete ''x'')] = before @ (t, CSet ''k'' a_response ttl) # after"
proof -
  have "snd (mc_get (cache_run mc_get mc_set mc_deleteByPrefix mc_close []
      [(5, CSet ''k'' a_response 60), (7, CDelete ''x'')]) 60000 ''k'') = Some a_response"
    by (simp add: mc_get_def mc_set_def mc_deleteByPrefix_def expiry_60 js_starts_with_def)
  from memoryCache_sound [OF _ _ this, of 0] show ?thesis by auto
qed

lemma memoryCache_complete_witness:
  "snd (mc_get (cache_run mc_get mc_set mc_deleteByPrefix mc_close (mc_set [] 5 ''k'' a_response 60) [(7, CDelete ''x'')]) 60000 ''k'')
     = Some a_response"
  using memoryCache_complete [of 5 "[(7, CDelete ''x'')]" 60000 "''k''" 60 "[]" a_response]
  by (simp add: expiry_60 js_starts_with_def)

lemma memoryCache_purge_witness:
  "mc_live (fst (mc_deleteByPrefix (mc_set [] 5 ''k1'' a_response 60) 7 ''k'')) 8 ''k1'' = None"
  using memoryCache_purge [of "mc_set [] 5 ''k1'' a_response 60" 7 "''k''" 8 "''k1''"]
  by (simp add: mc_set_def js_starts_with_def)

end
