(* ===== verification/JsParse.thy ===== *)
theory JsParse
  imports JsNumber
begin

text \<open>
  \<open>Number(s)\<close> of a string, where the code then asks \<open>Number.isFinite\<close>: \<open>None\<close> stands for \<open>NaN\<close> and the
  infinities. White space is trimmed, the empty string is 0, \<open>0x\<close>, \<open>0o\<close> and \<open>0b\<close> literals take no
  sign, decimal literals have an optional sign, fraction and exponent. The value is rounded to
  binary64; below half the smallest subnormal it is 0, from \<open>2^1024\<close> on it is infinite.
\<close>

definition digit_value :: "nat \<Rightarrow> char \<Rightarrow> nat option" where
  "digit_value b c =
     (let n = of_char c;
          v = (if 48 \<le> n \<and> n \<le> 57 then n - 48 else if 97 \<le> n \<and> n \<le> 122 then n - 87
               else if 65 \<le> n \<and> n \<le> 90 then n - 55 else b)
      in if v < b then Some v else None)"

text \<open>The longest run of digits, and the rest.\<close>

fun span_digits :: "nat \<Rightarrow> string \<Rightarrow> nat list \<times> string" where
  "span_digits b [] = ([], [])"
| "span_digits b (c # cs) =
     (case digit_value b c of
        None \<Rightarrow> ([], c # cs)
      | Some v \<Rightarrow> (let (ds, rest) = span_digits b cs in (v # ds, rest)))"

definition digits_value :: "nat \<Rightarrow> nat list \<Rightarrow> nat" where
  "digits_value b ds = foldl (\<lambda>a d. a * b + d) 0 ds"

definition finite_double :: "rat \<Rightarrow> number option" where
  "finite_double x =
     (if \<bar>x\<bar> \<le> 1 / 2 ^ 1075 then Some 0 else if 2 ^ 1024 \<le> \<bar>round64 x\<bar> then None else Some (round64 x))"

definition radix_literal :: "nat \<Rightarrow> string \<Rightarrow> number option" where
  "radix_literal b s =
     (let (ds, rest) = span_digits b s
      in if ds \<noteq> [] \<and> rest = [] then finite_double (of_nat (digits_value b ds)) else None)"

definition take_sign :: "string \<Rightarrow> int \<times> string" where
  "take_sign s = (case s of
      [] \<Rightarrow> (1, [])
    | c # cs \<Rightarrow> if c = CHR ''-'' then (- 1, cs) else if c = CHR ''+'' then (1, cs) else (1, s))"

definition exponent_part :: "string \<Rightarrow> int option" where
  "exponent_part s = (case s of
      [] \<Rightarrow> Some 0
    | c # cs \<Rightarrow>
        if c = CHR ''e'' \<or> c = CHR ''E''
        then (let (sg, r) = take_sign cs; (ds, rest) = span_digits 10 r
              in if ds \<noteq> [] \<and> rest = [] then Some (sg * int (digits_value 10 ds)) else None)
        else None)"

definition decimal_literal :: "string \<Rightarrow> number option" where
  "decimal_literal s =
     (let (sg, u) = take_sign s;
          (ints, r) = span_digits 10 u;
          (fracs, r') = (case r of c # cs \<Rightarrow> if c = CHR ''.'' then span_digits 10 cs else ([], r) | [] \<Rightarrow> ([], []))
      in if ints @ fracs = [] then None
         else (case exponent_part r' of
             None \<Rightarrow> None
           | Some e \<Rightarrow> finite_double (of_int sg * of_nat (digits_value 10 (ints @ fracs)) * 10 powi (e - int (length fracs)))))"

definition js_number :: "string \<Rightarrow> number option" where
  "js_number s =
     (let t = js_trim s
      in if t = [] then Some 0
         else (case t of
             z # x # r \<Rightarrow>
               if z = CHR ''0'' \<and> (x = CHR ''x'' \<or> x = CHR ''X'') then radix_literal 16 r
               else if z = CHR ''0'' \<and> (x = CHR ''o'' \<or> x = CHR ''O'') then radix_literal 8 r
               else if z = CHR ''0'' \<and> (x = CHR ''b'' \<or> x = CHR ''B'') then radix_literal 2 r
               else decimal_literal t
           | _ \<Rightarrow> decimal_literal t))"

text \<open>A plain run of decimal digits reads as its value, exactly when it is a safe integer.\<close>

lemma span_digits_all:
  "\<forall>c \<in> set s. \<exists>v. digit_value b c = Some v \<Longrightarrow> span_digits b s = (map (\<lambda>c. the (digit_value b c)) s, [])"
  by (induction s) auto

lemma finite_double_num: "finite_double x = Some y \<Longrightarrow> js_num y"
  by (auto simp: finite_double_def js_num_def split: if_splits)

lemma radix_literal_num: "radix_literal b s = Some y \<Longrightarrow> js_num y"
  unfolding radix_literal_def by (auto dest: finite_double_num split: if_splits prod.splits)

lemma decimal_literal_num: "decimal_literal s = Some y \<Longrightarrow> js_num y"
  unfolding decimal_literal_def Let_def
  by (auto dest: finite_double_num split: if_splits option.splits simp: case_prod_beta)

lemma js_number_js_num: "js_number s = Some y \<Longrightarrow> js_num y"
  unfolding js_number_def Let_def
  by (simp split: if_splits list.splits) (auto dest: radix_literal_num decimal_literal_num simp: js_num_def)

text \<open>A safe integer is not rounded, so digits that denote one read as it.\<close>

lemma finite_double_safe:
  assumes "safe_int x"
  shows "finite_double x = Some x"
proof -
  have r: "round64 x = x" using assms by simp
  obtain i where i: "x = of_int i" "\<bar>i\<bar> \<le> 2 ^ 53" using assms by (auto elim: safe_intE)
  have "\<bar>x\<bar> < 2 ^ 1024"
  proof -
    have "\<bar>x\<bar> \<le> 2 ^ 53" using i by (metis of_int_abs of_int_le_iff of_int_numeral of_int_power)
    also have "(2::rat) ^ 53 < 2 ^ 1024" by (rule power_strict_increasing) simp_all
    finally show ?thesis .
  qed
  moreover have "x = 0" if "\<bar>x\<bar> \<le> 1 / 2 ^ 1075"
  proof (rule ccontr)
    assume "x \<noteq> 0"
    with i have "1 \<le> \<bar>i\<bar>" by auto
    then have "(1::rat) \<le> \<bar>x\<bar>" by (metis i(1) of_int_1_le_iff of_int_abs)
    moreover have "1 / 2 ^ 1075 < (1::rat)" using one_less_power [of "2::rat" 1075] by (simp add: divide_less_eq_1)
    ultimately show False using that by linarith
  qed
  ultimately show ?thesis unfolding finite_double_def r by auto
qed

lemmas js_number_eval = js_number_def js_trim_def is_space_def decimal_literal_def take_sign_def digit_value_def
  exponent_part_def digits_value_def finite_double_safe

end
