(* ===== verification/CachePolicy.thy ===== *)
theory CachePolicy
  imports JsParse Http
begin

text \<open>
  \<open>core/src/cache/policy.ts\<close>: whether a response may be stored in the shared cache, and for how long.
\<close>

section \<open>parseCacheControl\<close>

record directives =
  noStore :: bool
  noCache :: bool
  private_dir :: bool
  maxAge :: "number option"

text \<open>\<open>Array.isArray(value) ? value.join(', ') : (value ?? '')\<close>; response headers are text.\<close>

definition header_text :: "string \<Rightarrow> header_value option \<Rightarrow> string" where
  "header_text sep v = (case v of Some (HTexts vs) \<Rightarrow> js_join sep vs | Some (HText t) \<Rightarrow> t | _ \<Rightarrow> [])"

definition directive_list :: "string \<Rightarrow> string list" where
  "directive_list raw = filter (\<lambda>d. d \<noteq> []) (map (\<lambda>d. js_lower (js_trim d)) (js_split (CHR '','') raw))"

fun max_age_of :: "number option \<Rightarrow> string list \<Rightarrow> number option" where
  "max_age_of acc [] = acc"
| "max_age_of acc (d # ds) =
     (if js_starts_with d ''max-age=''
      then (case js_number (drop (length ''max-age='') d) of
              Some parsed \<Rightarrow> max_age_of (Some parsed) ds
            | None \<Rightarrow> max_age_of acc ds)
      else max_age_of acc ds)"

definition parseCacheControl :: "header_value option \<Rightarrow> directives" where
  "parseCacheControl value =
     (let raw = header_text '', '' value; ds = directive_list raw
      in \<lparr>noStore = ''no-store'' \<in> set ds, noCache = ''no-cache'' \<in> set ds,
          private_dir = ''private'' \<in> set ds, maxAge = max_age_of None ds\<rparr>)"

section \<open>decideCacheability\<close>

record cache_decision =
  cacheable :: bool
  ttlSec :: number

definition decideCacheability :: "nat \<Rightarrow> headers \<Rightarrow> number \<Rightarrow> cache_decision" where
  "decideCacheability statusCode responseHeaders defaultTtlSec =
     (if statusCode \<noteq> 200 then \<lparr>cacheable = False, ttlSec = 0\<rparr>
      else let d = parseCacheControl (map_of responseHeaders ''cache-control'') in
        if noStore d \<or> noCache d \<or> private_dir d then \<lparr>cacheable = False, ttlSec = 0\<rparr>
        else let ttl = (case maxAge d of Some m \<Rightarrow> min m defaultTtlSec | None \<Rightarrow> defaultTtlSec) in
          if ttl \<le> 0 then \<lparr>cacheable = False, ttlSec = 0\<rparr> else \<lparr>cacheable = True, ttlSec = ttl\<rparr>)"

section \<open>Properties\<close>

text \<open>
  A response is stored only if it is a 200 whose \<open>Cache-Control\<close> names none of \<open>no-store\<close>,
  \<open>no-cache\<close> and \<open>private\<close>, and then for a positive time within both the operator's bound and the
  upstream's \<open>max-age\<close>.
\<close>

theorem decideCacheability_sound:
  assumes "cacheable (decideCacheability st hs dflt)"
  shows "st = 200 \<and> 0 < ttlSec (decideCacheability st hs dflt) \<and> ttlSec (decideCacheability st hs dflt) \<le> dflt
    \<and> (\<forall>m. maxAge (parseCacheControl (map_of hs ''cache-control'')) = Some m \<longrightarrow> ttlSec (decideCacheability st hs dflt) \<le> m)
    \<and> {''no-store'', ''no-cache'', ''private''}
        \<inter> set (directive_list (header_text '', '' (map_of hs ''cache-control''))) = {}"
  using assms
  by (auto simp: decideCacheability_def parseCacheControl_def Let_def split: if_splits option.splits)

text \<open>Case and white space around the directives do not matter.\<close>

lemma is_space_comma: "\<not> is_space (CHR '','')"
  by (simp add: is_space_def)

lemma directive_list_append:
  "CHR '','' \<notin> set a \<Longrightarrow> directive_list (a @ '','' @ b)
     = (if js_trim a = [] then [] else [js_lower (js_trim a)]) @ directive_list b"
  by (simp add: directive_list_def js_lower_def)

text \<open>
  A directive that carries an argument is not recognised: \<open>Cache-Control: private="set-cookie"\<close>
  and \<open>no-cache="set-cookie"\<close> leave a 200 cacheable for the whole default time.
\<close>

theorem qualified_directives_ignored:
  "decideCacheability 200 [(''cache-control'', HText ''private=x-user'')] 60 = \<lparr>cacheable = True, ttlSec = 60\<rparr>
   \<and> decideCacheability 200 [(''cache-control'', HText ''no-cache=x-user'')] 60 = \<lparr>cacheable = True, ttlSec = 60\<rparr>
   \<and> decideCacheability 200 [(''cache-control'', HText ''Private'')] 60 = \<lparr>cacheable = False, ttlSec = 0\<rparr>"
  by code_simp

section \<open>Witness\<close>

lemma decideCacheability_sound_witness:
  "ttlSec (decideCacheability 200 [(''cache-control'', HText ''Public, MAX-AGE=30'')] 60) \<le> 60"
proof -
  have d: "directive_list ''Public, MAX-AGE=30'' = [''public'', ''max-age=30'']" by code_simp
  have "cacheable (decideCacheability 200 [(''cache-control'', HText ''Public, MAX-AGE=30'')] 60)"
    by (simp add: decideCacheability_def parseCacheControl_def header_text_def d js_starts_with_def js_number_eval)
  from decideCacheability_sound [OF this] show ?thesis by blast
qed

end
