(* ===== verification/CacheKey.thy ===== *)
theory CacheKey
  imports CacheStore Config CachePolicy
begin

text \<open>
  \<open>gateway/src/cache/index.ts\<close>: which routes have a cache, the two-layered key, and the headers that
  are never stored. \<open>sha256\<close> is a parameter: what the properties need of it is that it does not
  collide on the texts hashed.
\<close>

section \<open>encodeURIComponent\<close>

text \<open>On 8-bit characters: unreserved ones stay, the others become their UTF-8 bytes in hexadecimal.\<close>

definition unreserved :: "char \<Rightarrow> bool" where
  "unreserved c \<longleftrightarrow> (let n = (of_char c :: nat) in (48 \<le> n \<and> n \<le> 57) \<or> (65 \<le> n \<and> n \<le> 90) \<or> (97 \<le> n \<and> n \<le> 122))
     \<or> c \<in> set ''-_.!~*()'' \<or> c = CHR 0x27"

definition hex_digit :: "nat \<Rightarrow> char" where
  "hex_digit n = char_of (if n < 10 then n + 48 else n + 55)"

definition hex_byte :: "nat \<Rightarrow> string" where
  "hex_byte n = CHR ''%'' # [hex_digit (n div 16), hex_digit (n mod 16)]"

definition encode_char :: "char \<Rightarrow> string" where
  "encode_char c =
     (let n = of_char c in
      if unreserved c then [c]
      else if n < 128 then hex_byte n
      else hex_byte (192 + n div 64) @ hex_byte (128 + n mod 64))"

definition encodeURIComponent :: "string \<Rightarrow> string" where
  "encodeURIComponent s = concat (map encode_char s)"

lemma hex_digit_inj: "a < 16 \<Longrightarrow> b < 16 \<Longrightarrow> hex_digit a = hex_digit b \<longleftrightarrow> a = b"
  by (auto simp: hex_digit_def char_of_eq_iff take_bit_eq_mod split: if_splits)

lemma hex_byte_inj:
  assumes "a < 256" "b < 256" "hex_byte a = hex_byte b"
  shows "a = b"
proof -
  have "a div 16 = b div 16" "a mod 16 = b mod 16"
    using assms by (auto simp: hex_byte_def hex_digit_inj)
  then show ?thesis by (metis div_mult_mod_eq)
qed

lemma length_hex_byte [simp]: "length (hex_byte n) = 3"
  by (simp add: hex_byte_def)

lemma hex_digit_code: "n < 16 \<Longrightarrow> hex_digit n \<noteq> CHR '':''"
  by (auto simp: hex_digit_def char_of_eq_iff take_bit_eq_mod split: if_splits)

lemma of_char_nat: "(of_char c :: nat) < 256"
  by simp

lemma colon_reserved: "\<not> unreserved (CHR '':'')" and percent_reserved: "\<not> unreserved (CHR ''%'')"
  by (simp_all add: unreserved_def char_of_eq_iff)

lemma hex_byte_no_colon:
  assumes "n < 256"
  shows "CHR '':'' \<notin> set (hex_byte n)"
proof -
  have "n div 16 < 16" using assms by linarith
  then show ?thesis
    using hex_digit_code [of "n div 16"] hex_digit_code [of "n mod 16"] by (auto simp: hex_byte_def)
qed

text \<open>The bytes of a character beyond ASCII.\<close>

lemma utf8_bytes:
  assumes "n < (256 :: nat)"
  shows "192 + n div 64 < 256" "128 + n mod 64 < 256" "128 \<le> 192 + n div 64"
  using assms by auto

lemma encode_char_no_colon: "CHR '':'' \<notin> set (encode_char c)"
  using colon_reserved hex_byte_no_colon [of "of_char c"] hex_byte_no_colon [of "192 + of_char c div 64"]
    hex_byte_no_colon [of "128 + of_char c mod 64"] utf8_bytes [of "of_char c"]
  by (auto simp: encode_char_def Let_def)

lemma encode_no_colon: "CHR '':'' \<notin> set (encodeURIComponent s)"
  using encode_char_no_colon by (auto simp: encodeURIComponent_def)

lemma hex_byte_append_inj:
  "hex_byte a @ x = hex_byte b @ y \<Longrightarrow> a < 256 \<Longrightarrow> b < 256 \<Longrightarrow> a = b \<and> x = y"
  using hex_byte_inj [of a b] by (simp add: append_eq_append_conv)

definition reserved_code :: "nat \<Rightarrow> string" where
  "reserved_code k = (if k < 128 then hex_byte k else hex_byte (192 + k div 64) @ hex_byte (128 + k mod 64))"

lemma encode_reserved_inj:
  assumes "n < 256" "m < 256" "reserved_code n @ x = reserved_code m @ y"
  shows "n = m \<and> x = y"
proof -
  note hi = utf8_bytes [OF assms(1)] utf8_bytes [OF assms(2)]
  consider "n < 128" "m < 128" | "n < 128" "\<not> m < 128" | "\<not> n < 128" "m < 128" | "\<not> n < 128" "\<not> m < 128" by blast
  then show ?thesis
  proof cases
    case 1
    with assms show ?thesis using hex_byte_append_inj [of n x m y] by (simp add: reserved_code_def)
  next
    case 2
    with assms have "hex_byte n @ x = hex_byte (192 + m div 64) @ (hex_byte (128 + m mod 64) @ y)"
      by (simp add: reserved_code_def)
    then have "n = 192 + m div 64" using hex_byte_append_inj assms(1) hi(4) by blast
    with 2(1) hi(6) show ?thesis by simp
  next
    case 3
    with assms have "hex_byte (192 + n div 64) @ (hex_byte (128 + n mod 64) @ x) = hex_byte m @ y"
      by (simp add: reserved_code_def)
    then have "192 + n div 64 = m" using hex_byte_append_inj assms(2) hi(1) by blast
    with 3(2) hi(3) show ?thesis by simp
  next
    case 4
    with assms have eq: "hex_byte (192 + n div 64) @ (hex_byte (128 + n mod 64) @ x)
        = hex_byte (192 + m div 64) @ (hex_byte (128 + m mod 64) @ y)"
      by (simp add: reserved_code_def)
    note one = hex_byte_append_inj [OF eq hi(1) hi(4)]
    note two = hex_byte_append_inj [OF conjunct2 [OF one] hi(2) hi(5)]
    have "n div 64 = m div 64" "n mod 64 = m mod 64" using one two by simp_all
    then have "n = m" by (metis div_mult_mod_eq)
    with two show ?thesis by blast
  qed
qed

text \<open>The code of a character determines it, whatever follows.\<close>

lemma encode_char_prefix:
  assumes "encode_char c @ x = encode_char d @ y"
  shows "c = d \<and> x = y"
proof -
  let ?n = "of_char c :: nat" and ?m = "of_char d :: nat"
  have b: "?n < 256" "?m < 256" by simp_all
  have inj: "?n = ?m \<Longrightarrow> c = d" by simp
  consider "unreserved c" "unreserved d" | "unreserved c" "\<not> unreserved d" | "\<not> unreserved c" "unreserved d"
    | "\<not> unreserved c" "\<not> unreserved d" by blast
  then show ?thesis
  proof cases
    case 1
    with assms show ?thesis by (simp add: encode_char_def Let_def)
  next
    case 2
    with assms have "c = CHR ''%''" by (auto simp: encode_char_def hex_byte_def Let_def split: if_splits)
    with 2 percent_reserved show ?thesis by simp
  next
    case 3
    with assms have "d = CHR ''%''" by (auto simp: encode_char_def hex_byte_def Let_def split: if_splits)
    with 3 percent_reserved show ?thesis by simp
  next
    case 4
    then show ?thesis
      using assms encode_reserved_inj [OF b, of x y] inj
      by (simp add: encode_char_def reserved_code_def Let_def)
  qed
qed

lemma encodeURIComponent_inj: "encodeURIComponent s = encodeURIComponent t \<longleftrightarrow> s = t"
proof
  assume "encodeURIComponent s = encodeURIComponent t"
  then show "s = t"
  proof (induction s arbitrary: t)
    case Nil
    then show ?case
      by (cases t) (auto simp: encodeURIComponent_def encode_char_def hex_byte_def Let_def split: if_splits)
  next
    case (Cons c s)
    show ?case
    proof (cases t)
      case Nil
      with Cons.prems show ?thesis
        by (auto simp: encodeURIComponent_def encode_char_def hex_byte_def Let_def split: if_splits)
    next
      case (Cons d t')
      with Cons.prems encode_char_prefix [of c "encodeURIComponent s" d "encodeURIComponent t'"] Cons.IH [of t']
      show ?thesis by (simp add: encodeURIComponent_def)
    qed
  qed
qed simp

section \<open>The key\<close>

definition cacheKeyPrefix :: "(string \<Rightarrow> string) \<Rightarrow> string \<Rightarrow> string option \<Rightarrow> string" where
  "cacheKeyPrefix sha256 routeId path =
     (let routePart = ''cache:'' @ encodeURIComponent routeId @ '':''
      in case path of None \<Rightarrow> routePart | Some p \<Rightarrow> routePart @ sha256 p @ '':'')"

text \<open>One part per header of \<open>varyBy\<close>, in lower case, with its value or nothing.\<close>

definition vary_part :: "headers \<Rightarrow> string \<Rightarrow> string" where
  "vary_part hs name = js_lower name @ ''='' @ header_text '','' (map_of hs (js_lower name))"

definition cache_variant :: "route_config \<Rightarrow> string \<Rightarrow> string \<Rightarrow> headers \<Rightarrow> string option \<Rightarrow> string option \<Rightarrow> string list" where
  "cache_variant route method query hs tenantId host =
     [method, query,
      (case tenantId of Some t \<Rightarrow> if t = [] then [] else ''tenant:'' @ t | None \<Rightarrow> []),
      (case m_host (match route) of
         Some h \<Rightarrow> if h = [] then [] else ''host:'' @ (case host of Some h' \<Rightarrow> h' | None \<Rightarrow> [])
       | None \<Rightarrow> [])]
     @ map (vary_part hs) (case cache route of Some c \<Rightarrow> cache_varyBy c | None \<Rightarrow> [])"

lemma cache_variant_nonempty: "cache_variant route method query hs tenantId host \<noteq> []"
  by (simp add: cache_variant_def)

definition url_path :: "string \<Rightarrow> string" where
  "url_path url = (case js_index_of (CHR ''?'') url of None \<Rightarrow> url | Some i \<Rightarrow> take i url)"

definition url_query :: "string \<Rightarrow> string" where
  "url_query url = (case js_index_of (CHR ''?'') url of None \<Rightarrow> [] | Some i \<Rightarrow> drop (i + 1) url)"

definition buildCacheKey ::
  "(string \<Rightarrow> string) \<Rightarrow> route_config \<Rightarrow> string \<Rightarrow> string \<Rightarrow> headers \<Rightarrow> string option \<Rightarrow> string option \<Rightarrow> string" where
  "buildCacheKey sha256 route method url hs tenantId host =
     cacheKeyPrefix sha256 (route_id route) (Some (url_path url))
       @ sha256 (js_join ''|'' (cache_variant route method (url_query url) hs tenantId host))"

definition stripUncacheableHeaders :: "headers \<Rightarrow> headers" where
  "stripUncacheableHeaders hs = filter (\<lambda>(k, v). js_lower k \<noteq> ''set-cookie'') hs"

text \<open>
  \<open>createCacheStores\<close>: the routes with an enabled cache share the Redis client if there is one, else
  each gets a memory store of its own.
\<close>

datatype cache_backend = LocalCache entries | SharedCache

definition createCacheStores :: "gateway_config \<Rightarrow> bool \<Rightarrow> (string \<times> cache_backend) list" where
  "createCacheStores config shared =
     foldl (\<lambda>stores route. AList.update (route_id route) (if shared then SharedCache else LocalCache []) stores) []
       (filter (\<lambda>route. case cache route of Some c \<Rightarrow> cache_enabled c | None \<Rightarrow> False) (routes config))"

section \<open>What a key determines\<close>

text \<open>
  What is used of the hash: its output is hexadecimal (in particular has no colon), and it does not
  collide on the few texts a statement is about.
\<close>

definition hex_output :: "(string \<Rightarrow> string) \<Rightarrow> bool" where
  "hex_output h \<longleftrightarrow> (\<forall>s. CHR '':'' \<notin> set (h s))"

definition no_collision :: "(string \<Rightarrow> string) \<Rightarrow> string \<Rightarrow> string \<Rightarrow> bool" where
  "no_collision h a b \<longleftrightarrow> (h a = h b \<longrightarrow> a = b)"

lemma colon_split:
  "CHR '':'' \<notin> set a \<Longrightarrow> CHR '':'' \<notin> set b \<Longrightarrow> a @ '':'' @ x = b @ '':'' @ y \<Longrightarrow> a = b \<and> x = y"
  by (induction a arbitrary: b) (auto simp: Cons_eq_append_conv append_eq_Cons_conv)

abbreviation variant_text :: "route_config \<Rightarrow> string \<Rightarrow> string \<Rightarrow> headers \<Rightarrow> string option \<Rightarrow> string option \<Rightarrow> string" where
  "variant_text r method url hs ten host \<equiv> js_join ''|'' (cache_variant r method (url_query url) hs ten host)"

lemma buildCacheKey_parts:
  assumes "hex_output h" "no_collision h (url_path url) (url_path url')"
    "no_collision h (variant_text r method url hs ten host) (variant_text r' method' url' hs' ten' host')"
    and "buildCacheKey h r method url hs ten host = buildCacheKey h r' method' url' hs' ten' host'"
  shows "route_id r = route_id r' \<and> url_path url = url_path url'
    \<and> variant_text r method url hs ten host = variant_text r' method' url' hs' ten' host'"
proof -
  have eq: "encodeURIComponent (route_id r) @ '':'' @ h (url_path url) @ '':'' @ h (variant_text r method url hs ten host)
      = encodeURIComponent (route_id r') @ '':'' @ h (url_path url') @ '':'' @ h (variant_text r' method' url' hs' ten' host')"
    using assms(4) by (simp add: buildCacheKey_def cacheKeyPrefix_def Let_def)
  note first = colon_split [OF encode_no_colon encode_no_colon eq]
  have "h (url_path url) = h (url_path url')
      \<and> h (variant_text r method url hs ten host) = h (variant_text r' method' url' hs' ten' host')"
    using colon_split assms(1) first unfolding hex_output_def by blast
  then show ?thesis
    using first assms(2,3) by (simp add: encodeURIComponent_inj no_collision_def)
qed

definition separator_free :: "string list \<Rightarrow> bool" where
  "separator_free ps \<longleftrightarrow> (\<forall>p \<in> set ps. CHR ''|'' \<notin> set p)"


text \<open>
  Without that proviso it fails. With \<open>varyBy: [accept]\<close>, tenant \<open>b\<close> asking for \<open>/i?q\<close> with a
  crafted \<open>Accept\<close> header is served, from the cache, the response tenant \<open>a\<close> got for \<open>/i\<close> with a
  crafted query: their keys are equal whatever the hash.
\<close>

theorem buildCacheKey_collision:
  "cache_varyBy c = [''accept''] \<Longrightarrow>
   buildCacheKey h ((bare_route ''r'')\<lparr>cache := Some c\<rparr>) ''GET'' ''/i?q|tenant:b||accept='' [(''accept'', HText [])]
       (Some ''a'') None
     = buildCacheKey h ((bare_route ''r'')\<lparr>cache := Some c\<rparr>) ''GET'' ''/i?q'' [(''accept'', HText ''|tenant:a||accept='')]
       (Some ''b'') None"
  by (simp add: buildCacheKey_def cache_variant_def vary_part_def header_text_def url_path_def url_query_def
      js_lower_def lower_char_def)

section \<open>Purging\<close>

lemma key_has_prefix:
  assumes "hex_output h" "\<forall>p. path = Some p \<longrightarrow> no_collision h (url_path url) p"
  shows "js_starts_with (buildCacheKey h r method url hs ten host) (cacheKeyPrefix h rid path)
    \<longleftrightarrow> route_id r = rid \<and> (\<forall>p. path = Some p \<longrightarrow> url_path url = p)"
proof -
  let ?v = "h (js_join ''|'' (cache_variant r method (url_query url) hs ten host))"
  have h: "CHR '':'' \<notin> set (h s)" for s using assms(1) by (simp add: hex_output_def)
  have key: "buildCacheKey h r method url hs ten host
      = ''cache:'' @ encodeURIComponent (route_id r) @ '':'' @ h (url_path url) @ '':'' @ ?v"
    by (simp add: buildCacheKey_def cacheKeyPrefix_def Let_def)
  show ?thesis
  proof (cases path)
    case None
    have "js_starts_with (buildCacheKey h r method url hs ten host) (cacheKeyPrefix h rid path)
        \<longleftrightarrow> (\<exists>rest. encodeURIComponent (route_id r) @ '':'' @ h (url_path url) @ '':'' @ ?v
              = encodeURIComponent rid @ '':'' @ rest)"
      by (simp add: key None cacheKeyPrefix_def js_starts_with_iff)
    also have "\<dots> \<longleftrightarrow> encodeURIComponent (route_id r) = encodeURIComponent rid"
      using colon_split [OF encode_no_colon encode_no_colon] by blast
    finally show ?thesis by (simp add: None encodeURIComponent_inj)
  next
    case (Some p)
    have "js_starts_with (buildCacheKey h r method url hs ten host) (cacheKeyPrefix h rid path)
        \<longleftrightarrow> (\<exists>rest. encodeURIComponent (route_id r) @ '':'' @ h (url_path url) @ '':'' @ ?v
              = encodeURIComponent rid @ '':'' @ h p @ '':'' @ rest)"
      by (simp add: key Some cacheKeyPrefix_def js_starts_with_iff)
    also have "\<dots> \<longleftrightarrow> encodeURIComponent (route_id r) = encodeURIComponent rid \<and> h (url_path url) = h p"
      using colon_split [OF encode_no_colon encode_no_colon] colon_split [OF h h] by metis
    finally show ?thesis using assms(2) by (auto simp: Some encodeURIComponent_inj no_collision_def)
  qed
qed

text \<open>
  Purging a route, or one path of it, removes the cached responses of that route or path and no
  others: a key has the prefix exactly when it was built for the route and, if given, the path.
\<close>

theorem purge_scope:
  assumes "hex_output h" "\<forall>p. path = Some p \<longrightarrow> no_collision h (url_path url) p"
  shows "js_starts_with (buildCacheKey h r method url hs ten host) (cacheKeyPrefix h rid path)
    \<longleftrightarrow> route_id r = rid \<and> (\<forall>p. path = Some p \<longrightarrow> url_path url = p)"
  using key_has_prefix [OF assms] by blast

text \<open>No response is stored with a cookie.\<close>

lemma stripUncacheableHeaders_cookie:
  "(k, v) \<in> set (stripUncacheableHeaders hs) \<longleftrightarrow> (k, v) \<in> set hs \<and> js_lower k \<noteq> ''set-cookie''"
  by (auto simp: stripUncacheableHeaders_def)

section \<open>Witnesses\<close>

text \<open>A colon-free function without collisions stands for the hash.\<close>

abbreviation cached_route :: route_config where
  "cached_route \<equiv> (bare_route ''r'')\<lparr>cache := Some \<lparr>cache_enabled = True, cache_ttlSec = 60, cache_varyBy = [''Accept'']\<rparr>\<rparr>"

lemma encode_hash: "hex_output encodeURIComponent" "no_collision encodeURIComponent a b"
  by (simp_all add: hex_output_def no_collision_def encode_no_colon encodeURIComponent_inj)


lemma buildCacheKey_collision_witness:
  "buildCacheKey encodeURIComponent ((bare_route ''r'')\<lparr>cache := Some \<lparr>cache_enabled = True, cache_ttlSec = 60,
       cache_varyBy = [''accept'']\<rparr>\<rparr>) ''GET'' ''/i?q|tenant:b||accept='' [(''accept'', HText [])] (Some ''a'') None
     = buildCacheKey encodeURIComponent ((bare_route ''r'')\<lparr>cache := Some \<lparr>cache_enabled = True, cache_ttlSec = 60,
       cache_varyBy = [''accept'']\<rparr>\<rparr>) ''GET'' ''/i?q'' [(''accept'', HText ''|tenant:a||accept='')] (Some ''b'') None"
  by (rule buildCacheKey_collision) simp

lemma purge_scope_witness:
  "js_starts_with (buildCacheKey encodeURIComponent cached_route ''GET'' ''/i?q'' [] None None)
     (cacheKeyPrefix encodeURIComponent ''r'' (Some ''/i''))"
  using purge_scope [of encodeURIComponent "Some ''/i''" "''/i?q''" cached_route "''GET''" "[]" None None "''r''"]
  by (simp add: encode_hash url_path_def)

end
