(* ===== verification/Forward.thy ===== *)
theory Forward
  imports Config Http
begin

text \<open>
  What is sent upstream: \<open>proxy/upstreamUrl.ts\<close> (the URL), \<open>proxy/transform.ts\<close> and \<open>proxy/forward.ts\<close>
  (the headers, the mapping of errors). The HTTP client is a parameter. Of the platform's URL parser
  the model takes the origin of the configured target, and reads the authority of a URL the way the
  parser does for \<open>http\<close> and \<open>https\<close>: what follows \<open>://\<close> up to the first of \<open>/ \ ? #\<close>.
\<close>

section \<open>The upstream URL\<close>

text \<open>\<open>origin target\<close> is \<open>new URL(target).origin\<close>.\<close>

definition joinUpstreamUrl :: "(string \<Rightarrow> string) \<Rightarrow> string \<Rightarrow> string \<Rightarrow> string" where
  "joinUpstreamUrl origin target path =
     origin target @ (if js_starts_with path ''/'' then path else ''/'' @ path)"

definition ends_authority :: "char \<Rightarrow> bool" where
  "ends_authority c \<longleftrightarrow> c \<in> {CHR ''/'', CHR 0x5C, CHR ''?'', CHR ''#''}"

fun after_scheme :: "string \<Rightarrow> string" where
  "after_scheme [] = []"
| "after_scheme (c # cs) = (if js_starts_with (c # cs) ''://'' then drop 3 (c # cs) else after_scheme cs)"

definition url_authority :: "string \<Rightarrow> string" where
  "url_authority u = takeWhile (\<lambda>c. \<not> ends_authority c) (after_scheme u)"

text \<open>An origin as the platform serialises it: a scheme, \<open>://\<close>, and a host with an optional port.\<close>

definition origin_form :: "string \<Rightarrow> string \<Rightarrow> string \<Rightarrow> bool" where
  "origin_form o_url scheme host \<longleftrightarrow> o_url = scheme @ ''://'' @ host \<and> CHR '':'' \<notin> set scheme \<and> host \<noteq> []
     \<and> (\<forall>c \<in> set host. \<not> ends_authority c \<and> c \<noteq> CHR ''@'')"

lemma after_scheme_append: "CHR '':'' \<notin> set scheme \<Longrightarrow> after_scheme (scheme @ ''://'' @ rest) = rest"
proof (induction scheme)
  case Nil
  then show ?case by (simp add: js_starts_with_def)
next
  case (Cons c cs)
  then have "\<not> js_starts_with ((c # cs) @ ''://'' @ rest) ''://''" by (auto simp: js_starts_with_def)
  with Cons show ?case by simp
qed

text \<open>
  Whatever path and query the client sends, \<open>//evil/x\<close> and \<open>@evil\<close> included, the request goes to the
  host the route names: the authority of the joined URL is that of the target's origin.
\<close>

theorem joinUpstreamUrl_host:
  assumes "origin_form (origin target) scheme host"
  shows "url_authority (joinUpstreamUrl origin target path) = host"
proof -
  have h: "takeWhile (\<lambda>c. \<not> ends_authority c) (host @ c # rest) = host" if "ends_authority c" for c rest
    using assms that by (subst takeWhile_append2) (auto simp: origin_form_def)
  have slash: "ends_authority (CHR ''/'')" by (simp add: ends_authority_def)
  obtain rest where "(if js_starts_with path ''/'' then path else ''/'' @ path) = CHR ''/'' # rest"
    by (cases "js_starts_with path ''/''") (auto simp: js_starts_with_iff)
  then have "joinUpstreamUrl origin target path = scheme @ ''://'' @ host @ CHR ''/'' # rest"
    using assms unfolding joinUpstreamUrl_def origin_form_def by simp
  moreover have "CHR '':'' \<notin> set scheme" using assms by (simp add: origin_form_def)
  ultimately show ?thesis
    using after_scheme_append [of scheme "host @ CHR ''/'' # rest"] h [OF slash] by (simp add: url_authority_def)
qed

text \<open>The path arrives as sent.\<close>

lemma joinUpstreamUrl_path:
  "js_starts_with path ''/'' \<Longrightarrow> joinUpstreamUrl origin target path = origin target @ path"
  by (simp add: joinUpstreamUrl_def)

section \<open>Headers\<close>

definition HOP_BY_HOP_HEADERS :: "string set" where
  "HOP_BY_HOP_HEADERS = {''connection'', ''keep-alive'', ''proxy-authenticate'', ''proxy-authorization'', ''te'',
     ''trailer'', ''transfer-encoding'', ''upgrade''}"

text \<open>\<open>applyRequestTransform\<close>: removals, then settings, on a copy.\<close>

definition applyRequestTransform :: "route_config \<Rightarrow> headers \<Rightarrow> headers" where
  "applyRequestTransform route hs =
     (case transform_req route of
        None \<Rightarrow> hs
      | Some t \<Rightarrow>
          foldl (\<lambda>hs (name, v). AList.update (js_lower name) (HText v) hs)
            (foldl (\<lambda>hs name. AList.delete (js_lower name) hs) hs (removeHeaders t))
            (setHeaders t))"

text \<open>
  \<open>buildOutgoingHeaders\<close>. An empty \<open>x-forwarded-for\<close> is falsy; a list of values is joined.
\<close>

definition forwarded_for :: "headers \<Rightarrow> string \<Rightarrow> string" where
  "forwarded_for hs clientIp =
     (case map_of hs ''x-forwarded-for'' of
        Some (HTexts vs) \<Rightarrow> js_join '', '' vs @ '', '' @ clientIp
      | Some (HText v) \<Rightarrow> if v = [] then clientIp else v @ '', '' @ clientIp
      | _ \<Rightarrow> clientIp)"

definition buildOutgoingHeaders :: "headers \<Rightarrow> string \<Rightarrow> string \<Rightarrow> headers" where
  "buildOutgoingHeaders hs clientIp requestId =
     (let result = filter (\<lambda>(k, v). k \<noteq> ''host'' \<and> k \<notin> HOP_BY_HOP_HEADERS) hs;
          result = AList.update ''x-forwarded-for'' (HText (forwarded_for hs clientIp)) result;
          result = AList.update ''x-forwarded-proto'' (HText ''http'') result;
          result = AList.update ''x-request-id'' (HText requestId) result
      in case map_of hs ''host'' of
           Some (HText h) \<Rightarrow> AList.update ''x-forwarded-host'' (HText h) result
         | _ \<Rightarrow> result)"

definition stripHopByHop :: "headers \<Rightarrow> headers" where
  "stripHopByHop hs = filter (\<lambda>(k, v). k \<notin> HOP_BY_HOP_HEADERS) hs"

lemma map_of_strip: "map_of (filter (\<lambda>(k, v). P k) hs) k = (if P k then map_of hs k else None)"
  by (induction hs) auto

lemma hop_names: "''x-forwarded-for'' \<notin> HOP_BY_HOP_HEADERS" "''x-forwarded-proto'' \<notin> HOP_BY_HOP_HEADERS"
  "''x-request-id'' \<notin> HOP_BY_HOP_HEADERS" "''x-forwarded-host'' \<notin> HOP_BY_HOP_HEADERS" "''host'' \<notin> HOP_BY_HOP_HEADERS"
  by (simp_all add: HOP_BY_HOP_HEADERS_def)

lemma buildOutgoing_get:
  "map_of (buildOutgoingHeaders hs ip rid) k =
     (if k \<in> HOP_BY_HOP_HEADERS \<or> k = ''host'' then None
      else if k = ''x-forwarded-for'' then Some (HText (forwarded_for hs ip))
      else if k = ''x-forwarded-proto'' then Some (HText ''http'')
      else if k = ''x-request-id'' then Some (HText rid)
      else if k = ''x-forwarded-host'' \<and> (\<exists>h. map_of hs ''host'' = Some (HText h)) then map_of hs ''host''
      else map_of hs k)"
  using hop_names
  by (auto simp: buildOutgoingHeaders_def Let_def update_conv' map_of_strip split: option.splits header_value.splits)

text \<open>
  The upstream never sees a hop-by-hop header or the client's \<open>Host\<close>; \<open>X-Forwarded-For\<close> always ends
  with the address the gateway saw, whatever the client put there; the request id and protocol are the
  gateway's; and every other header arrives unchanged.
\<close>

theorem buildOutgoingHeaders_correct:
  "map_of (buildOutgoingHeaders hs ip rid) k =
     (if k \<in> HOP_BY_HOP_HEADERS \<or> k = ''host'' then None
      else if k = ''x-forwarded-for'' then Some (HText (forwarded_for hs ip))
      else if k = ''x-forwarded-proto'' then Some (HText ''http'')
      else if k = ''x-request-id'' then Some (HText rid)
      else if k = ''x-forwarded-host'' \<and> (\<exists>h. map_of hs ''host'' = Some (HText h)) then map_of hs ''host''
      else map_of hs k)
   \<and> (\<exists>before. forwarded_for hs ip = before @ ip)"
  using buildOutgoing_get by (auto simp: forwarded_for_def split: option.splits header_value.splits)

lemma stripHopByHop_correct:
  "map_of (stripHopByHop hs) k = (if k \<in> HOP_BY_HOP_HEADERS then None else map_of hs k)"
  by (auto simp: stripHopByHop_def map_of_strip)

lemma foldl_delete: "map_of (foldl (\<lambda>hs name. AList.delete (js_lower name) hs) hs ns) k
    = (if k \<in> js_lower ` set ns then None else map_of hs k)"
  by (induction ns arbitrary: hs) (auto simp: delete_conv')

lemma foldl_update_absent:
  "k \<notin> js_lower ` fst ` set ss \<Longrightarrow>
     map_of (foldl (\<lambda>hs (name, v). AList.update (js_lower name) (HText v) hs) hs ss) k = map_of hs k"
  by (induction ss arbitrary: hs) (auto simp: update_conv')

lemma foldl_update_last:
  "js_lower name = k \<Longrightarrow> k \<notin> js_lower ` fst ` set after \<Longrightarrow>
     map_of (foldl (\<lambda>hs (name, v). AList.update (js_lower name) (HText v) hs) hs (before @ (name, v) # after)) k
       = Some (HText v)"
  using foldl_update_absent [of k after] by (simp add: update_conv')

text \<open>
  \<open>transform.request\<close> makes a removed header disappear and a set header arrive with the configured
  value, setting winning over removal and names being insensitive to case; other headers are untouched.
\<close>

theorem applyRequestTransform_correct:
  assumes "transform_req route = Some t"
  shows "k \<notin> js_lower ` fst ` set (setHeaders t) \<Longrightarrow>
      map_of (applyRequestTransform route hs) k
        = (if k \<in> js_lower ` set (removeHeaders t) then None else map_of hs k)"
    and "setHeaders t = before @ (name, v) # after \<Longrightarrow> js_lower name \<notin> js_lower ` fst ` set after \<Longrightarrow>
      map_of (applyRequestTransform route hs) (js_lower name) = Some (HText v)"
  using assms
  by (simp_all add: applyRequestTransform_def foldl_update_absent foldl_delete foldl_update_last del: foldl_append)

section \<open>forwardRequest\<close>

text \<open>
  What the HTTP client does: answer, time out waiting for headers or body, let the error of the
  request's own body stream through (\<open>limitBodySize\<close>), or fail otherwise. The body of the answer is
  the bytes it delivers, or \<open>None\<close> when reading it fails.
\<close>

record forward_result =
  fr_status :: nat
  fr_headers :: headers
  fr_body :: "string option"

datatype client_outcome = CResponse forward_result | CHeadersTimeout | CBodyTimeout | CBodyTooLarge | CFailure string

datatype forward_failure = UpstreamTimeoutError | BodyTooLargeError | ClientFailure string

record forward_options =
  fo_method :: string
  fo_headers :: headers
  fo_timeoutMs :: number
  fo_bodyTimeoutMs :: "number option"
  fo_clientIp :: string
  fo_requestId :: string

text \<open>\<open>client url method headers headersTimeout bodyTimeout\<close> is the call of the client.\<close>

definition forwardRequest ::
  "(string \<Rightarrow> string \<Rightarrow> headers \<Rightarrow> number \<Rightarrow> number \<Rightarrow> client_outcome) \<Rightarrow> (string \<Rightarrow> string) \<Rightarrow> string \<Rightarrow> string
    \<Rightarrow> forward_options \<Rightarrow> forward_failure + forward_result" where
  "forwardRequest client origin target path opts =
     (case client (joinUpstreamUrl origin target path) (fo_method opts)
             (buildOutgoingHeaders (fo_headers opts) (fo_clientIp opts) (fo_requestId opts))
             (fo_timeoutMs opts)
             (case fo_bodyTimeoutMs opts of Some b \<Rightarrow> b | None \<Rightarrow> fo_timeoutMs opts) of
        CResponse r \<Rightarrow> Inr (r\<lparr>fr_headers := stripHopByHop (fr_headers r)\<rparr>)
      | CHeadersTimeout \<Rightarrow> Inl UpstreamTimeoutError
      | CBodyTimeout \<Rightarrow> Inl UpstreamTimeoutError
      | CBodyTooLarge \<Rightarrow> Inl BodyTooLargeError
      | CFailure e \<Rightarrow> Inl (ClientFailure e))"

text \<open>
  A response comes back with the upstream's status and without its hop-by-hop headers, a timeout of
  headers or body as \<open>UpstreamTimeoutError\<close>, and any other failure as it is.
\<close>

theorem forwardRequest_result:
  "(\<forall>r. forwardRequest client origin target path opts = Inr r \<longrightarrow>
      (\<forall>k \<in> HOP_BY_HOP_HEADERS. map_of (fr_headers r) k = None))
   \<and> (\<forall>e. forwardRequest (\<lambda>_ _ _ _ _. CFailure e) origin target path opts = Inl (ClientFailure e))
   \<and> forwardRequest (\<lambda>_ _ _ _ _. CHeadersTimeout) origin target path opts = Inl UpstreamTimeoutError"
  by (auto simp: forwardRequest_def stripHopByHop_correct split: client_outcome.splits)

section \<open>Witnesses\<close>

lemma joinUpstreamUrl_host_witness:
  "url_authority (joinUpstreamUrl (\<lambda>_. ''http://u:80'') ''http://u:80/x'' ''//evil/x'') = ''u:80''
    \<and> url_authority (joinUpstreamUrl (\<lambda>_. ''http://u:80'') ''http://u:80/x'' ''@evil'') = ''u:80''"
  using joinUpstreamUrl_host [of "\<lambda>_. ''http://u:80''" "''http://u:80/x''" "''http''" "''u:80''" "''//evil/x''"]
    joinUpstreamUrl_host [of "\<lambda>_. ''http://u:80''" "''http://u:80/x''" "''http''" "''u:80''" "''@evil''"]
  by (simp add: origin_form_def ends_authority_def)

end
