(* ===== verification/Balancer.thy ===== *)
theory Balancer
  imports Config
begin

text \<open>
  \<open>proxy/balancer.ts\<close>: the targets of a route, their health and breakers, and the round-robin choice.
  \<open>Date.now()\<close> is an argument; the outcome of a health probe is an argument of \<open>probe\<close>.
\<close>

section \<open>State\<close>

record target_state =
  t_url :: string
  t_healthy :: bool
  t_breaker :: "breaker option"

record balancer =
  b_targets :: "target_state list"
  b_cursor :: nat
  b_options :: breaker_options

text \<open>The options of the breakers are only read where a breaker exists.\<close>

definition createBalancer :: "route_config \<Rightarrow> balancer" where
  "createBalancer route =
     \<lparr>b_targets = map (\<lambda>url. \<lparr>t_url = url, t_healthy = True,
         t_breaker = map_option (\<lambda>_. new_breaker) (circuitBreaker route)\<rparr>) (targets (upstream route)),
      b_cursor = 0,
      b_options = (case circuitBreaker route of Some opts \<Rightarrow> opts | None \<Rightarrow> \<lparr>failureThreshold = 1, resetTimeoutMs = 1\<rparr>)\<rparr>"

section \<open>Operations\<close>

text \<open>The loop of \<open>pickTarget\<close> from step \<open>i\<close>, with \<open>k\<close> targets left to look at.\<close>

fun pick_loop :: "number \<Rightarrow> nat \<Rightarrow> nat \<Rightarrow> balancer \<Rightarrow> string option \<times> balancer" where
  "pick_loop now 0 i b = (None, b)"
| "pick_loop now (Suc k) i b =
     (let n = length (b_targets b); index = (b_cursor b + i) mod n; target = b_targets b ! index
      in if \<not> t_healthy target then pick_loop now k (Suc i) b
         else case t_breaker target of
           None \<Rightarrow> (Some (t_url target), b\<lparr>b_cursor := (index + 1) mod n\<rparr>)
         | Some br \<Rightarrow>
             (let (ok, br') = canRequest (b_options b) now br;
                  b' = b\<lparr>b_targets := (b_targets b)[index := target\<lparr>t_breaker := Some br'\<rparr>]\<rparr>
              in if ok then (Some (t_url target), b'\<lparr>b_cursor := (index + 1) mod n\<rparr>)
                 else pick_loop now k (Suc i) b'))"

definition pickTarget :: "number \<Rightarrow> balancer \<Rightarrow> string option \<times> balancer" where
  "pickTarget now b = pick_loop now (length (b_targets b)) 0 b"

text \<open>\<open>targets.find((target) => target.url === url)?.breaker?.record...()\<close>.\<close>

fun update_breaker :: "string \<Rightarrow> (breaker \<Rightarrow> breaker) \<Rightarrow> target_state list \<Rightarrow> target_state list" where
  "update_breaker url f [] = []"
| "update_breaker url f (t # ts) =
     (if t_url t = url then t\<lparr>t_breaker := map_option f (t_breaker t)\<rparr> # ts else t # update_breaker url f ts)"

definition reportSuccess :: "string \<Rightarrow> balancer \<Rightarrow> balancer" where
  "reportSuccess url b = b\<lparr>b_targets := update_breaker url recordSuccess (b_targets b)\<rparr>"

definition reportFailure :: "number \<Rightarrow> string \<Rightarrow> balancer \<Rightarrow> balancer" where
  "reportFailure now url b = b\<lparr>b_targets := update_breaker url (recordFailure (b_options b) now) (b_targets b)\<rparr>"

definition getTargetStates :: "balancer \<Rightarrow> (string \<times> bool \<times> circuit_state option) list" where
  "getTargetStates b = map (\<lambda>t. (t_url t, t_healthy t, map_option getState (t_breaker t))) (b_targets b)"

text \<open>A probe answers with a status code, or fails.\<close>

definition probe :: "nat option \<Rightarrow> target_state \<Rightarrow> target_state" where
  "probe answer target = target\<lparr>t_healthy := (case answer of Some st \<Rightarrow> 200 \<le> st \<and> st < 400 | None \<Rightarrow> False)\<rparr>"

definition probe_target :: "nat \<Rightarrow> nat option \<Rightarrow> balancer \<Rightarrow> balancer" where
  "probe_target i answer b =
     b\<lparr>b_targets := (if i < length (b_targets b) then (b_targets b)[i := probe answer (b_targets b ! i)] else b_targets b)\<rparr>"

section \<open>The choice\<close>

text \<open>A refused request leaves the breaker as it was.\<close>

lemma canRequest_refused: "canRequest opts now br = (False, br') \<Longrightarrow> br' = br"
  by (auto simp: canRequest_def Let_def split: circuit_state.splits if_splits)

definition available :: "number \<Rightarrow> balancer \<Rightarrow> nat \<Rightarrow> bool" where
  "available now b j \<longleftrightarrow> t_healthy (b_targets b ! j)
     \<and> (case t_breaker (b_targets b ! j) of None \<Rightarrow> True | Some br \<Rightarrow> fst (canRequest (b_options b) now br))"

definition position :: "balancer \<Rightarrow> nat \<Rightarrow> nat" where
  "position b i = (b_cursor b + i) mod length (b_targets b)"

text \<open>What choosing the target at position \<open>j\<close> does: its breaker has granted, the cursor moves past it.\<close>

definition chosen :: "number \<Rightarrow> nat \<Rightarrow> balancer \<Rightarrow> balancer" where
  "chosen now j b =
     b\<lparr>b_targets := (b_targets b)[j := (b_targets b ! j)
          \<lparr>t_breaker := map_option (\<lambda>br. snd (canRequest (b_options b) now br)) (t_breaker (b_targets b ! j))\<rparr>],
       b_cursor := (j + 1) mod length (b_targets b)\<rparr>"

lemma same_breaker: "b\<lparr>b_targets := (b_targets b)[j := (b_targets b ! j)\<lparr>t_breaker := t_breaker (b_targets b ! j)\<rparr>]\<rparr> = b"
  by simp

lemma chosen_free:
  assumes "t_breaker (b_targets b ! j) = None"
  shows "chosen now j b = b\<lparr>b_cursor := (j + 1) mod length (b_targets b)\<rparr>"
  using same_breaker [of b j] unfolding chosen_def assms option.map by metis

lemma pick_loop_free:
  assumes "t_healthy (b_targets b ! position b i)" "t_breaker (b_targets b ! position b i) = None"
  shows "pick_loop now (Suc k) i b = (Some (t_url (b_targets b ! position b i)), chosen now (position b i) b)"
  using assms by (simp add: chosen_free position_def Let_def)

lemma pick_loop_unhealthy:
  "\<not> t_healthy (b_targets b ! position b i) \<Longrightarrow> pick_loop now (Suc k) i b = pick_loop now k (Suc i) b"
  by (simp add: position_def Let_def)

lemma pick_loop_breaker:
  assumes "t_healthy (b_targets b ! position b i)" "t_breaker (b_targets b ! position b i) = Some br"
  shows "pick_loop now (Suc k) i b =
    (if fst (canRequest (b_options b) now br)
     then (Some (t_url (b_targets b ! position b i)), chosen now (position b i) b)
     else pick_loop now k (Suc i) b)"
proof (cases "fst (canRequest (b_options b) now br)")
  case True
  with assms show ?thesis by (simp add: chosen_def position_def Let_def case_prod_beta)
next
  case False
  then have r: "canRequest (b_options b) now br = (False, br)" by (metis canRequest_refused prod.collapse)
  have "b\<lparr>b_targets := (b_targets b)[position b i := (b_targets b ! position b i)\<lparr>t_breaker := Some br\<rparr>]\<rparr> = b"
    using same_breaker [of b "position b i"] unfolding assms(2) .
  note same = this
  show ?thesis
    unfolding pick_loop.simps Let_def position_def [symmetric] assms(2) option.case r prod.case if_False same
    using assms(1) by simp
qed

lemma pick_loop_spec:
  "pick_loop now k i b = (r, b') \<Longrightarrow> 0 < length (b_targets b) \<Longrightarrow>
     (r = None \<and> b' = b \<and> (\<forall>j < k. \<not> available now b (position b (i + j))))
     \<or> (\<exists>j < k. available now b (position b (i + j)) \<and> (\<forall>j' < j. \<not> available now b (position b (i + j')))
          \<and> r = Some (t_url (b_targets b ! position b (i + j))) \<and> b' = chosen now (position b (i + j)) b)"
proof (induction k arbitrary: i)
  case (Suc k)
  let ?p = "position b i" and ?t = "b_targets b ! position b i"
  show ?case
  proof (cases "available now b ?p")
    case True
    then have "r = Some (t_url ?t) \<and> b' = chosen now ?p b"
      using Suc.prems pick_loop_free [of b i now k] pick_loop_breaker [of b i _ now k]
      by (cases "t_breaker ?t") (auto simp: available_def simp del: pick_loop.simps)
    with True show ?thesis by (intro disjI2 exI [of _ 0]) simp
  next
    case False
    then have "pick_loop now k (Suc i) b = (r, b')"
      using Suc.prems pick_loop_unhealthy [of b i now k] pick_loop_breaker [of b i _ now k]
      by (cases "t_breaker ?t"; cases "t_healthy ?t") (auto simp: available_def simp del: pick_loop.simps)
    from Suc.IH [OF this Suc.prems(2)] show ?thesis
    proof (elim disjE conjE exE)
      assume "r = None" "b' = b" "\<forall>j<k. \<not> available now b (position b (Suc i + j))"
      with False show ?thesis by (intro disjI1) (auto simp: less_Suc_eq_0_disj)
    next
      fix j
      assume "j < k" "available now b (position b (Suc i + j))"
        "\<forall>j'<j. \<not> available now b (position b (Suc i + j'))"
        "r = Some (t_url (b_targets b ! position b (Suc i + j)))" "b' = chosen now (position b (Suc i + j)) b"
      with False show ?thesis
        by (intro disjI2 exI [of _ "Suc j"]) (auto simp: less_Suc_eq_0_disj)
    qed
  qed
qed simp

lemma pickTarget_first:
  assumes "b_targets b \<noteq> []" "pickTarget now b = (r, b')"
  shows "(r = None \<and> b' = b \<and> (\<forall>j < length (b_targets b). \<not> available now b (position b j)))
    \<or> (\<exists>j < length (b_targets b). available now b (position b j)
        \<and> (\<forall>j' < j. \<not> available now b (position b j'))
        \<and> r = Some (t_url (b_targets b ! position b j)) \<and> b' = chosen now (position b j) b)"
  using pick_loop_spec [of now "length (b_targets b)" 0 b r b'] assms by (simp add: pickTarget_def)

text \<open>Every target is looked at.\<close>

lemma position_surj:
  assumes "i < length (b_targets b)"
  shows "\<exists>j < length (b_targets b). position b j = i"
proof -
  let ?n = "length (b_targets b)" and ?c = "b_cursor b mod length (b_targets b)"
  let ?j = "(i + (?n - ?c)) mod ?n"
  have c: "?c < ?n" using assms by (intro mod_less_divisor) auto
  have "position b ?j = (b_cursor b + (i + (?n - ?c))) mod ?n"
    unfolding position_def by (rule mod_add_right_eq)
  also have "\<dots> = (?c + (i + (?n - ?c))) mod ?n" by (simp only: mod_add_left_eq)
  also have "\<dots> = (i + ?n) mod ?n" using c by (simp add: add.left_commute)
  finally have "position b ?j = i" using assms by simp
  moreover have "?j < ?n" using assms by (intro mod_less_divisor) auto
  ultimately show ?thesis by blast
qed


section \<open>Round robin\<close>

text \<open>A series of picks with nothing in between.\<close>

fun picks :: "number \<Rightarrow> nat \<Rightarrow> balancer \<Rightarrow> string option list" where
  "picks now 0 b = []"
| "picks now (Suc k) b = (let (r, b') = pickTarget now b in r # picks now k b')"

definition all_free :: "balancer \<Rightarrow> bool" where
  "all_free b \<longleftrightarrow> (\<forall>t \<in> set (b_targets b). t_healthy t \<and> t_breaker t = None)"

text \<open>
  With every target available the picks go round: the \<open>i\<close>-th pick is the \<open>i\<close>-th target from the
  cursor, so any \<open>length targets\<close> picks in a row reach every target once.
\<close>

theorem pickTarget_round_robin:
  assumes "b_targets b \<noteq> []" "all_free b" "b_cursor b < length (b_targets b)"
  shows "picks now k b = map (\<lambda>i. Some (t_url (b_targets b ! ((b_cursor b + i) mod length (b_targets b))))) [0..<k]"
  using assms
proof (induction k arbitrary: b)
  case (Suc k)
  let ?n = "length (b_targets b)" and ?b = "b\<lparr>b_cursor := (b_cursor b + 1) mod length (b_targets b)\<rparr>"
  have free: "t_healthy (b_targets b ! b_cursor b)" "t_breaker (b_targets b ! b_cursor b) = None"
    using Suc.prems by (auto simp: all_free_def)
  obtain m where m: "?n = Suc m" using Suc.prems(1) by (cases ?n) auto
  have pick: "pickTarget now b = (Some (t_url (b_targets b ! b_cursor b)), ?b)"
    unfolding pickTarget_def m using free Suc.prems(3) by (simp add: Let_def m)
  have "picks now k ?b = map (\<lambda>i. Some (t_url (b_targets b ! (((b_cursor b + 1) mod ?n + i) mod ?n)))) [0..<k]"
    using Suc.IH [of ?b] Suc.prems by (simp add: all_free_def)
  also have "\<dots> = map (\<lambda>i. Some (t_url (b_targets b ! ((b_cursor b + i) mod ?n)))) [1..<Suc k]"
    by (simp add: map_Suc_upt [symmetric] mod_add_left_eq o_def del: upt_Suc map_Suc_upt)
  finally have "picks now (Suc k) b =
      Some (t_url (b_targets b ! b_cursor b)) # map (\<lambda>i. Some (t_url (b_targets b ! ((b_cursor b + i) mod ?n)))) [1..<Suc k]"
    using pick by simp
  moreover have "[0..<Suc k] = 0 # [1..<Suc k]" by (simp add: upt_conv_Cons)
  ultimately show ?case using Suc.prems(3) by simp
qed simp

section \<open>Witnesses\<close>

abbreviation plain_target :: "string \<Rightarrow> bool \<Rightarrow> target_state" where
  "plain_target url up \<equiv> \<lparr>t_url = url, t_healthy = up, t_breaker = None\<rparr>"

abbreviation three_targets :: "bool \<Rightarrow> balancer" where
  "three_targets up \<equiv> \<lparr>b_targets = [plain_target ''a'' True, plain_target ''b'' up, plain_target ''c'' True],
     b_cursor = 1, b_options = hasty\<rparr>"


lemma pickTarget_round_robin_witness:
  "picks 0 3 (three_targets True) = [Some ''b'', Some ''c'', Some ''a'']"
proof -
  have l: "[0..<3] = [0, 1, 2::nat]" by code_simp
  from pickTarget_round_robin [of "three_targets True" 0 3] show ?thesis
    unfolding l by (simp add: all_free_def)
qed

end
