(* ===== verification/Retry.thy ===== *)
theory Retry
  imports Balancer Forward
begin

text \<open>
  \<open>proxy/retry.ts\<close>: choosing a target, sending, reporting to the balancer, and trying again. What the
  code awaits is the environment: the outcome of each attempt, the clock, the random numbers, and
  what other requests and probes do to the shared balancer while this one waits.
\<close>

section \<open>The loop\<close>

definition isIdempotentMethod :: "string \<Rightarrow> bool" where
  "isIdempotentMethod m \<longleftrightarrow> m \<in> {''GET'', ''HEAD'', ''PUT'', ''DELETE''}"

text \<open>
  What is thrown: an error of \<open>forwardRequest\<close>, or the absence of a target. \<open>Undefined\<close> is the initial
  \<open>lastError\<close>, which is thrown only if no attempt is allowed.
\<close>

datatype forward_error = NoHealthyTargetError | Thrown forward_failure | Undefined

text \<open>What happens at the balancer, in order, with the delays slept.\<close>

datatype balancer_event = Picked string | Success string | Failure string | Slept number

record environment =
  send :: "nat \<Rightarrow> string \<Rightarrow> forward_failure + forward_result"
  pick_time :: "nat \<Rightarrow> number"
  report_time :: "nat \<Rightarrow> number"
  random :: "nat \<Rightarrow> number"
  while_sending :: "nat \<Rightarrow> balancer \<Rightarrow> balancer"
  while_sleeping :: "nat \<Rightarrow> balancer \<Rightarrow> balancer"

definition jitteredBackoff :: "number \<Rightarrow> number \<Rightarrow> nat \<Rightarrow> number" where
  "jitteredBackoff rnd backoff attempt =
     (let upper = js_mul backoff (2 ^ attempt);
          lower = js_mul backoff (2 ^ (attempt - 1))
      in js_add lower (js_mul rnd (js_sub upper lower)))"

text \<open>
  The loop from attempt number \<open>attempt\<close>, with \<open>k\<close> attempts left; \<open>last\<close> is \<open>lastError\<close>. After the last
  attempt the loop ends and \<open>lastError\<close> is thrown.
\<close>

fun attempt_loop :: "environment \<Rightarrow> retry_config option \<Rightarrow> nat \<Rightarrow> nat \<Rightarrow> forward_error \<Rightarrow> balancer
    \<Rightarrow> (forward_error + forward_result) \<times> balancer \<times> balancer_event list" where
  "attempt_loop env rc 0 attempt lastError b = (Inl lastError, b, [])"
| "attempt_loop env rc (Suc k) attempt lastError b =
     (case pickTarget (pick_time env attempt) b of
        (None, b) \<Rightarrow> (Inl NoHealthyTargetError, b, [])
      | (Some target, b) \<Rightarrow>
          (let b = while_sending env attempt b in
           case send env attempt target of
             Inr result \<Rightarrow>
               if 500 \<le> fr_status result
               then (Inr result, reportFailure (report_time env attempt) target b, [Picked target, Failure target])
               else (Inr result, reportSuccess target b, [Picked target, Success target])
           | Inl e \<Rightarrow>
               if e = BodyTooLargeError then (Inl (Thrown BodyTooLargeError), b, [Picked target])
               else
                 (let b = reportFailure (report_time env attempt) target b in
                  if k = 0 then (Inl (Thrown e), b, [Picked target, Failure target])
                  else
                    (let delay = jitteredBackoff (random env attempt)
                           (case rc of Some c \<Rightarrow> backoffMs c | None \<Rightarrow> 0) attempt;
                         (r, b, es) = attempt_loop env rc k (attempt + 1) (Thrown e)
                                        (while_sleeping env attempt b)
                     in (r, b, Picked target # Failure target # Slept delay # es)))))"

text \<open>
  \<open>forwardWithRetry\<close>. \<open>buffering\<close> is the error with which reading the request body into a buffer
  ends, if it does: the body is buffered only when a retry is possible.
\<close>

definition eligible :: "route_config \<Rightarrow> string \<Rightarrow> bool" where
  "eligible route method \<longleftrightarrow> retry route \<noteq> None \<and> isIdempotentMethod method"

definition maxAttempts :: "route_config \<Rightarrow> string \<Rightarrow> nat" where
  "maxAttempts route method =
     (if eligible route method then (case retry route of Some c \<Rightarrow> attempts c | None \<Rightarrow> 0) + 1 else 1)"

definition forwardWithRetry :: "environment \<Rightarrow> route_config \<Rightarrow> string \<Rightarrow> forward_failure option \<Rightarrow> balancer
    \<Rightarrow> (forward_error + forward_result) \<times> balancer \<times> balancer_event list" where
  "forwardWithRetry env route method buffering b =
     (case (if eligible route method then buffering else None) of
        Some e \<Rightarrow> (Inl (Thrown e), b, [])
      | None \<Rightarrow> attempt_loop env (retry route) (maxAttempts route method) 1 Undefined b)"

section \<open>Properties\<close>

definition picks_of :: "balancer_event list \<Rightarrow> string list" where
  "picks_of es = concat (map (\<lambda>e. case e of Picked t \<Rightarrow> [t] | _ \<Rightarrow> []) es)"

definition reports_of :: "balancer_event list \<Rightarrow> string list" where
  "reports_of es = concat (map (\<lambda>e. case e of Success t \<Rightarrow> [t] | Failure t \<Rightarrow> [t] | _ \<Rightarrow> []) es)"

lemma events_simps [simp]:
  "picks_of [] = []" "reports_of [] = []"
  "picks_of (Picked t # es) = t # picks_of es" "picks_of (Success t # es) = picks_of es"
  "picks_of (Failure t # es) = picks_of es" "picks_of (Slept d # es) = picks_of es"
  "reports_of (Picked t # es) = reports_of es" "reports_of (Success t # es) = t # reports_of es"
  "reports_of (Failure t # es) = t # reports_of es" "reports_of (Slept d # es) = reports_of es"
  by (simp_all add: picks_of_def reports_of_def)

lemma attempt_loop_reports:
  "attempt_loop env rc k attempt le b = (r, b', es) \<Longrightarrow> le \<noteq> Thrown BodyTooLargeError \<Longrightarrow>
     length (picks_of es) \<le> k
     \<and> (if r = Inl (Thrown BodyTooLargeError) then picks_of es \<noteq> [] \<and> reports_of es = butlast (picks_of es)
        else reports_of es = picks_of es)"
proof (induction env rc k attempt le b arbitrary: r b' es rule: attempt_loop.induct)
  case (2 env rc k attempt le b)
  obtain p b1 where p: "pickTarget (pick_time env attempt) b = (p, b1)" by force
  show ?case
  proof (cases p)
    case None
    with p 2 show ?thesis by auto
  next
    case (Some target)
    show ?thesis
    proof (cases "send env attempt target")
      case (Inl e)
      show ?thesis
      proof (cases "k = 0 \<or> e = BodyTooLargeError")
        case True
        with p Some Inl 2(2) show ?thesis by (auto simp: Let_def split: if_splits)
      next
        case False
        then have k: "e \<noteq> BodyTooLargeError" "k \<noteq> 0" by simp_all
        let ?b = "while_sleeping env attempt
          (reportFailure (report_time env attempt) target (while_sending env attempt b1))"
        obtain r1 b2 es1 where l: "attempt_loop env rc k (attempt + 1) (Thrown e) ?b = (r1, b2, es1)"
          using prod_cases3 by blast
        have "length (picks_of es1) \<le> k \<and> (if r1 = Inl (Thrown BodyTooLargeError)
            then picks_of es1 \<noteq> [] \<and> reports_of es1 = butlast (picks_of es1) else reports_of es1 = picks_of es1)"
          using 2(1) [OF p [symmetric] Some _ Inl k(1) _ k(2) _ l] k by simp
        moreover have "r = r1" "es = Picked target # Failure target
            # Slept (jitteredBackoff (random env attempt) (case rc of Some c \<Rightarrow> backoffMs c | None \<Rightarrow> 0) attempt) # es1"
          using 2(2) p Some Inl False l by (auto simp: Let_def)
        ultimately show ?thesis by (auto split: if_splits)
      qed
    qed (use p Some 2 in \<open>auto simp: Let_def split: if_splits\<close>)
  qed
qed auto

text \<open>
  C18: a request is sent to the upstream at most \<open>attempts + 1\<close> times, and only once when the route has
  no retry policy or the method is not idempotent; and every pick is reported to the balancer, except
  the last one when the request ends with \<open>BodyTooLargeError\<close>.
\<close>

theorem forwardWithRetry_reports:
  assumes "forwardWithRetry env route method body b = (r, b', es)"
  shows "length (picks_of es) \<le> maxAttempts route method
    \<and> (retry route = None \<or> \<not> isIdempotentMethod method \<longrightarrow> length (picks_of es) \<le> 1)
    \<and> (r \<noteq> Inl (Thrown BodyTooLargeError) \<longrightarrow> reports_of es = picks_of es)
    \<and> (r = Inl (Thrown BodyTooLargeError) \<longrightarrow> reports_of es = butlast (picks_of es))"
proof (cases "if eligible route method then body else None")
  case (Some e)
  with assms show ?thesis by (auto simp: forwardWithRetry_def)
next
  case None
  with assms have l: "attempt_loop env (retry route) (maxAttempts route method) 1 Undefined b = (r, b', es)"
    by (auto simp: forwardWithRetry_def)
  have "maxAttempts route method = 1" if "retry route = None \<or> \<not> isIdempotentMethod method"
    using that by (auto simp: maxAttempts_def eligible_def)
  with attempt_loop_reports [OF l] show ?thesis by (auto split: if_splits)
qed

lemma attempt_loop_response:
  "attempt_loop env rc k attempt le b = (Inr st, b', es) \<Longrightarrow>
     \<exists>pre t. es = pre @ [Picked t, if 500 \<le> fr_status st then Failure t else Success t] \<and> (\<forall>u. Success u \<notin> set pre)"
proof (induction env rc k attempt le b arbitrary: b' es rule: attempt_loop.induct)
  case (2 env rc k attempt le b)
  obtain p b1 where p: "pickTarget (pick_time env attempt) b = (p, b1)" by force
  show ?case
  proof (cases p)
    case None
    with p 2 show ?thesis by auto
  next
    case (Some target)
    show ?thesis
    proof (cases "send env attempt target")
      case (Inl e)
      with 2(2) p Some have k: "k \<noteq> 0" "e \<noteq> BodyTooLargeError" by (auto simp: Let_def split: if_splits)
      let ?b = "while_sleeping env attempt
        (reportFailure (report_time env attempt) target (while_sending env attempt b1))"
      let ?d = "jitteredBackoff (random env attempt) (case rc of Some c \<Rightarrow> backoffMs c | None \<Rightarrow> 0) attempt"
      obtain r1 b2 es1 where l: "attempt_loop env rc k (attempt + 1) (Thrown e) ?b = (r1, b2, es1)"
        using prod_cases3 by blast
      have r: "r1 = Inr st" and es: "es = Picked target # Failure target # Slept ?d # es1"
        using 2(2) p Some Inl k l by (auto simp: Let_def)
      have "\<exists>pre t. es1 = pre @ [Picked t, if 500 \<le> fr_status st then Failure t else Success t] \<and> (\<forall>u. Success u \<notin> set pre)"
        by (rule 2(1) [OF p [symmetric] Some _ Inl k(2) _ k(1) _ l [unfolded r]]) (rule refl)+
      then obtain pre t where "es1 = pre @ [Picked t, if 500 \<le> fr_status st then Failure t else Success t]"
        "\<forall>u. Success u \<notin> set pre" by blast
      with es show ?thesis
        by (intro exI [of _ "Picked target # Failure target # Slept ?d # pre"] exI [of _ t]) auto
    qed (use p Some 2 in \<open>auto simp: Let_def split: if_splits\<close>)
  qed
qed auto

text \<open>
  Any response ends the loop, a 5xx too: it is never retried, and it is charged to the breaker of
  the target that gave it as a failure, any other response as a success.
\<close>

theorem forwardWithRetry_response:
  assumes "forwardWithRetry env route method body b = (Inr st, b', es)"
  shows "\<exists>pre t. es = pre @ [Picked t, if 500 \<le> fr_status st then Failure t else Success t] \<and> (\<forall>u. Success u \<notin> set pre)"
proof (rule attempt_loop_response)
  show "attempt_loop env (retry route) (maxAttempts route method) 1 Undefined b = (Inr st, b', es)"
    using assms by (auto simp: forwardWithRetry_def split: if_splits option.splits)
qed

text \<open>
  The delay before attempt \<open>n + 1\<close> lies between \<open>backoffMs * 2^(n-1)\<close> and \<open>backoffMs * 2^n\<close> (the
  upper end can be reached by rounding).
\<close>

theorem jitteredBackoff_bounds:
  assumes "int_positive w" "in_range (w * 2 ^ n)" "1 \<le> n" "0 \<le> rnd" "rnd < 1"
  shows "w * 2 ^ (n - 1) \<le> jitteredBackoff rnd w n \<and> jitteredBackoff rnd w n \<le> w * 2 ^ n"
proof -
  obtain i where i: "w = of_int i" "0 < i" using assms(1) by (metis int_positive_def of_int_0_less_iff)
  obtain m where n: "n = Suc m" using assms(3) by (cases n) auto
  let ?l = "w * 2 ^ m"
  have u: "w * 2 ^ n = 2 * ?l" by (simp add: n)
  have "2 * ?l \<le> 2 ^ 42" using assms(2) unfolding in_range_def u .
  then have le: "?l \<le> 2 ^ 41" "0 < ?l" using i by simp_all
  have "?l = of_int (i * 2 ^ m)" by (simp add: i)
  then have "of_int \<lfloor>?l\<rfloor> = ?l" by (simp only: floor_of_int)
  then have l: "safe_int ?l" using le by (simp add: safe_int_def)
  then have sum: "safe_int (?l + ?l)" using le by (intro safe_int_add) auto
  then have diff: "js_sub (2 * ?l) ?l = ?l" using l by simp
  have up: "js_mul w (2 ^ n) = 2 * ?l" and lo: "js_mul w (2 ^ (n - 1)) = ?l"
    using l sum unfolding js_mul_def u by (simp_all add: n)
  have j: "jitteredBackoff rnd w n = js_add ?l (js_mul rnd ?l)"
    unfolding jitteredBackoff_def Let_def up lo diff ..
  have "0 \<le> js_mul rnd ?l" unfolding js_mul_def using assms(4) le by (intro js.rnd_nonneg) simp
  moreover have "js_mul rnd ?l \<le> ?l"
    unfolding js_mul_def using assms(4,5) le l mult_right_mono [of rnd 1 ?l] by (intro js.rnd_le) simp_all
  ultimately have "?l \<le> js_add ?l (js_mul rnd ?l)" "js_add ?l (js_mul rnd ?l) \<le> ?l + ?l"
    unfolding js_add_def using l sum by (intro js.rnd_ge js.rnd_le; simp)+
  then show ?thesis unfolding j u by (simp add: n)
qed

section \<open>The half-open trial that nobody reports\<close>

text \<open>A target behind a breaker that opens at the first failure and tries again after 10 ms.\<close>

definition fragile_route :: route_config where
  "fragile_route = (bare_route ''r'')\<lparr>circuitBreaker := Some hasty\<rparr>"

text \<open>The first request fails to connect; the second, at 20 ms, has a chunked body that is too large.\<close>

abbreviation quiet :: "forward_failure + forward_result \<Rightarrow> number \<Rightarrow> environment" where
  "quiet out t \<equiv> \<lparr>send = \<lambda>_ _. out, pick_time = \<lambda>_. t, report_time = \<lambda>_. t, random = \<lambda>_. 0,
     while_sending = \<lambda>_ b. b, while_sleeping = \<lambda>_ b. b\<rparr>"

definition after_two :: balancer where
  "after_two =
     (let (r1, b1, es1) = forwardWithRetry (quiet (Inl (ClientFailure ''refused'')) 5) fragile_route ''POST'' None
            (createBalancer fragile_route);
          (r2, b2, es2) = forwardWithRetry (quiet (Inl BodyTooLargeError) 20) fragile_route ''POST'' None b1
      in b2)"

lemma after_two_eq: "after_two = \<lparr>b_targets = [\<lparr>t_url = ''http://u'', t_healthy = True,
    t_breaker = Some \<lparr>cb_state = HalfOpen, consecutiveFailures = 1, openedAt = 5, halfOpenTrialInFlight = True\<rparr>\<rparr>],
    b_cursor = 0, b_options = hasty\<rparr>"
  by code_simp

text \<open>
  A client can take a target out of service for ever. When the half-open trial happens to be a
  request whose body turns out too large, \<open>forwardWithRetry\<close> rethrows without reporting, the trial
  stays marked, and from then on the target is refused at every time, though its upstream is healthy.
\<close>

theorem too_large_trial_wedges_target:
  "fst (pickTarget now after_two) = None \<and> snd (pickTarget now after_two) = after_two"
  by (simp add: after_two_eq pickTarget_def canRequest_def Let_def)

section \<open>Witnesses\<close>

abbreviation flaky_route :: route_config where
  "flaky_route \<equiv> (bare_route ''r'')\<lparr>retry := Some \<lparr>attempts = 2, backoffMs = 100\<rparr>\<rparr>"

abbreviation unavailable :: forward_result where
  "unavailable \<equiv> \<lparr>fr_status = 503, fr_headers = [], fr_body = Some []\<rparr>"

abbreviation flaky :: environment where
  "flaky \<equiv> (quiet (Inr unavailable) 0)\<lparr>send := \<lambda>i _. if i = 1 then Inl (ClientFailure ''reset'') else Inr unavailable\<rparr>"

lemma flaky_run: "forwardWithRetry flaky flaky_route ''GET'' None (createBalancer flaky_route)
    = (Inr unavailable, createBalancer flaky_route,
       [Picked ''http://u'', Failure ''http://u'', Slept 100, Picked ''http://u'', Failure ''http://u''])"
  by code_simp

lemma forwardWithRetry_reports_witness:
  "length (picks_of [Picked ''http://u'', Failure ''http://u'', Slept 100, Picked ''http://u'', Failure ''http://u''])
     \<le> maxAttempts flaky_route ''GET''"
  using forwardWithRetry_reports [OF flaky_run] by blast

lemma forwardWithRetry_response_witness:
  "\<exists>pre t. [Picked ''http://u'', Failure ''http://u'', Slept 100, Picked ''http://u'', Failure ''http://u'']
     = pre @ [Picked t, if 500 \<le> fr_status unavailable then Failure t else Success t]"
  using forwardWithRetry_response [OF flaky_run] by blast

lemma jitteredBackoff_bounds_witness:
  "100 * 2 ^ (2 - 1) \<le> jitteredBackoff (1 / 2) 100 2 \<and> jitteredBackoff (1 / 2) 100 2 \<le> 100 * 2 ^ 2"
  using jitteredBackoff_bounds [of 100 2 "1 / 2"] by (simp add: int_positive_def in_range_def)

end
