(* ===== verification/ApiKey.thy ===== *)
theory ApiKey
  imports Http
begin

text \<open>
  \<open>core/src/auth\<close>: API keys and JWTs, and the operator token of \<open>gateway/src/admin/auth.ts\<close>. The hash,
  the random bytes and the JWT library are parameters; \<open>sha256 s\<close> is the hexadecimal digest.
\<close>

section \<open>Hexadecimal buffers\<close>

text \<open>\<open>Buffer.from(s, 'hex')\<close>: whole pairs of digits, up to the first that is not one.\<close>

definition hex_value :: "char \<Rightarrow> nat option" where
  "hex_value c = (let n = of_char c in
     if 48 \<le> n \<and> n \<le> 57 then Some (n - 48) else if 97 \<le> n \<and> n \<le> 102 then Some (n - 87)
     else if 65 \<le> n \<and> n \<le> 70 then Some (n - 55) else None)"

fun hex_buffer :: "string \<Rightarrow> nat list" where
  "hex_buffer (a # b # s) =
     (case (hex_value a, hex_value b) of (Some x, Some y) \<Rightarrow> (16 * x + y) # hex_buffer s | _ \<Rightarrow> [])"
| "hex_buffer [c] = []"
| "hex_buffer [] = []"

text \<open>A hexadecimal digest as \<open>digest('hex')\<close> prints it: lower case, whole bytes.\<close>

definition is_hex :: "char \<Rightarrow> bool" where
  "is_hex c \<longleftrightarrow> c \<in> set ''0123456789abcdef''"

definition lower_hex :: "string \<Rightarrow> bool" where
  "lower_hex s \<longleftrightarrow> even (length s) \<and> (\<forall>c \<in> set s. is_hex c)"

lemma hex_value_inj: "hex_value c = hex_value d \<Longrightarrow> is_hex c \<Longrightarrow> is_hex d \<Longrightarrow> c = d"
  unfolding is_hex_def by (simp, elim disjE; simp add: hex_value_def)

lemma hex_value_lower: "is_hex c \<Longrightarrow> \<exists>v < 16. hex_value c = Some v"
  by (auto simp: hex_value_def is_hex_def)

lemma nibbles:
  fixes x y u v :: nat
  assumes "16 * x + y = 16 * u + v" "y < 16" "v < 16"
  shows "x = u \<and> y = v"
proof -
  have "(16 * x + y) div 16 = x" "(16 * u + v) div 16 = u" using assms(2,3) by simp_all
  with assms(1) show ?thesis by simp
qed

lemma hex_buffer_inj:
  "lower_hex s \<Longrightarrow> lower_hex t \<Longrightarrow> hex_buffer s = hex_buffer t \<Longrightarrow> s = t"
proof (induction s arbitrary: t rule: hex_buffer.induct)
  case (1 a b s)
  have ab: "is_hex a" "is_hex b" and s: "lower_hex s"
    using "1.prems"(1) by (auto simp: lower_hex_def)
  obtain x y where xy: "hex_value a = Some x" "hex_value b = Some y" "x < 16" "y < 16"
    using hex_value_lower ab by blast
  from "1.prems"(3) xy have "hex_buffer t \<noteq> []" by auto
  then obtain c d t' where t: "t = c # d # t'" by (cases t rule: hex_buffer.cases) auto
  have cd: "is_hex c" "is_hex d" and t': "lower_hex t'"
    using "1.prems"(2) t by (auto simp: lower_hex_def)
  obtain u v where uv: "hex_value c = Some u" "hex_value d = Some v" "u < 16" "v < 16"
    using hex_value_lower cd by blast
  have eq: "16 * x + y = 16 * u + v" "hex_buffer s = hex_buffer t'" using "1.prems"(3) xy uv t by auto
  have "x = u" "y = v" using nibbles [OF eq(1) xy(4) uv(4)] by auto
  moreover have "s = t'" using xy "1.IH" s t' eq(2) by auto
  ultimately have "x = u" "y = v" "s = t'" by auto
  then show ?case using hex_value_inj xy uv ab cd t by metis
next
  case (2 c t)
  then show ?case by (simp add: lower_hex_def)
next
  case (3 t)
  have "t = []"
  proof (rule ccontr)
    assume "t \<noteq> []"
    with "3"(2) have "2 \<le> length t" by (cases t; cases "tl t") (auto simp: lower_hex_def)
    then obtain c d t' where t: "t = c # d # t'" by (cases t; cases "tl t") auto
    then have "is_hex c" "is_hex d" using "3"(2) by (auto simp: lower_hex_def)
    then obtain u v where "hex_value c = Some u" "hex_value d = Some v" using hex_value_lower by blast
    with "3"(3) t show False by simp
  qed
  then show ?case by simp
qed

section \<open>API keys\<close>

definition KEY_PREFIX :: string where
  "KEY_PREFIX = ''ag_live_''"

record generated_key =
  raw :: string
  key_hash :: string
  key_prefix :: string

text \<open>\<open>secret\<close> is \<open>randomBytes(24).toString('base64url')\<close>.\<close>

definition hashApiKey :: "(string \<Rightarrow> string) \<Rightarrow> string \<Rightarrow> string" where
  "hashApiKey sha256 r = sha256 r"

definition generateApiKey :: "(string \<Rightarrow> string) \<Rightarrow> string \<Rightarrow> generated_key" where
  "generateApiKey sha256 secret =
     (let r = KEY_PREFIX @ secret
      in \<lparr>raw = r, key_hash = hashApiKey sha256 r, key_prefix = take (length KEY_PREFIX + 4) r\<rparr>)"

definition verifyApiKeyHash :: "(string \<Rightarrow> string) \<Rightarrow> string \<Rightarrow> string \<Rightarrow> bool" where
  "verifyApiKeyHash sha256 r expectedHash =
     (let actual = hex_buffer (hashApiKey sha256 r); expected = hex_buffer expectedHash
      in length actual = length expected \<and> actual = expected)"

record auth_result =
  ar_tenantId :: string
  ar_scopes :: "string list"

record api_key_record =
  akr_tenantId :: string
  akr_scopes :: "string list"
  akr_hash :: string

definition verifyApiKey :: "(string \<Rightarrow> string) \<Rightarrow> string \<Rightarrow> (string \<Rightarrow> api_key_record option) \<Rightarrow> auth_result option" where
  "verifyApiKey sha256 r lookup =
     (case lookup (hashApiKey sha256 r) of
        None \<Rightarrow> None
      | Some rec \<Rightarrow>
          if verifyApiKeyHash sha256 r (akr_hash rec)
          then Some \<lparr>ar_tenantId = akr_tenantId rec, ar_scopes = akr_scopes rec\<rparr> else None)"

text \<open>
  The constant-time comparison of buffers is equality of the digests: a presented key matches a
  stored hash exactly when its hash is that hash.
\<close>

theorem verifyApiKeyHash_iff:
  assumes "lower_hex (sha256 r)" "lower_hex expected"
  shows "verifyApiKeyHash sha256 r expected \<longleftrightarrow> hashApiKey sha256 r = expected"
  using hex_buffer_inj [OF assms] by (auto simp: verifyApiKeyHash_def hashApiKey_def Let_def)

text \<open>A generated key verifies against its own hash, and its prefix shows twelve characters of it.\<close>

lemma generateApiKey_verifies:
  "verifyApiKeyHash sha256 (raw (generateApiKey sha256 secret)) (key_hash (generateApiKey sha256 secret))"
  by (simp add: generateApiKey_def verifyApiKeyHash_def Let_def)

text \<open>
  The prefix shown in the UI has four characters of the secret, not the eight of the example
  \<open>ag_live_a1b2c3d4\<close> in its comment.
\<close>

theorem generateApiKey_prefix:
  "key_prefix (generateApiKey sha256 (''a1b2c3d4'' @ s)) = ''ag_live_a1b2''"
  by (simp add: generateApiKey_def KEY_PREFIX_def Let_def)

section \<open>JWTs\<close>

text \<open>Claims as JSON values; \<open>undefined\<close> and \<open>null\<close> are both nullish.\<close>

datatype json = JNull | JString string | JArray "json list" | JOther

type_synonym payload = "(string \<times> json) list"

definition claim_value :: "payload \<Rightarrow> string \<Rightarrow> json option" where
  "claim_value p c = (case map_of p c of Some JNull \<Rightarrow> None | v \<Rightarrow> v)"

definition readTenantId :: "payload \<Rightarrow> string \<Rightarrow> string option" where
  "readTenantId p c =
     (case (case claim_value p c of Some v \<Rightarrow> Some v | None \<Rightarrow> map_of p ''sub'') of
        Some (JString s) \<Rightarrow> Some s
      | _ \<Rightarrow> None)"

definition readScopes :: "payload \<Rightarrow> string \<Rightarrow> string list" where
  "readScopes p c =
     (case map_of p c of
        Some (JArray vs) \<Rightarrow> concat (map (\<lambda>v. case v of JString s \<Rightarrow> [s] | _ \<Rightarrow> []) vs)
      | Some (JString s) \<Rightarrow> filter (\<lambda>x. x \<noteq> []) (js_split (CHR '' '') s)
      | _ \<Rightarrow> [])"

record jwt_options =
  jo_jwksUrl :: string
  jo_issuer :: "string option"
  jo_audience :: "string option"
  jo_tenantClaim :: "string option"
  jo_scopeClaim :: "string option"

text \<open>\<open>jwtVerify token jwksUrl issuer audience\<close> is the library's check: the payload, or a failure.\<close>

type_synonym jwt_verify = "string \<Rightarrow> string \<Rightarrow> string option \<Rightarrow> string option \<Rightarrow> payload option"

definition verifyJwt :: "jwt_verify \<Rightarrow> string \<Rightarrow> jwt_options \<Rightarrow> auth_result option" where
  "verifyJwt jwtVerify token opts =
     (case jwtVerify token (jo_jwksUrl opts) (jo_issuer opts) (jo_audience opts) of
        None \<Rightarrow> None
      | Some p \<Rightarrow>
          (case readTenantId p (case jo_tenantClaim opts of Some c \<Rightarrow> c | None \<Rightarrow> ''tenant_id'') of
             None \<Rightarrow> None
           | Some t \<Rightarrow>
               if t = [] then None
               else Some \<lparr>ar_tenantId = t,
                      ar_scopes = readScopes p (case jo_scopeClaim opts of Some c \<Rightarrow> c | None \<Rightarrow> ''scope'')\<rparr>))"

text \<open>A JWT authenticates only with a verified payload that names a non-empty tenant.\<close>

lemma verifyJwt_sound:
  assumes "verifyJwt jv token opts = Some a"
  shows "ar_tenantId a \<noteq> [] \<and> (\<exists>p. jv token (jo_jwksUrl opts) (jo_issuer opts) (jo_audience opts) = Some p
    \<and> (\<exists>c. map_of p c = Some (JString (ar_tenantId a))))"
  using assms
  by (auto simp: verifyJwt_def readTenantId_def claim_value_def split: option.splits json.splits if_splits)

section \<open>The operator token\<close>

text \<open>Both digests have the same length, so \<open>timingSafeEqual\<close> is equality.\<close>

definition verifyAdminToken :: "(string \<Rightarrow> string) \<Rightarrow> string \<Rightarrow> string \<Rightarrow> bool" where
  "verifyAdminToken sha256 presented configured \<longleftrightarrow> sha256 presented = sha256 configured"

definition requireAdminToken :: "(string \<Rightarrow> string) \<Rightarrow> string \<Rightarrow> headers \<Rightarrow> reply \<Rightarrow> reply" where
  "requireAdminToken sha256 token hs reply =
     (case extractBearerToken (case map_of hs ''authorization'' of Some (HText h) \<Rightarrow> Some h | _ \<Rightarrow> None) of
        None \<Rightarrow> send_error 401 ''unauthorized'' reply
      | Some presented \<Rightarrow>
          if presented = [] \<or> \<not> verifyAdminToken sha256 presented token
          then send_error 401 ''unauthorized'' reply else reply)"

text \<open>
  The admin hook lets a request through, sending nothing, only if it carries a bearer token whose
  digest is the configured token's, hence, short of a collision, the configured token itself.
\<close>

theorem requireAdminToken_sound:
  assumes "r_sent reply = None" "r_sent (requireAdminToken sha256 token hs reply) = None"
    and "\<forall>t. sha256 t = sha256 token \<longrightarrow> t = token"
  shows "\<exists>h. map_of hs ''authorization'' = Some (HText h) \<and> extractBearerToken (Some h) = Some token"
proof -
  obtain presented where p: "extractBearerToken (case map_of hs ''authorization'' of Some (HText h) \<Rightarrow> Some h | _ \<Rightarrow> None)
      = Some presented"
    and "sha256 presented = sha256 token"
    using assms(2) by (auto simp: requireAdminToken_def verifyAdminToken_def split: option.splits if_splits)
  with assms(3) have t: "presented = token" by blast
  have "extractBearerToken None = None" by (simp add: extractBearerToken_def)
  with p t show ?thesis by (cases "map_of hs ''authorization''") (auto split: header_value.splits)
qed

section \<open>Witnesses\<close>

lemma verifyApiKeyHash_iff_witness:
  "verifyApiKeyHash (\<lambda>s. if s = ''k'' then ''00ff'' else ''1234'') ''k'' ''00ff''"
  using verifyApiKeyHash_iff [of "\<lambda>s. if s = ''k'' then ''00ff'' else ''1234''" "''k''" "''00ff''"]
  by (simp add: lower_hex_def is_hex_def hashApiKey_def)

lemma requireAdminToken_sound_witness:
  "\<exists>h. map_of [(''authorization'', HText ''Bearer s3cret'')] ''authorization'' = Some (HText h)
     \<and> extractBearerToken (Some h) = Some ''s3cret''"
proof (rule requireAdminToken_sound [of "\<lparr>r_headers = [], r_sent = None\<rparr>" id])
  show "r_sent (requireAdminToken id ''s3cret'' [(''authorization'', HText ''Bearer s3cret'')] \<lparr>r_headers = [], r_sent = None\<rparr>) = None"
    by code_simp
qed auto

end
