(* ===== verification/Database.thy ===== *)
theory Database
  imports ApiKey RateLimitHook
begin

text \<open>
  The repositories of \<open>gateway/src/db/repositories\<close> as operations on the tables their SQL names, with
  the constraints of \<open>db/migrations/001_init.sql\<close>. Identifiers and the database clock are arguments. A
  violated constraint makes the query reject (\<open>Inl\<close>).
\<close>

section \<open>Tables\<close>

record plan_row =
  pl_id :: string
  pl_name :: string
  pl_rate_limit :: number
  pl_window_sec :: number
  pl_burst :: number
  pl_quota_monthly :: "number option"

record tenant_row =
  tn_id :: string
  tn_name :: string
  tn_plan_id :: string
  tn_status :: string
  tn_created_at :: number

record key_row =
  ak_id :: string
  ak_tenant_id :: string
  ak_key_hash :: string
  ak_key_prefix :: string
  ak_name :: "string option"
  ak_scopes :: "string list"
  ak_last_used_at :: "number option"
  ak_expires_at :: "number option"
  ak_revoked_at :: "number option"
  ak_created_at :: number

record database =
  plans :: "plan_row list"
  tenants :: "tenant_row list"
  api_keys :: "key_row list"

datatype db_error = UniqueViolation | ForeignKeyViolation

section \<open>Plans and tenants\<close>

definition createPlan ::
  "string \<Rightarrow> string \<Rightarrow> number \<Rightarrow> number \<Rightarrow> number \<Rightarrow> number option \<Rightarrow> database \<Rightarrow> db_error + database \<times> plan_row" where
  "createPlan new_id name rate win bst quota db =
     (if name \<in> set (map pl_name (plans db)) then Inl UniqueViolation
      else let row = \<lparr>pl_id = new_id, pl_name = name, pl_rate_limit = rate, pl_window_sec = win, pl_burst = bst,
                      pl_quota_monthly = quota\<rparr>
           in Inr (db\<lparr>plans := plans db @ [row]\<rparr>, row))"

definition findPlanByName :: "string \<Rightarrow> database \<Rightarrow> plan_row option" where
  "findPlanByName name db = js_find (\<lambda>p. pl_name p = name) (plans db)"

definition createTenant :: "string \<Rightarrow> number \<Rightarrow> string \<Rightarrow> string \<Rightarrow> database \<Rightarrow> db_error + database \<times> tenant_row" where
  "createTenant new_id now name planId db =
     (if planId \<notin> set (map pl_id (plans db)) then Inl ForeignKeyViolation
      else let row = \<lparr>tn_id = new_id, tn_name = name, tn_plan_id = planId, tn_status = ''active'', tn_created_at = now\<rparr>
           in Inr (db\<lparr>tenants := tenants db @ [row]\<rparr>, row))"

definition findTenantById :: "string \<Rightarrow> database \<Rightarrow> tenant_row option" where
  "findTenantById i db = js_find (\<lambda>t. tn_id t = i) (tenants db)"

definition setTenantStatus :: "string \<Rightarrow> string \<Rightarrow> database \<Rightarrow> database \<times> tenant_row option" where
  "setTenantStatus i st db =
     (let db' = db\<lparr>tenants := map (\<lambda>t. if tn_id t = i then t\<lparr>tn_status := st\<rparr> else t) (tenants db)\<rparr>
      in (db', findTenantById i db'))"

section \<open>API keys\<close>

record created_key =
  ck_raw :: string
  ck_id :: string
  ck_prefix :: string

definition createApiKey ::
  "(string \<Rightarrow> string) \<Rightarrow> string \<Rightarrow> string \<Rightarrow> number \<Rightarrow> string \<Rightarrow> string option \<Rightarrow> string list option \<Rightarrow> number option
    \<Rightarrow> database \<Rightarrow> db_error + database \<times> created_key" where
  "createApiKey sha256 secret new_id now tenantId name scopes expiresAt db =
     (let g = generateApiKey sha256 secret in
      if key_hash g \<in> set (map ak_key_hash (api_keys db)) then Inl UniqueViolation
      else if tenantId \<notin> set (map tn_id (tenants db)) then Inl ForeignKeyViolation
      else Inr (db\<lparr>api_keys := api_keys db @ [\<lparr>ak_id = new_id, ak_tenant_id = tenantId, ak_key_hash = key_hash g,
                  ak_key_prefix = key_prefix g, ak_name = name, ak_scopes = (case scopes of Some s \<Rightarrow> s | None \<Rightarrow> []),
                  ak_last_used_at = None, ak_expires_at = expiresAt, ak_revoked_at = None, ak_created_at = now\<rparr>]\<rparr>,
                \<lparr>ck_raw = raw g, ck_id = new_id, ck_prefix = key_prefix g\<rparr>))"

record active_key =
  act_id :: string
  act_tenantId :: string
  act_scopes :: "string list"
  act_keyHash :: string
  act_plan :: tenant_plan

text \<open>The \<open>WHERE\<close> clause of \<open>findActiveApiKeyWithPlan\<close> on a joined row.\<close>

definition active_row :: "number \<Rightarrow> key_row \<Rightarrow> tenant_row \<Rightarrow> bool" where
  "active_row now k t \<longleftrightarrow> ak_revoked_at k = None
     \<and> (case ak_expires_at k of None \<Rightarrow> True | Some e \<Rightarrow> now < e) \<and> tn_status t = ''active''"

text \<open>The join of the three tables, in row order, and its first row.\<close>

definition joined_rows :: "string \<Rightarrow> number \<Rightarrow> database \<Rightarrow> (key_row \<times> tenant_row \<times> plan_row) list" where
  "joined_rows keyHash now db =
     [(k, t, p). k \<leftarrow> api_keys db, t \<leftarrow> tenants db, p \<leftarrow> plans db,
        tn_id t = ak_tenant_id k \<and> pl_id p = tn_plan_id t \<and> ak_key_hash k = keyHash \<and> active_row now k t]"

definition findActiveApiKeyWithPlan :: "string \<Rightarrow> number \<Rightarrow> database \<Rightarrow> active_key option" where
  "findActiveApiKeyWithPlan keyHash now db =
     (case joined_rows keyHash now db of
        [] \<Rightarrow> None
      | (k, t, p) # _ \<Rightarrow> Some \<lparr>act_id = ak_id k, act_tenantId = ak_tenant_id k, act_scopes = ak_scopes k,
          act_keyHash = ak_key_hash k,
          act_plan = \<lparr>plan_limit = pl_rate_limit p, plan_windowSec = pl_window_sec p, plan_burst = pl_burst p\<rparr>\<rparr>)"

text \<open>What the operator sees of a key: no hash and no raw key. Newest first.\<close>

record key_summary =
  ks_id :: string
  ks_tenantId :: string
  ks_prefix :: string
  ks_name :: "string option"
  ks_scopes :: "string list"
  ks_lastUsedAt :: "number option"
  ks_expiresAt :: "number option"
  ks_revokedAt :: "number option"
  ks_createdAt :: number

definition listApiKeysForTenant :: "string \<Rightarrow> database \<Rightarrow> key_summary list" where
  "listApiKeysForTenant tenantId db =
     map (\<lambda>k. \<lparr>ks_id = ak_id k, ks_tenantId = ak_tenant_id k, ks_prefix = ak_key_prefix k, ks_name = ak_name k,
         ks_scopes = ak_scopes k, ks_lastUsedAt = ak_last_used_at k, ks_expiresAt = ak_expires_at k,
         ks_revokedAt = ak_revoked_at k, ks_createdAt = ak_created_at k\<rparr>)
       (sort_key (\<lambda>k. - ak_created_at k) (filter (\<lambda>k. ak_tenant_id k = tenantId) (api_keys db)))"

definition touchApiKeyLastUsed :: "string \<Rightarrow> number \<Rightarrow> database \<Rightarrow> database" where
  "touchApiKeyLastUsed i now db =
     db\<lparr>api_keys := map (\<lambda>k. if ak_id k = i then k\<lparr>ak_last_used_at := Some now\<rparr> else k) (api_keys db)\<rparr>"

definition revokeApiKey :: "string \<Rightarrow> number \<Rightarrow> database \<Rightarrow> database \<times> string option" where
  "revokeApiKey i now db =
     (let hit = (\<lambda>k. ak_id k = i \<and> ak_revoked_at k = None)
      in (db\<lparr>api_keys := map (\<lambda>k. if hit k then k\<lparr>ak_revoked_at := Some now\<rparr> else k) (api_keys db)\<rparr>,
          map_option ak_key_hash (js_find hit (api_keys db))))"

section \<open>The life of a key\<close>

text \<open>Every statement the gateway issues on these tables; a rejected one leaves them as they were.\<close>

datatype db_call =
    CreatePlan string string number number number "number option"
  | CreateTenant string number string string
  | SetStatus string string
  | CreateKey string string number string "string option" "string list option" "number option"
  | Touch string number
  | Revoke string number

fun db_exec :: "(string \<Rightarrow> string) \<Rightarrow> db_call \<Rightarrow> database \<Rightarrow> database" where
  "db_exec h (CreatePlan i n r w b q) db = (case createPlan i n r w b q db of Inl _ \<Rightarrow> db | Inr (db', _) \<Rightarrow> db')"
| "db_exec h (CreateTenant i t n p) db = (case createTenant i t n p db of Inl _ \<Rightarrow> db | Inr (db', _) \<Rightarrow> db')"
| "db_exec h (SetStatus i s) db = fst (setTenantStatus i s db)"
| "db_exec h (CreateKey secret i t ten n sc e) db =
     (case createApiKey h secret i t ten n sc e db of Inl _ \<Rightarrow> db | Inr (db', _) \<Rightarrow> db')"
| "db_exec h (Touch i t) db = touchApiKeyLastUsed i t db"
| "db_exec h (Revoke i t) db = fst (revokeApiKey i t db)"

fun db_calls :: "(string \<Rightarrow> string) \<Rightarrow> db_call list \<Rightarrow> database \<Rightarrow> database" where
  "db_calls h [] db = db"
| "db_calls h (c # cs) db = db_calls h cs (db_exec h c db)"

text \<open>Key hashes are unique.\<close>

definition db_wf :: "database \<Rightarrow> bool" where
  "db_wf db \<longleftrightarrow> distinct (map ak_key_hash (api_keys db))"

lemma db_wf_call [wf_intro]: "db_wf db \<Longrightarrow> db_wf (db_exec h c db)"
  by (cases c) (auto simp: db_wf_def createPlan_def createTenant_def setTenantStatus_def createApiKey_def
    touchApiKeyLastUsed_def revokeApiKey_def Let_def o_def if_distrib [of ak_key_hash]
    cong: if_cong)

text \<open>A revoked key stays on record, revoked.\<close>

definition revoked_hash :: "string \<Rightarrow> database \<Rightarrow> bool" where
  "revoked_hash kh db \<longleftrightarrow> (\<exists>k \<in> set (api_keys db). ak_key_hash k = kh \<and> ak_revoked_at k \<noteq> None)"

lemma revoked_map:
  assumes "\<forall>k. ak_key_hash (f k) = ak_key_hash k \<and> (ak_revoked_at k \<noteq> None \<longrightarrow> ak_revoked_at (f k) \<noteq> None)"
    and "revoked_hash kh db"
  shows "revoked_hash kh (db\<lparr>api_keys := map f (api_keys db)\<rparr>)"
  using assms by (fastforce simp: revoked_hash_def)

lemma revoked_call: "revoked_hash kh db \<Longrightarrow> revoked_hash kh (db_exec h c db)"
proof (cases c)
  case (Touch i t)
  then show "revoked_hash kh db \<Longrightarrow> revoked_hash kh (db_exec h c db)"
    by (auto simp: touchApiKeyLastUsed_def intro!: revoked_map)
next
  case (Revoke i t)
  then show "revoked_hash kh db \<Longrightarrow> revoked_hash kh (db_exec h c db)"
    by (auto simp: revokeApiKey_def Let_def intro!: revoked_map)
qed (auto simp: revoked_hash_def createPlan_def createTenant_def setTenantStatus_def createApiKey_def Let_def)

lemma revoke_marks:
  assumes "k \<in> set (api_keys db)" "ak_id k = i"
  shows "revoked_hash (ak_key_hash k) (fst (revokeApiKey i now db))"
proof (cases "ak_revoked_at k")
  case None
  then have "k\<lparr>ak_revoked_at := Some now\<rparr> \<in> set (api_keys (fst (revokeApiKey i now db)))"
    using assms by (force simp: revokeApiKey_def Let_def image_iff)
  then show ?thesis unfolding revoked_hash_def by (rule rev_bexI) simp
next
  case (Some r)
  then have "k \<in> set (api_keys (fst (revokeApiKey i now db)))"
    using assms by (force simp: revokeApiKey_def Let_def image_iff)
  then show ?thesis unfolding revoked_hash_def using Some by blast
qed

lemma db_calls_keep:
  "db_wf db \<Longrightarrow> revoked_hash kh db \<Longrightarrow> db_wf (db_calls h cs db) \<and> revoked_hash kh (db_calls h cs db)"
  by (induction cs arbitrary: db) (simp_all add: db_wf_call revoked_call)

lemma joined_rows_iff:
  "(k, t, p) \<in> set (joined_rows kh now db) \<longleftrightarrow> k \<in> set (api_keys db) \<and> t \<in> set (tenants db) \<and> p \<in> set (plans db)
     \<and> tn_id t = ak_tenant_id k \<and> pl_id p = tn_plan_id t \<and> ak_key_hash k = kh \<and> active_row now k t"
  by (auto simp: joined_rows_def)

lemma findActive_Some:
  assumes "findActiveApiKeyWithPlan kh now db = Some a"
  shows "\<exists>k t p. k \<in> set (api_keys db) \<and> t \<in> set (tenants db) \<and> p \<in> set (plans db) \<and> tn_id t = ak_tenant_id k
    \<and> pl_id p = tn_plan_id t \<and> ak_key_hash k = kh \<and> active_row now k t \<and> act_id a = ak_id k
    \<and> act_tenantId a = ak_tenant_id k \<and> act_scopes a = ak_scopes k \<and> act_keyHash a = kh
    \<and> act_plan a = \<lparr>plan_limit = pl_rate_limit p, plan_windowSec = pl_window_sec p, plan_burst = pl_burst p\<rparr>"
proof -
  obtain k t p rest where j: "joined_rows kh now db = (k, t, p) # rest"
    using assms by (cases "joined_rows kh now db") (auto simp: findActiveApiKeyWithPlan_def)
  then have "(k, t, p) \<in> set (joined_rows kh now db)" by simp
  then show ?thesis
    using assms j unfolding joined_rows_iff
    by (intro exI [of _ k] exI [of _ t] exI [of _ p]) (auto simp: findActiveApiKeyWithPlan_def)
qed

lemma findActive_None:
  "findActiveApiKeyWithPlan kh now db = None \<longleftrightarrow> joined_rows kh now db = []"
  by (auto simp: findActiveApiKeyWithPlan_def split: list.splits prod.splits)

text \<open>
  The lookup finds a key exactly when a row with that hash exists that is neither revoked nor
  expired and whose tenant exists, is active and has a plan.
\<close>

theorem findActive_iff:
  "findActiveApiKeyWithPlan kh now db \<noteq> None \<longleftrightarrow>
     (\<exists>k t p. k \<in> set (api_keys db) \<and> ak_key_hash k = kh \<and> t \<in> set (tenants db) \<and> tn_id t = ak_tenant_id k
        \<and> p \<in> set (plans db) \<and> pl_id p = tn_plan_id t \<and> active_row now k t)"
proof -
  have "joined_rows kh now db \<noteq> [] \<longleftrightarrow> (\<exists>k t p. (k, t, p) \<in> set (joined_rows kh now db))"
    by (cases "joined_rows kh now db") auto
  then show ?thesis unfolding findActive_None joined_rows_iff by blast
qed

text \<open>
  Revocation is for good: once a key has been revoked, no later statement of the gateway, in any
  order, makes the lookup find it again.
\<close>

theorem revocation_permanent:
  assumes "db_wf db" "k \<in> set (api_keys db)" "ak_id k = i"
  shows "findActiveApiKeyWithPlan (ak_key_hash k) later (db_calls h cs (fst (revokeApiKey i now db))) = None"
proof -
  let ?db = "fst (revokeApiKey i now db)"
  have "revoked_hash (ak_key_hash k) ?db"
    using assms(2,3) by (rule revoke_marks)
  moreover have "db_wf ?db" using db_wf_call [OF assms(1), of h "Revoke i now"] by simp
  ultimately have "db_wf (db_calls h cs ?db)" "revoked_hash (ak_key_hash k) (db_calls h cs ?db)"
    using db_calls_keep by blast+
  moreover have "inj_on ak_key_hash (set (api_keys (db_calls h cs ?db)))"
    using calculation(1) by (simp add: db_wf_def distinct_map)
  ultimately have "\<forall>k' \<in> set (api_keys (db_calls h cs ?db)). ak_key_hash k' = ak_key_hash k \<longrightarrow> ak_revoked_at k' \<noteq> None"
    unfolding revoked_hash_def by (metis inj_onD)
  then show ?thesis
    using findActive_iff [of "ak_key_hash k" later "db_calls h cs ?db"] by (auto simp: active_row_def)
qed

section \<open>Witness\<close>

abbreviation small_db :: database where
  "small_db \<equiv> \<lparr>plans = [\<lparr>pl_id = ''p'', pl_name = ''free'', pl_rate_limit = 10, pl_window_sec = 60, pl_burst = 10,
       pl_quota_monthly = None\<rparr>],
     tenants = [\<lparr>tn_id = ''t'', tn_name = ''acme'', tn_plan_id = ''p'', tn_status = ''active'', tn_created_at = 0\<rparr>],
     api_keys = [\<lparr>ak_id = ''k'', ak_tenant_id = ''t'', ak_key_hash = ''00ff'', ak_key_prefix = ''ag_live_a1b2'',
       ak_name = None, ak_scopes = [], ak_last_used_at = None, ak_expires_at = None, ak_revoked_at = None,
       ak_created_at = 0\<rparr>]\<rparr>"

lemma revocation_permanent_witness:
  "findActiveApiKeyWithPlan ''00ff'' 9 (db_calls id [Touch ''k'' 6, SetStatus ''t'' ''active'']
      (fst (revokeApiKey ''k'' 5 small_db))) = None"
  using revocation_permanent [of small_db "hd (api_keys small_db)" "''k''" 9 id "[Touch ''k'' 6, SetStatus ''t'' ''active'']" 5]
  by (simp add: db_wf_def)

end
