(* ===== verification/AuthHook.thy ===== *)
theory AuthHook
  imports Database
begin

text \<open>
  \<open>gateway/src/auth/index.ts\<close>: who is calling. An API key is looked up in a Redis cache with a time to
  live of 60 seconds, then in the database; revocation (\<open>DELETE /admin/keys/:keyId\<close>) updates the
  database and then deletes the cache entry. Each \<open>await\<close> is a step of \<open>auth_step\<close>, so lookups and
  revocations interleave as they do in the process.
\<close>

section \<open>The cache\<close>

text \<open>What a cached string is: the marker, the JSON of a record, or text that does not parse.\<close>

datatype cached_text = InvalidMarker | CachedRecord active_key | Unparsable

type_synonym key_cache = "string \<rightharpoonup> cached_text \<times> number"

definition API_KEY_CACHE_TTL_SEC :: number where
  "API_KEY_CACHE_TTL_SEC = 60"

definition apiKeyCacheKey :: "string \<Rightarrow> string" where
  "apiKeyCacheKey hash = ''auth:apikey:'' @ hash"

text \<open>\<open>GET\<close> and \<open>SET ... EX\<close> of Redis.\<close>

definition redis_get :: "key_cache \<Rightarrow> number \<Rightarrow> string \<Rightarrow> cached_text option" where
  "redis_get m now k = (case m k of Some (v, e) \<Rightarrow> if now < e then Some v else None | None \<Rightarrow> None)"

definition redis_set :: "key_cache \<Rightarrow> number \<Rightarrow> string \<Rightarrow> cached_text \<Rightarrow> key_cache" where
  "redis_set m now k v = m(k \<mapsto> (v, now + API_KEY_CACHE_TTL_SEC * 1000))"

definition cache_text :: "active_key option \<Rightarrow> cached_text" where
  "cache_text r = (case r of Some a \<Rightarrow> CachedRecord a | None \<Rightarrow> InvalidMarker)"

section \<open>lookupApiKey\<close>

text \<open>
  The answer of the cache, if it gives one: a failing \<open>GET\<close> (\<open>get_ok = False\<close>) or unparsable text
  falls through to the database.
\<close>

definition cache_answer :: "key_cache option \<Rightarrow> bool \<Rightarrow> number \<Rightarrow> string \<Rightarrow> active_key option option" where
  "cache_answer rdb get_ok now hash =
     (case rdb of
        None \<Rightarrow> None
      | Some m \<Rightarrow>
          if \<not> get_ok then None
          else (case redis_get m now (apiKeyCacheKey hash) of
                  Some InvalidMarker \<Rightarrow> Some None
                | Some (CachedRecord a) \<Rightarrow> Some (Some a)
                | _ \<Rightarrow> None))"

text \<open>The whole lookup when nothing else runs in between.\<close>

definition lookupApiKey ::
  "(string \<Rightarrow> string) \<Rightarrow> number \<Rightarrow> bool \<Rightarrow> bool \<Rightarrow> string \<Rightarrow> database \<Rightarrow> key_cache option
    \<Rightarrow> active_key option \<times> database \<times> key_cache option" where
  "lookupApiKey sha256 now get_ok set_ok token db rdb =
     (let hash = hashApiKey sha256 token in
      case cache_answer rdb get_ok now hash of
        Some answer \<Rightarrow> (answer, db, rdb)
      | None \<Rightarrow>
          (let record = findActiveApiKeyWithPlan hash now db;
               rdb' = (case rdb of
                   Some m \<Rightarrow> Some (if set_ok then redis_set m now (apiKeyCacheKey hash) (cache_text record) else m)
                 | None \<Rightarrow> None);
               db' = (case record of Some a \<Rightarrow> touchApiKeyLastUsed (act_id a) now db | None \<Rightarrow> db)
           in (record, db', rdb')))"

section \<open>authenticateRequest\<close>

record auth_outcome =
  ok :: bool
  o_tenantId :: "string option"
  o_scopes :: "string list"
  o_plan :: "tenant_plan option"

definition denied :: auth_outcome where
  "denied = \<lparr>ok = False, o_tenantId = None, o_scopes = [], o_plan = None\<rparr>"

definition authorization_header :: "headers \<Rightarrow> string option" where
  "authorization_header hs = (case map_of hs ''authorization'' of Some (HText h) \<Rightarrow> Some h | _ \<Rightarrow> None)"

definition sendUnauthorized :: "reply \<Rightarrow> reply" where
  "sendUnauthorized reply = send_error 401 ''unauthorized'' reply"

text \<open>\<open>db\<close> is \<open>deps.db\<close>; the database and the cache are returned as the lookup leaves them.\<close>

definition authenticateRequest ::
  "(string \<Rightarrow> string) \<Rightarrow> jwt_verify \<Rightarrow> number \<Rightarrow> bool \<Rightarrow> bool \<Rightarrow> route_config \<Rightarrow> headers \<Rightarrow> database option \<Rightarrow> key_cache option
    \<Rightarrow> reply \<Rightarrow> auth_outcome \<times> reply \<times> database option \<times> key_cache option" where
  "authenticateRequest sha256 jwtVerify now get_ok set_ok route hs db rdb reply =
     (if auth route = AuthNone then (denied\<lparr>ok := True\<rparr>, reply, db, rdb)
      else case extractBearerToken (authorization_header hs) of
        None \<Rightarrow> (denied, sendUnauthorized reply, db, rdb)
      | Some token \<Rightarrow>
          (case auth route of
             AuthJwt url iss aud tc sc \<Rightarrow>
               (case verifyJwt jwtVerify token \<lparr>jo_jwksUrl = url, jo_issuer = iss, jo_audience = aud,
                       jo_tenantClaim = tc, jo_scopeClaim = sc\<rparr> of
                  None \<Rightarrow> (denied, sendUnauthorized reply, db, rdb)
                | Some a \<Rightarrow> (\<lparr>ok = True, o_tenantId = Some (ar_tenantId a), o_scopes = ar_scopes a, o_plan = None\<rparr>,
                             reply, db, rdb))
           | _ \<Rightarrow>
               (case db of
                  None \<Rightarrow> (denied, send_error 500 ''server_misconfigured'' reply, db, rdb)
                | Some d \<Rightarrow>
                    (case lookupApiKey sha256 now get_ok set_ok token d rdb of
                       (record, d', rdb') \<Rightarrow>
                         (case record of
                            None \<Rightarrow> (denied, sendUnauthorized reply, Some d', rdb')
                          | Some a \<Rightarrow>
                              if verifyApiKeyHash sha256 token (act_keyHash a)
                              then (\<lparr>ok = True, o_tenantId = Some (act_tenantId a), o_scopes = act_scopes a,
                                     o_plan = Some (act_plan a)\<rparr>, reply, Some d', rdb')
                              else (denied, sendUnauthorized reply, Some d', rdb'))))))"

text \<open>
  A request is refused exactly when an answer has been sent, and the answer is a 401 or, only
  without a database, a 500; a request let through on a protected route names its tenant.
\<close>

theorem authenticateRequest_replies:
  assumes "r_sent reply = None"
    and "authenticateRequest h jv now g s route hs db rdb reply = (out, reply', db', rdb')"
  shows "(ok out \<longleftrightarrow> r_sent reply' = None)
    \<and> (\<not> ok out \<longrightarrow> (\<exists>r. r_sent reply' = Some r \<and> (status r = 401 \<or> status r = 500 \<and> db = None)))
    \<and> (ok out \<and> auth route \<noteq> AuthNone \<longrightarrow> o_tenantId out \<noteq> None)"
  using assms
  by (auto simp: authenticateRequest_def denied_def sendUnauthorized_def
      split: if_splits option.splits auth_config.splits prod.splits)

text \<open>
  Without a cache, an API key is accepted exactly when its hash is that of a key that is neither
  revoked nor expired and whose tenant is active; the tenant and the plan are those of the record.
\<close>

theorem authenticateRequest_apiKey:
  assumes "auth route = AuthApiKey" "extractBearerToken (authorization_header hs) = Some token"
    and "authenticateRequest h jv now g s route hs (Some db) None reply = (out, reply', db', rdb')"
  shows "case findActiveApiKeyWithPlan (hashApiKey h token) now db of
      None \<Rightarrow> \<not> ok out
    | Some a \<Rightarrow> ok out \<and> o_tenantId out = Some (act_tenantId a) \<and> o_plan out = Some (act_plan a)"
proof -
  have "verifyApiKeyHash h token (act_keyHash a)"
    if "findActiveApiKeyWithPlan (hashApiKey h token) now db = Some a" for a
    using findActive_Some [OF that] by (auto simp: verifyApiKeyHash_def Let_def)
  then show ?thesis
    using assms
    by (auto simp: authenticateRequest_def lookupApiKey_def cache_answer_def denied_def Let_def
        split: option.splits if_splits)
qed

section \<open>Lookups and revocations interleaved\<close>

text \<open>
  \<open>looking\<close> are the lookups between the database's answer and the \<open>SET\<close>, \<open>revoking\<close> the revocations
  between the \<open>UPDATE\<close> and the \<open>DEL\<close>.
\<close>

record auth_system =
  sys_db :: database
  sys_cache :: key_cache
  looking :: "(string \<times> active_key option) list"
  revoking :: "string list"
  sys_clock :: number

datatype auth_event = Answered string "active_key option" | Internal

inductive auth_step :: "(string \<Rightarrow> string) \<Rightarrow> auth_system \<Rightarrow> auth_event \<Rightarrow> auth_system \<Rightarrow> bool" for h where
  tick: "sys_clock s \<le> t \<Longrightarrow> auth_step h s Internal (s\<lparr>sys_clock := t\<rparr>)"
| cached: "cache_answer (Some (sys_cache s)) True (sys_clock s) hash = Some answer
    \<Longrightarrow> auth_step h s (Answered hash answer) s"
| read_db: "record = findActiveApiKeyWithPlan hash (sys_clock s) (sys_db s)
    \<Longrightarrow> auth_step h s Internal (s\<lparr>looking := (hash, record) # looking s\<rparr>)"
| store: "looking s = before @ (hash, record) # after
    \<Longrightarrow> auth_step h s (Answered hash record)
          (s\<lparr>looking := before @ after,
             sys_cache := redis_set (sys_cache s) (sys_clock s) (apiKeyCacheKey hash) (cache_text record)\<rparr>)"
| store_fails: "looking s = before @ (hash, record) # after
    \<Longrightarrow> auth_step h s (Answered hash record) (s\<lparr>looking := before @ after\<rparr>)"
| revoke_db: "revokeApiKey i (sys_clock s) (sys_db s) = (db', Some hash)
    \<Longrightarrow> auth_step h s Internal (s\<lparr>sys_db := db', revoking := hash # revoking s\<rparr>)"
| revoke_del: "revoking s = before @ hash # after
    \<Longrightarrow> auth_step h s Internal
          (s\<lparr>revoking := before @ after, sys_cache := (sys_cache s)(apiKeyCacheKey hash := None)\<rparr>)"
| other_call: "auth_step h s Internal (s\<lparr>sys_db := db_exec h c (sys_db s)\<rparr>)"

inductive auth_run :: "(string \<Rightarrow> string) \<Rightarrow> auth_system \<Rightarrow> auth_event list \<Rightarrow> auth_system \<Rightarrow> bool" for h where
  stop: "auth_run h s [] s"
| step: "auth_step h s e s' \<Longrightarrow> auth_run h s' es s'' \<Longrightarrow> auth_run h s (e # es) s''"

text \<open>Nothing in the process still vouches for the key.\<close>

definition forgotten :: "string \<Rightarrow> auth_system \<Rightarrow> bool" where
  "forgotten hash s \<longleftrightarrow> db_wf (sys_db s) \<and> revoked_hash hash (sys_db s)
     \<and> (\<forall>a e. sys_cache s (apiKeyCacheKey hash) \<noteq> Some (CachedRecord a, e))
     \<and> (\<forall>a. (hash, Some a) \<notin> set (looking s))"

lemma revoked_not_found: "db_wf db \<Longrightarrow> revoked_hash hash db \<Longrightarrow> findActiveApiKeyWithPlan hash now db = None"
proof -
  assume wf: "db_wf db" and r: "revoked_hash hash db"
  then have "\<forall>k \<in> set (api_keys db). ak_key_hash k = hash \<longrightarrow> ak_revoked_at k \<noteq> None"
    unfolding revoked_hash_def db_wf_def distinct_map by (metis inj_onD)
  then show ?thesis using findActive_iff [of hash now db] by (auto simp: active_row_def)
qed

lemma cache_key_inj [simp]: "apiKeyCacheKey a = apiKeyCacheKey b \<longleftrightarrow> a = b"
  by (simp add: apiKeyCacheKey_def)

lemma forgotten_step:
  assumes "auth_step h s e s'" "forgotten hash s"
  shows "forgotten hash s' \<and> (\<forall>a. e \<noteq> Answered hash (Some a))"
  using assms
proof (induction rule: auth_step.induct)
  case (cached s hash' answer)
  then show ?case
    by (auto simp: forgotten_def cache_answer_def redis_get_def split: option.splits if_splits cached_text.splits)
next
  case (read_db found hash' s)
  then show ?case
    using revoked_not_found [of "sys_db s" hash "sys_clock s"] by (auto simp: forgotten_def)
next
  case (store s before hash' found after)
  then show ?case
    by (auto simp: forgotten_def redis_set_def cache_text_def split: option.splits)
next
  case (store_fails s before hash' found after)
  then show ?case by (cases found) (auto simp: forgotten_def)
next
  case (revoke_db i s db' hash')
  have "db' = fst (revokeApiKey i (sys_clock s) (sys_db s))" using revoke_db by simp
  then have db': "db' = db_exec h (Revoke i (sys_clock s)) (sys_db s)" by simp
  have "db_wf db' \<and> revoked_hash hash db'"
    using revoke_db.prems unfolding db' forgotten_def by (blast intro: db_wf_call revoked_call)
  then show ?case using revoke_db.prems by (auto simp: forgotten_def)
next
  case (other_call s c)
  then have "db_wf (db_exec h c (sys_db s)) \<and> revoked_hash hash (db_exec h c (sys_db s))"
    unfolding forgotten_def by (blast intro: db_wf_call revoked_call)
  then show ?case using other_call by (auto simp: forgotten_def)
qed (auto simp: forgotten_def)

text \<open>
  C19: revocation takes effect at once, if no lookup is caught in the middle of it: when the cache entry
  has been deleted and no lookup that read the key before is still to write it back, no later request
  with the key is accepted, however lookups, revocations and other statements interleave.
\<close>

theorem revocation_effective:
  assumes "db_wf (sys_db s)" "revoked_hash hash (sys_db s)"
    and "sys_cache s (apiKeyCacheKey hash) = None" "\<forall>a. (hash, Some a) \<notin> set (looking s)"
    and "auth_run h s es s'"
  shows "Answered hash (Some a) \<notin> set es"
proof -
  have "forgotten hash s" using assms(1-4) by (simp add: forgotten_def)
  with assms(5) show ?thesis
  proof (induction rule: auth_run.induct)
    case (step s e s' es s'')
    from forgotten_step [OF step.hyps(1) step.prems] step.IH show ?case by auto
  qed simp
qed


text \<open>
  Suspending a tenant deletes no cache entry, so the tenant's keys are accepted until their entries
  expire, up to a minute later.
\<close>

theorem suspension_not_immediate:
  assumes "lookupApiKey h t0 True True token db (Some Map.empty) = (Some a, db1, rdb)"
    and "t0 \<le> now" "now < t0 + 60000"
  shows "fst (lookupApiKey h now True True token (fst (setTenantStatus (act_tenantId a) ''suspended'' db1)) rdb) = Some a"
  using assms
  by (auto simp: lookupApiKey_def cache_answer_def redis_get_def redis_set_def cache_text_def
      API_KEY_CACHE_TTL_SEC_def Let_def split: option.splits)

section \<open>Witnesses\<close>

abbreviation key_route :: route_config where
  "key_route \<equiv> (bare_route ''r'')\<lparr>auth := AuthApiKey\<rparr>"

abbreviation empty_reply :: reply where
  "empty_reply \<equiv> \<lparr>r_headers = [], r_sent = None\<rparr>"

abbreviation key_headers :: headers where
  "key_headers \<equiv> [(''authorization'', HText ''Bearer 00ff'')]"

lemma key_token: "extractBearerToken (authorization_header key_headers) = Some ''00ff''"
  by code_simp

lemma small_found: "findActiveApiKeyWithPlan ''00ff'' now small_db = Some \<lparr>act_id = ''k'', act_tenantId = ''t'',
    act_scopes = [], act_keyHash = ''00ff'', act_plan = \<lparr>plan_limit = 10, plan_windowSec = 60, plan_burst = 10\<rparr>\<rparr>"
  by (simp add: findActiveApiKeyWithPlan_def joined_rows_def active_row_def)

lemma authenticateRequest_replies_witness:
  "ok (fst (authenticateRequest id (\<lambda>_ _ _ _. None) 5 True True key_route [] (Some small_db) None empty_reply)) = False"
proof -
  obtain out reply' db' rdb' where e: "authenticateRequest id (\<lambda>_ _ _ _. None) 5 True True key_route [] (Some small_db) None
      empty_reply = (out, reply', db', rdb')" by (metis prod.exhaust)
  have "r_sent reply' \<noteq> None"
    using e by (auto simp: authenticateRequest_def authorization_header_def extractBearerToken_def sendUnauthorized_def)
  with authenticateRequest_replies [OF _ e] e show ?thesis by simp
qed

lemma authenticateRequest_apiKey_witness:
  "o_tenantId (fst (authenticateRequest id (\<lambda>_ _ _ _. None) 5 True True key_route key_headers (Some small_db) None empty_reply))
     = Some ''t''"
proof -
  obtain out reply' db' rdb' where e: "authenticateRequest id (\<lambda>_ _ _ _. None) 5 True True key_route key_headers
      (Some small_db) None empty_reply = (out, reply', db', rdb')" by (metis prod.exhaust)
  from authenticateRequest_apiKey [OF _ key_token e] e show ?thesis by (simp add: hashApiKey_def small_found)
qed

lemma revocation_effective_witness:
  "\<forall>a. Answered ''00ff'' (Some a) \<notin> set [Answered ''00ff'' None]"
proof
  fix a
  let ?db = "fst (revokeApiKey ''k'' 0 small_db)"
  let ?s = "\<lparr>sys_db = ?db, sys_cache = [apiKeyCacheKey ''00ff'' \<mapsto> (InvalidMarker, 9)], looking = [], revoking = [], sys_clock = 5\<rparr>"
  let ?t = "\<lparr>sys_db = ?db, sys_cache = Map.empty, looking = [(''00ff'', None)], revoking = [], sys_clock = 5\<rparr>"
  have rev: "revoked_hash ''00ff'' ?db" using revoke_marks [of "hd (api_keys small_db)" small_db "''k''" 0] by simp
  have wf: "db_wf ?db" by (simp add: db_wf_def revokeApiKey_def Let_def)
  have "auth_step id ?t (Answered ''00ff'' None) (?t\<lparr>looking := []\<rparr>)"
    using auth_step.store_fails [of ?t "[]" "''00ff''" None "[]" id] by simp
  then have "auth_run id ?t [Answered ''00ff'' None] (?t\<lparr>looking := []\<rparr>)"
    by (rule auth_run.step [OF _ auth_run.stop])
  from revocation_effective [OF _ _ _ _ this, of "''00ff''" a] rev wf
  show "Answered ''00ff'' (Some a) \<notin> set [Answered ''00ff'' None]" by simp
qed

lemma suspension_not_immediate_witness:
  "fst (lookupApiKey id 59000 True True ''00ff'' (fst (setTenantStatus ''t'' ''suspended''
      (fst (snd (lookupApiKey id 0 True True ''00ff'' small_db (Some Map.empty))))))
      (snd (snd (lookupApiKey id 0 True True ''00ff'' small_db (Some Map.empty))))) \<noteq> None"
proof -
  obtain r db1 rdb where e: "lookupApiKey id 0 True True ''00ff'' small_db (Some Map.empty) = (r, db1, rdb)"
    by (metis prod.exhaust)
  have r: "r = Some \<lparr>act_id = ''k'', act_tenantId = ''t'', act_scopes = [], act_keyHash = ''00ff'',
      act_plan = \<lparr>plan_limit = 10, plan_windowSec = 60, plan_burst = 10\<rparr>\<rparr>"
    using e by (simp add: lookupApiKey_def cache_answer_def redis_get_def hashApiKey_def small_found Let_def)
  from suspension_not_immediate [OF e [unfolded r], of 59000] e r show ?thesis by simp
qed

end
