(* ===== verification/Cors.thy ===== *)
theory Cors
  imports Config Http
begin

text \<open>
  \<open>gateway/src/cors/index.ts\<close>: which origins a route accepts and the headers it writes. \<open>reply.header\<close>
  is \<open>set_header\<close>.
\<close>

definition isOriginAllowed :: "cors_config \<Rightarrow> string \<Rightarrow> bool" where
  "isOriginAllowed c origin \<longleftrightarrow> ''*'' \<in> set (cors_origins c) \<or> origin \<in> set (cors_origins c)"

definition allowOriginValue :: "cors_config \<Rightarrow> string \<Rightarrow> string" where
  "allowOriginValue c origin = (if ''*'' \<in> set (cors_origins c) \<and> \<not> cors_credentials c then ''*'' else origin)"

definition applyCorsResponseHeaders :: "cors_config \<Rightarrow> string \<Rightarrow> reply \<Rightarrow> reply" where
  "applyCorsResponseHeaders c origin r =
     (let r = set_header ''Access-Control-Allow-Origin'' (HText (allowOriginValue c origin)) r;
          r = set_header ''Vary'' (HText ''Origin'') r;
          r = (if cors_credentials c then set_header ''Access-Control-Allow-Credentials'' (HText ''true'') r else r)
      in if cors_exposedHeaders c \<noteq> []
         then set_header ''Access-Control-Expose-Headers'' (HText (js_join '', '' (cors_exposedHeaders c))) r
         else r)"

text \<open>\<open>String(cors.maxAgeSec)\<close> is kept as a number.\<close>

definition applyPreflightHeaders :: "cors_config \<Rightarrow> string \<Rightarrow> reply \<Rightarrow> reply" where
  "applyPreflightHeaders c origin r =
     (let r = applyCorsResponseHeaders c origin r;
          r = set_header ''Access-Control-Allow-Methods'' (HText (js_join '', '' (cors_methods c))) r;
          r = set_header ''Access-Control-Allow-Headers'' (HText (js_join '', '' (cors_allowedHeaders c))) r
      in set_header ''Access-Control-Max-Age'' (HNum (cors_maxAgeSec c)) r)"

lemma cors_sent [simp]:
  "r_sent (applyCorsResponseHeaders c origin r) = r_sent r"
  "r_sent (applyPreflightHeaders c origin r) = r_sent r"
  by (simp_all add: applyCorsResponseHeaders_def applyPreflightHeaders_def Let_def)

lemma cors_header_values:
  "reply_header ''access-control-allow-origin'' (applyCorsResponseHeaders c origin r)
     = Some (HText (allowOriginValue c origin))"
  "reply_header ''vary'' (applyCorsResponseHeaders c origin r) = Some (HText ''Origin'')"
  "reply_header ''access-control-allow-credentials'' (applyCorsResponseHeaders c origin r)
     = (if cors_credentials c then Some (HText ''true'') else reply_header ''access-control-allow-credentials'' r)"
  by (simp_all add: applyCorsResponseHeaders_def Let_def)

text \<open>
  The wildcard is never combined with credentials: when a reply allows credentials it names the
  one origin that asked, and when it says \<open>*\<close> it allows none (unless the upstream said so itself).
\<close>

theorem cors_credentials_origin:
  assumes "isOriginAllowed c origin" "reply_header ''access-control-allow-credentials'' r = None"
    and "origin \<noteq> ''*''"
  shows "(reply_header ''access-control-allow-origin'' (applyCorsResponseHeaders c origin r) = Some (HText ''*'')
           \<longleftrightarrow> ''*'' \<in> set (cors_origins c)
             \<and> reply_header ''access-control-allow-credentials'' (applyCorsResponseHeaders c origin r) = None)
    \<and> (reply_header ''access-control-allow-origin'' (applyCorsResponseHeaders c origin r) \<noteq> Some (HText ''*'')
           \<longrightarrow> reply_header ''access-control-allow-origin'' (applyCorsResponseHeaders c origin r) = Some (HText origin))"
  using assms by (auto simp: cors_header_values allowOriginValue_def isOriginAllowed_def)

lemma cors_credentials_origin_witness:
  "reply_header ''access-control-allow-origin'' (applyCorsResponseHeaders
     \<lparr>cors_enabled = True, cors_origins = [''*''], cors_methods = [''GET''], cors_allowedHeaders = [],
      cors_exposedHeaders = [], cors_credentials = True, cors_maxAgeSec = 600\<rparr> ''https://a'' \<lparr>r_headers = [], r_sent = None\<rparr>)
    = Some (HText ''https://a'')"
  using cors_credentials_origin [of "\<lparr>cors_enabled = True, cors_origins = [''*''], cors_methods = [''GET''],
     cors_allowedHeaders = [], cors_exposedHeaders = [], cors_credentials = True, cors_maxAgeSec = 600\<rparr>" "''https://a''"
     "\<lparr>r_headers = [], r_sent = None\<rparr>"]
  by (simp add: isOriginAllowed_def cors_header_values)

end
