(* ===== verification/BodyLimits.thy ===== *)
theory BodyLimits
  imports Http JsParse
begin

text \<open>
  \<open>gateway/src/security/limits.ts\<close>: the two \<open>onRequest\<close> hooks and the transform that counts a streamed
  body. A stream is the list of the chunks it delivers and how it ends.
\<close>

section \<open>The hooks\<close>

definition enforceHeaderLimit :: "nat \<Rightarrow> headers \<Rightarrow> reply \<Rightarrow> reply" where
  "enforceHeaderLimit maxHeaderCount hs reply =
     (if maxHeaderCount < length (remdups (map fst hs)) then send_error 431 ''too_many_headers'' reply else reply)"

text \<open>
  \<open>Number(request.headers['content-length'])\<close>: \<open>undefined\<close> gives \<open>NaN\<close>, as does text that is no number.
\<close>

definition declared_length :: "headers \<Rightarrow> number option" where
  "declared_length hs = (case map_of hs ''content-length'' of Some (HText v) \<Rightarrow> js_number v | _ \<Rightarrow> None)"

definition enforceBodyLimit :: "number \<Rightarrow> headers \<Rightarrow> reply \<Rightarrow> reply" where
  "enforceBodyLimit maxBodyBytes hs reply =
     (case declared_length hs of
        Some declared \<Rightarrow> if maxBodyBytes < declared then send_error 413 ''payload_too_large'' reply else reply
      | None \<Rightarrow> reply)"

section \<open>limitBodySize\<close>

text \<open>How a stream ends: normally, with \<open>BodyTooLargeError\<close>, or with an error of its source.\<close>

datatype stream_end = Ended | TooLarge | SourceError string

text \<open>The \<open>transform\<close> callback over the chunks, from \<open>seen\<close> bytes on.\<close>

fun limit_transform :: "nat \<Rightarrow> nat \<Rightarrow> string list \<Rightarrow> stream_end \<Rightarrow> string list \<times> stream_end" where
  "limit_transform maxBodyBytes seen [] fin = ([], fin)"
| "limit_transform maxBodyBytes seen (chunk # chunks) fin =
     (let seen = seen + length chunk in
      if maxBodyBytes < seen then ([], TooLarge)
      else (let (out, e) = limit_transform maxBodyBytes seen chunks fin in (chunk # out, e)))"

definition limitBodySize :: "nat \<Rightarrow> string list \<times> stream_end \<Rightarrow> string list \<times> stream_end" where
  "limitBodySize maxBodyBytes source = limit_transform maxBodyBytes 0 (fst source) (snd source)"

lemma limit_transform_spec:
  "limit_transform m seen cs fin = (out, e) \<Longrightarrow> seen \<le> m \<Longrightarrow>
     (\<exists>rest. cs = out @ rest) \<and> seen + length (concat out) \<le> m
     \<and> (if seen + length (concat cs) \<le> m then out = cs \<and> e = fin
        else e = TooLarge \<and> (\<exists>c rest. cs = out @ c # rest \<and> m < seen + length (concat out) + length c))"
proof (induction cs arbitrary: seen out e)
  case (Cons c cs)
  show ?case
  proof (cases "m < seen + length c")
    case True
    with Cons.prems show ?thesis by auto
  next
    case False
    obtain out' e' where l: "limit_transform m (seen + length c) cs fin = (out', e')" by force
    with False Cons.prems have o: "out = c # out'" "e = e'" by (auto simp: Let_def)
    from Cons.IH [OF l] False have ih:
      "\<exists>rest. cs = out' @ rest" "seen + length c + length (concat out') \<le> m"
      "if seen + length c + length (concat cs) \<le> m then out' = cs \<and> e' = fin
       else e' = TooLarge \<and> (\<exists>d rest. cs = out' @ d # rest \<and> m < seen + length c + length (concat out') + length d)"
      by auto
    show ?thesis
    proof (cases "seen + length c + length (concat cs) \<le> m")
      case True
      with ih o show ?thesis by (simp add: add.assoc)
    next
      case big: False
      with ih(3) obtain d rest where "e' = TooLarge" "cs = out' @ d # rest"
        "m < seen + length c + length (concat out') + length d" by auto
      with ih(2) o big show ?thesis by (auto simp: add.assoc)
    qed
  qed
qed auto

text \<open>
  A body of at most \<open>maxBodyBytes\<close> passes \<open>limitBodySize\<close> unchanged, chunk by chunk, and ends as its
  source does; a larger one is cut with \<open>BodyTooLargeError\<close> at the first chunk that exceeds the limit,
  and no more than \<open>maxBodyBytes\<close> bytes of it ever reach the upstream.
\<close>

theorem limitBodySize_correct:
  "length (concat (fst (limitBodySize m (cs, fin)))) \<le> m
   \<and> (length (concat cs) \<le> m \<longrightarrow> limitBodySize m (cs, fin) = (cs, fin))
   \<and> (m < length (concat cs) \<longrightarrow> snd (limitBodySize m (cs, fin)) = TooLarge
        \<and> (\<exists>c rest. cs = fst (limitBodySize m (cs, fin)) @ c # rest))"
proof -
  obtain out e where l: "limit_transform m 0 cs fin = (out, e)" by force
  from limit_transform_spec [OF l] show ?thesis by (auto simp: limitBodySize_def l)
qed

lemma limitBodySize_correct_witness:
  "snd (limitBodySize 3 ([''ab'', ''cd''], Ended)) = TooLarge"
  using limitBodySize_correct [of 3 "[''ab'', ''cd'']" Ended] by simp

section \<open>Declared lengths\<close>

text \<open>
  A request whose declared length exceeds the limit is answered with 413 before a byte is read; one
  within the limit, or without a declaration the code understands, passes untouched.
\<close>

theorem enforceBodyLimit_verdict:
  assumes "r_sent reply = None"
  shows "(r_sent (enforceBodyLimit m hs reply) = None \<longleftrightarrow> (\<forall>n. declared_length hs = Some n \<longrightarrow> n \<le> m))
    \<and> (\<forall>a. r_sent (enforceBodyLimit m hs reply) = Some a \<longrightarrow> status a = 413)"
  using assms by (auto simp: enforceBodyLimit_def split: option.splits)

lemma enforceBodyLimit_verdict_witness:
  "r_sent (enforceBodyLimit 10 [(''content-length'', HText ''11'')] \<lparr>r_headers = [], r_sent = None\<rparr>) \<noteq> None"
proof -
  have "declared_length [(''content-length'', HText ''11'')] = Some 11"
    by (simp add: declared_length_def js_number_eval)
  then show ?thesis
    using enforceBodyLimit_verdict [of "\<lparr>r_headers = [], r_sent = None\<rparr>" 10 "[(''content-length'', HText ''11'')]"]
    by auto
qed

end
