(* ===== verification/UrlToken.thy ===== *)
theory UrlToken
  imports ApiKey CacheKey
begin

text \<open>
  \<open>gateway/src/websocket/url.ts\<close>: the \<open>access_token\<close> query parameter, how it is read, removed from the URL
  the upstream gets, and masked in the URL the log gets. A URL is a string of code units below 256,
  as the HTTP parser delivers it; what \<open>decodeURIComponent\<close> returns may hold larger code units, so a
  decoded string is a list of code units.
\<close>

section \<open>decodeURIComponent\<close>

type_synonym units = "nat list"

definition units_of :: "string \<Rightarrow> units" where
  "units_of s = map of_char s"

text \<open>The byte of an escape \<open>%XX\<close> at the head of a string.\<close>

fun escaped_byte :: "string \<Rightarrow> (nat \<times> string) option" where
  "escaped_byte (p # a # b # s) =
     (if p = CHR ''%'' then (case (hex_value a, hex_value b) of (Some x, Some y) \<Rightarrow> Some (16 * x + y, s) | _ \<Rightarrow> None)
      else None)"
| "escaped_byte _ = None"

text \<open>\<open>n\<close> continuation bytes, accumulated into the code point.\<close>

fun continuation :: "nat \<Rightarrow> nat \<Rightarrow> string \<Rightarrow> (nat \<times> string) option" where
  "continuation 0 v s = Some (v, s)"
| "continuation (Suc n) v s =
     (case escaped_byte s of
        Some (b, s') \<Rightarrow> if 128 \<le> b \<and> b < 192 then continuation n (64 * v + (b - 128)) s' else None
      | None \<Rightarrow> None)"

text \<open>A code point as UTF-16; surrogates and values beyond the last plane are no code points.\<close>

definition utf16 :: "nat \<Rightarrow> units option" where
  "utf16 v = (if v < 55296 \<or> (57343 < v \<and> v < 65536) then Some [v]
     else if 65536 \<le> v \<and> v < 1114112 then Some [55296 + (v - 65536) div 1024, 56320 + (v - 65536) mod 1024]
     else None)"

text \<open>A sequence with lead byte \<open>b\<close>: its code point must not fit in a shorter sequence.\<close>

definition utf8_sequence :: "nat \<Rightarrow> string \<Rightarrow> (units \<times> string) option" where
  "utf8_sequence b s =
     (let decode = (\<lambda>n lead least.
        case continuation n (b - lead) s of
          Some (v, s') \<Rightarrow> if least \<le> v then map_option (\<lambda>u. (u, s')) (utf16 v) else None
        | None \<Rightarrow> None)
      in if b < 128 then Some ([b], s)
         else if 192 \<le> b \<and> b < 224 then decode 1 192 128
         else if 224 \<le> b \<and> b < 240 then decode 2 224 2048
         else if 240 \<le> b \<and> b < 248 then decode 3 240 65536
         else None)"

lemma escaped_byte_length: "escaped_byte s = Some (b, s') \<Longrightarrow> length s' < length s"
  by (induction s rule: escaped_byte.induct) (auto split: if_splits option.splits)

lemma continuation_length: "continuation n v s = Some (w, s') \<Longrightarrow> length s' \<le> length s"
proof (induction n v s rule: continuation.induct)
  case (2 n v s)
  then show ?case
    by (fastforce split: option.splits if_splits dest: escaped_byte_length)
qed simp

lemma utf8_sequence_length: "utf8_sequence b s = Some (u, s') \<Longrightarrow> length s' \<le> length s"
  by (auto simp: utf8_sequence_def Let_def simp del: continuation.simps split: if_splits option.splits
      dest!: continuation_length)

text \<open>\<open>None\<close> is the \<open>URIError\<close>.\<close>

function decodeURIComponent :: "string \<Rightarrow> units option" where
  "decodeURIComponent [] = Some []"
| "decodeURIComponent (c # s) =
     (if c \<noteq> CHR ''%'' then map_option ((#) (of_char c)) (decodeURIComponent s)
      else case escaped_byte (c # s) of
        None \<Rightarrow> None
      | Some (b, s') \<Rightarrow>
          (case utf8_sequence b s' of
             None \<Rightarrow> None
           | Some (u, s'') \<Rightarrow> map_option ((@) u) (decodeURIComponent s'')))"
  by pat_completeness auto
termination
proof (relation "measure length", goal_cases)
  case (3 c s p b s' q u s'')
  then show ?case using escaped_byte_length [of "c # s" b s'] utf8_sequence_length [of b s' u s''] by simp
qed auto

definition safeDecode :: "string \<Rightarrow> units" where
  "safeDecode value = (case decodeURIComponent value of Some u \<Rightarrow> u | None \<Rightarrow> units_of value)"

section \<open>The parameter\<close>

definition ACCESS_TOKEN_PARAM :: string where
  "ACCESS_TOKEN_PARAM = ''access_token''"

definition url_split :: "string \<Rightarrow> string \<times> string option" where
  "url_split url = (case js_index_of (CHR ''?'') url of
      None \<Rightarrow> (url, None)
    | Some i \<Rightarrow> (take i url, Some (drop (i + 1) url)))"

definition keyOf :: "string \<Rightarrow> units" where
  "keyOf pair = safeDecode (case js_index_of (CHR ''='') pair of None \<Rightarrow> pair | Some eq \<Rightarrow> take eq pair)"

definition pair_value :: "string \<Rightarrow> units" where
  "pair_value pair = (case js_index_of (CHR ''='') pair of None \<Rightarrow> [] | Some eq \<Rightarrow> safeDecode (drop (eq + 1) pair))"

fun first_token :: "string \<Rightarrow> string list \<Rightarrow> units option" where
  "first_token name [] = None"
| "first_token name (pair # pairs) =
     (if keyOf pair \<noteq> units_of name then first_token name pairs
      else let value = pair_value pair in if value \<noteq> [] then Some value else first_token name pairs)"

definition extractQueryToken :: "string \<Rightarrow> string \<Rightarrow> units option" where
  "extractQueryToken url name = (case snd (url_split url) of
      None \<Rightarrow> None
    | Some query \<Rightarrow> first_token name (js_split (CHR ''&'') query))"

definition stripQueryParam :: "string \<Rightarrow> string \<Rightarrow> string" where
  "stripQueryParam url name = (case url_split url of
      (path, None) \<Rightarrow> url
    | (path, Some query) \<Rightarrow>
        (let kept = filter (\<lambda>pair. pair \<noteq> [] \<and> keyOf pair \<noteq> units_of name) (js_split (CHR ''&'') query)
         in if kept = [] then path else path @ ''?'' @ js_join ''&'' kept))"

definition mask_pair :: "string \<Rightarrow> string \<Rightarrow> string" where
  "mask_pair name pair =
     (if keyOf pair = units_of name then hd (js_split (CHR ''='') pair) @ ''='' @ ''[redacted]'' else pair)"

definition redactUrl :: "string \<Rightarrow> string \<Rightarrow> string" where
  "redactUrl url name = (case url_split url of
      (path, None) \<Rightarrow> url
    | (path, Some query) \<Rightarrow> path @ ''?'' @ js_join ''&'' (map (mask_pair name) (js_split (CHR ''&'') query)))"

section \<open>Correctness\<close>

text \<open>The parameters of a URL, as written.\<close>

definition query_pairs :: "string \<Rightarrow> string list" where
  "query_pairs url = (case snd (url_split url) of None \<Rightarrow> [] | Some q \<Rightarrow> js_split (CHR ''&'') q)"

lemma url_split_path: "CHR ''?'' \<notin> set (fst (url_split url))"
proof (cases "js_index_of (CHR ''?'') url")
  case None
  then have "CHR ''?'' \<notin> set url" by (simp add: js_index_of_None)
  with None show ?thesis by (simp add: url_split_def)
next
  case (Some i)
  then show ?thesis using js_index_of_Some [OF Some] by (auto simp: url_split_def)
qed

lemma url_split_join [simp]: "CHR ''?'' \<notin> set path \<Longrightarrow> url_split (path @ CHR ''?'' # q) = (path, Some q)"
  by (simp add: url_split_def)

lemma url_split_bare [simp]: "CHR ''?'' \<notin> set path \<Longrightarrow> url_split path = (path, None)"
  by (simp add: url_split_def js_index_of_None [THEN iffD2])

lemma split_no_eq: "hd (js_split (CHR ''='') pair) = (case js_index_of (CHR ''='') pair of None \<Rightarrow> pair | Some eq \<Rightarrow> take eq pair)"
proof (cases "js_index_of (CHR ''='') pair")
  case None
  then have "CHR ''='' \<notin> set pair" by (simp add: js_index_of_None)
  with None show ?thesis by simp
next
  case (Some i)
  from js_index_of_Some [OF Some] obtain p q where "pair = p @ CHR ''='' # q" "CHR ''='' \<notin> set p" "length p = i" by blast
  with Some show ?thesis by simp
qed

lemma first_token_absent: "\<forall>p \<in> set ps. keyOf p = units_of name \<longrightarrow> pair_value p = [] \<Longrightarrow> first_token name ps = None"
  by (induction ps) auto

lemma keyOf_Nil [simp]: "keyOf [] = []"
  by (simp add: keyOf_def safeDecode_def)

lemma first_token_Some: "first_token name ps = Some v \<Longrightarrow> \<exists>p \<in> set ps. keyOf p = units_of name \<and> pair_value p = v \<and> v \<noteq> []"
  by (induction ps) (auto simp: Let_def split: if_splits)

lemma extract_pairs: "extractQueryToken url name = first_token name (query_pairs url)"
  by (auto simp: extractQueryToken_def query_pairs_def split: option.splits)

lemma strip_pairs:
  "fst (url_split (stripQueryParam url name)) = fst (url_split url)
   \<and> query_pairs (stripQueryParam url name) = filter (\<lambda>p. p \<noteq> [] \<and> keyOf p \<noteq> units_of name) (query_pairs url)"
proof (cases "snd (url_split url)")
  case None
  then show ?thesis by (auto simp: stripQueryParam_def query_pairs_def split: prod.splits)
next
  case (Some q)
  obtain path where u: "url_split url = (path, Some q)" using Some by (metis prod.collapse)
  have path: "CHR ''?'' \<notin> set path" using url_split_path [of url] by (simp add: u)
  let ?kept = "filter (\<lambda>p. p \<noteq> [] \<and> keyOf p \<noteq> units_of name) (js_split (CHR ''&'') q)"
  have "js_split (CHR ''&'') (js_join ''&'' ?kept) = ?kept" if "?kept \<noteq> []"
    using that js_split_pieces by (intro js_split_join) auto
  with path show ?thesis by (simp add: stripQueryParam_def query_pairs_def u Let_def)
qed

text \<open>
  The URL sent upstream keeps its path and, in order and as written, every parameter but the
  token; no token can be read from it, however its name was escaped.
\<close>

theorem stripQueryParam_correct:
  "fst (url_split (stripQueryParam url name)) = fst (url_split url)
   \<and> query_pairs (stripQueryParam url name) = filter (\<lambda>p. p \<noteq> [] \<and> keyOf p \<noteq> units_of name) (query_pairs url)
   \<and> extractQueryToken (stripQueryParam url name) name = None"
  using strip_pairs [of url name] by (auto simp: extract_pairs intro: first_token_absent)

lemma mask_pair_no_sep: "CHR ''&'' \<notin> set p \<Longrightarrow> CHR ''&'' \<notin> set (mask_pair name p)"
proof -
  assume p: "CHR ''&'' \<notin> set p"
  have "set (hd (js_split (CHR ''='') p)) \<subseteq> set p"
    unfolding split_no_eq by (auto split: option.splits dest: in_set_takeD)
  with p show ?thesis by (auto simp: mask_pair_def)
qed

lemma mask_pair_masked:
  assumes "keyOf p = units_of name"
  shows "keyOf (mask_pair name p) = units_of name \<and> pair_value (mask_pair name p) = units_of ''[redacted]''"
proof -
  let ?k = "hd (js_split (CHR ''='') p)"
  have k: "CHR ''='' \<notin> set ?k" by (rule js_split_pieces [of _ _ p]) simp
  have m: "mask_pair name p = ?k @ CHR ''='' # ''[redacted]''" using assms by (simp add: mask_pair_def)
  have "safeDecode ?k = units_of name" using assms by (simp add: keyOf_def split_no_eq)
  moreover have "safeDecode ''[redacted]'' = units_of ''[redacted]''" by code_simp
  ultimately show ?thesis unfolding m using k by (simp add: keyOf_def pair_value_def)
qed

lemma mask_pair_other: "keyOf p \<noteq> units_of name \<Longrightarrow> mask_pair name p = p"
  by (simp add: mask_pair_def)

lemma redact_pairs: "query_pairs (redactUrl url name) = map (mask_pair name) (query_pairs url)"
proof (cases "snd (url_split url)")
  case None
  then show ?thesis by (auto simp: redactUrl_def query_pairs_def split: prod.splits)
next
  case (Some q)
  obtain path where u: "url_split url = (path, Some q)" using Some by (metis prod.collapse)
  have path: "CHR ''?'' \<notin> set path" using url_split_path [of url] by (simp add: u)
  have "js_split (CHR ''&'') (js_join ''&'' (map (mask_pair name) (js_split (CHR ''&'') q)))
      = map (mask_pair name) (js_split (CHR ''&'') q)"
    using js_split_pieces mask_pair_no_sep by (intro js_split_join) auto
  with path show ?thesis by (simp add: redactUrl_def query_pairs_def u)
qed

text \<open>
  The URL that is logged has the same parameters in the same places, but every one whose name
  decodes to the token's has the value \<open>[redacted]\<close>: the log never holds a token that
  \<open>extractQueryToken\<close> would accept.
\<close>

theorem redactUrl_correct:
  "query_pairs (redactUrl url name) = map (mask_pair name) (query_pairs url)
   \<and> (\<forall>p \<in> set (query_pairs (redactUrl url name)). keyOf p = units_of name \<longrightarrow> pair_value p = units_of ''[redacted]'')
   \<and> filter (\<lambda>p. keyOf p \<noteq> units_of name) (query_pairs (redactUrl url name))
       = filter (\<lambda>p. keyOf p \<noteq> units_of name) (query_pairs url)
   \<and> (\<forall>t. extractQueryToken (redactUrl url name) name = Some t \<longrightarrow> t = units_of ''[redacted]'')"
proof -
  have masked: "pair_value (mask_pair name q) = units_of ''[redacted]''" if "keyOf (mask_pair name q) = units_of name" for q
    using that mask_pair_masked [of q name] mask_pair_other [of q name] by metis
  have other: "filter (\<lambda>p. keyOf p \<noteq> units_of name) (map (mask_pair name) ps) = filter (\<lambda>p. keyOf p \<noteq> units_of name) ps" for ps
    using mask_pair_masked mask_pair_other by (induction ps) auto
  have token: "t = units_of ''[redacted]''" if "first_token name (map (mask_pair name) ps) = Some t" for t ps
    using first_token_Some [OF that] masked by auto
  show ?thesis unfolding extract_pairs redact_pairs using masked other token by auto
qed

section \<open>Reading back\<close>

lemma hex_digit_cases:
  assumes "n < 16"
  obtains "n < 10" "(of_char (hex_digit n) :: nat) = n + 48" | "\<not> n < 10" "(of_char (hex_digit n) :: nat) = n + 55"
proof -
  have "(n + 48) mod 256 = n + 48" "(n + 55) mod 256 = n + 55" using assms by (intro mod_less; linarith)+
  with that show thesis by (cases "n < 10") (simp_all add: hex_digit_def take_bit_eq_mod del: mod_less)
qed

lemma hex_value_digit:
  assumes "n < 16"
  shows "hex_value (hex_digit n) = Some n"
  by (rule hex_digit_cases [OF assms]) (use assms in \<open>simp_all only: hex_value_def Let_def, simp_all\<close>)

lemma unreserved_digit:
  assumes "n < 16"
  shows "unreserved (hex_digit n)"
  by (rule hex_digit_cases [OF assms]) (use assms in \<open>simp_all only: unreserved_def Let_def, simp_all\<close>)

lemma escaped_byte_hex:
  assumes "b < 256"
  shows "escaped_byte (hex_byte b @ s) = Some (b, s)"
proof -
  have d: "hex_value (hex_digit (b div 16)) = Some (b div 16)" "hex_value (hex_digit (b mod 16)) = Some (b mod 16)"
    using assms by (intro hex_value_digit; linarith)+
  show ?thesis unfolding hex_byte_def append_Cons append_Nil escaped_byte.simps d by simp
qed

lemma decode_escape:
  assumes "b < 256" "utf8_sequence b s = Some (u, s')"
  shows "decodeURIComponent (hex_byte b @ s) = map_option ((@) u) (decodeURIComponent s')"
  using assms(2) escaped_byte_hex [OF assms(1), of s] by (simp add: hex_byte_def del: escaped_byte.simps)

lemma utf8_two_bytes:
  assumes "128 \<le> n" "n < 256"
  shows "utf8_sequence (192 + n div 64) (hex_byte (128 + n mod 64) @ s) = Some ([n], s)"
proof -
  have k: "n div 64 < 32" using assms(2) by linarith
  have "escaped_byte (hex_byte (128 + n mod 64) @ s) = Some (128 + n mod 64, s)" by (rule escaped_byte_hex) simp
  then have "continuation (Suc 0) (n div 64) (hex_byte (128 + n mod 64) @ s) = Some (n, s)" by simp
  moreover have "utf16 n = Some [n]" using assms(2) by (simp add: utf16_def)
  ultimately show ?thesis
    using k assms(1) by (simp add: utf8_sequence_def Let_def del: continuation.simps)
qed

lemma decode_encode_char: "decodeURIComponent (encode_char c @ s) = map_option ((#) (of_char c)) (decodeURIComponent s)"
proof -
  let ?n = "of_char c :: nat"
  have n: "?n < 256" by simp
  consider "unreserved c" | "\<not> unreserved c" "?n < 128" | "\<not> unreserved c" "\<not> ?n < 128" by blast
  then show ?thesis
  proof cases
    case 1
    then have "c \<noteq> CHR ''%''" using percent_reserved by auto
    with 1 show ?thesis by (simp add: encode_char_def)
  next
    case 2
    then have "utf8_sequence ?n s = Some ([?n], s)" by (simp add: utf8_sequence_def)
    from decode_escape [OF n this] 2 show ?thesis by (simp add: encode_char_def append_Cons [abs_def])
  next
    case 3
    let ?s = "hex_byte (128 + ?n mod 64) @ s"
    have "utf8_sequence (192 + ?n div 64) ?s = Some ([?n], s)" using 3 by (intro utf8_two_bytes) simp_all
    moreover have "192 + ?n div 64 < 256" by (rule utf8_bytes) simp
    ultimately have "decodeURIComponent (hex_byte (192 + ?n div 64) @ ?s) = map_option ((@) [?n]) (decodeURIComponent s)"
      by (rule decode_escape [rotated])
    with 3 show ?thesis by (simp add: encode_char_def Let_def append_Cons [abs_def])
  qed
qed

lemma decode_encode: "decodeURIComponent (encodeURIComponent s) = Some (units_of s)"
  by (induction s) (simp_all add: encodeURIComponent_def units_of_def decode_encode_char)

lemma hex_byte_chars: "n < 256 \<Longrightarrow> x \<in> set (hex_byte n) \<Longrightarrow> unreserved x \<or> x = CHR ''%''"
  using unreserved_digit [of "n div 16"] unreserved_digit [of "n mod 16"] by (auto simp: hex_byte_def)

lemma encode_chars: "x \<in> set (encodeURIComponent s) \<Longrightarrow> unreserved x \<or> x = CHR ''%''"
proof -
  have "unreserved x \<or> x = CHR ''%''" if x: "x \<in> set (encode_char c)" for c
  proof -
    let ?n = "of_char c :: nat"
    have "192 + ?n div 64 < 256" "128 + ?n mod 64 < 256" using utf8_bytes [of ?n] by simp_all
    then show ?thesis
      using x hex_byte_chars [of ?n x] hex_byte_chars [of "192 + ?n div 64" x] hex_byte_chars [of "128 + ?n mod 64" x]
      by (auto simp: encode_char_def Let_def split: if_splits)
  qed
  then show "x \<in> set (encodeURIComponent s) \<Longrightarrow> unreserved x \<or> x = CHR ''%''" by (auto simp: encodeURIComponent_def)
qed

lemma first_token_skip:
  "\<forall>p \<in> set before. keyOf p \<noteq> units_of name \<Longrightarrow> first_token name (before @ ps) = first_token name ps"
  by (induction before) auto

text \<open>
  A client that puts its token into the URL with \<open>encodeURIComponent\<close> is authenticated with exactly
  that token, whatever characters it holds and whatever other parameters surround it.
\<close>

theorem extractQueryToken_roundtrip:
  assumes "CHR ''?'' \<notin> set path" "tok \<noteq> []" "\<forall>p \<in> set (before @ after). CHR ''&'' \<notin> set p"
    and "\<forall>p \<in> set before. keyOf p \<noteq> units_of ACCESS_TOKEN_PARAM"
  shows "extractQueryToken (path @ ''?'' @ js_join ''&'' (before @ (''access_token='' @ encodeURIComponent tok) # after))
    ACCESS_TOKEN_PARAM = Some (units_of tok)"
proof -
  let ?pair = "''access_token='' @ encodeURIComponent tok"
  have amp: "CHR ''&'' \<notin> set (encodeURIComponent tok)"
    using encode_chars [of "CHR ''&''" tok] by (auto simp: unreserved_def)
  have "keyOf ?pair = units_of ACCESS_TOKEN_PARAM"
    using js_index_of_append [of "CHR ''=''" "''access_token''" "encodeURIComponent tok"]
    by (simp add: keyOf_def ACCESS_TOKEN_PARAM_def safeDecode_def units_of_def)
  moreover have "pair_value ?pair = units_of tok"
    using js_index_of_append [of "CHR ''=''" "''access_token''" "encodeURIComponent tok"]
    by (simp add: pair_value_def safeDecode_def decode_encode)
  moreover have "units_of tok \<noteq> []" using assms(2) by (simp add: units_of_def)
  ultimately have "first_token ACCESS_TOKEN_PARAM (before @ ?pair # after) = Some (units_of tok)"
    using assms(4) by (simp add: first_token_skip)
  moreover have "js_split (CHR ''&'') (js_join ''&'' (before @ ?pair # after)) = before @ ?pair # after"
    using assms(3) amp by (intro js_split_join) auto
  ultimately show ?thesis using assms(1) by (simp add: extractQueryToken_def)
qed

lemma extractQueryToken_roundtrip_witness:
  "extractQueryToken ''/ws?a=1&access_token=x%2Fy&b'' ''access_token'' = Some (units_of ''x/y'')"
proof -
  have "encodeURIComponent ''x/y'' = ''x%2Fy''" by code_simp
  moreover have "keyOf ''a=1'' \<noteq> units_of ACCESS_TOKEN_PARAM" by code_simp
  ultimately show ?thesis
    using extractQueryToken_roundtrip [of "''/ws''" "''x/y''" "[''a=1'']" "[''b'']"] by (simp add: ACCESS_TOKEN_PARAM_def)
qed

end
