(* ===== verification/Usage.thy ===== *)
theory Usage
  imports JsNumber "HOL-Library.Multiset"
begin

text \<open>
  Usage accounting: \<open>gateway/src/usage/buffer.ts\<close>, which collects records in memory and writes them in
  batches, \<open>db/repositories/usage.ts\<close>, which builds the statement, and \<open>usageStats.ts\<close>, which reads the
  summary. Inserts run while requests go on: a batch in flight is stored or fails some time later.
\<close>

record usage_record =
  u_tenantId :: string
  u_routeId :: string
  u_statusCode :: nat
  u_latencyMs :: number

section \<open>The batch insert\<close>

text \<open>The values bound, in order, and per row the numbers of its four placeholders.\<close>

datatype sql_value = SText string | SStatus nat | SNumber number

definition usage_values :: "usage_record list \<Rightarrow> sql_value list" where
  "usage_values records =
     concat (map (\<lambda>r. [SText (u_tenantId r), SText (u_routeId r), SStatus (u_statusCode r), SNumber (u_latencyMs r)]) records)"

definition usage_rows :: "usage_record list \<Rightarrow> nat list list" where
  "usage_rows records = map (\<lambda>i. let base = i * 4 in [base + 1, base + 2, base + 3, base + 4]) [0..<length records]"

text \<open>What the database inserts: placeholder \<open>$n\<close> is the \<open>n\<close>th value bound.\<close>

definition inserted_rows :: "nat list list \<Rightarrow> sql_value list \<Rightarrow> sql_value list list" where
  "inserted_rows rows values = map (map (\<lambda>n. values ! (n - 1))) rows"

lemma usage_values_nth:
  "i < length records \<Longrightarrow> k < 4 \<Longrightarrow> usage_values records ! (i * 4 + k) =
     [SText (u_tenantId (records ! i)), SText (u_routeId (records ! i)), SStatus (u_statusCode (records ! i)),
      SNumber (u_latencyMs (records ! i))] ! k"
proof (induction records arbitrary: i)
  case (Cons r rs)
  show ?case
  proof (cases i)
    case 0
    with Cons.prems show ?thesis by (auto simp: usage_values_def nth_append less_Suc_eq numeral_eq_Suc)
  next
    case (Suc j)
    with Cons.prems Cons.IH [of j] show ?thesis by (simp add: usage_values_def)
  qed
qed simp

text \<open>
  The statement binds every record to a row of its own: row \<open>i\<close> gets the four fields of record \<open>i\<close>,
  in the order of the columns, and the placeholders number exactly the values.
\<close>

theorem insertUsageBatch_rows:
  "inserted_rows (usage_rows records) (usage_values records)
     = map (\<lambda>r. [SText (u_tenantId r), SText (u_routeId r), SStatus (u_statusCode r), SNumber (u_latencyMs r)]) records
   \<and> concat (usage_rows records) = [1..<length (usage_values records) + 1]"
proof
  show "inserted_rows (usage_rows records) (usage_values records)
      = map (\<lambda>r. [SText (u_tenantId r), SText (u_routeId r), SStatus (u_statusCode r), SNumber (u_latencyMs r)]) records"
  proof (rule nth_equalityI)
    fix i assume "i < length (inserted_rows (usage_rows records) (usage_values records))"
    then have i: "i < length records" by (simp add: inserted_rows_def usage_rows_def)
    show "inserted_rows (usage_rows records) (usage_values records) ! i
      = map (\<lambda>r. [SText (u_tenantId r), SText (u_routeId r), SStatus (u_statusCode r), SNumber (u_latencyMs r)]) records ! i"
      using i usage_values_nth [OF i, of 0] usage_values_nth [OF i, of 1] usage_values_nth [OF i, of 2] usage_values_nth [OF i, of 3]
      by (simp add: inserted_rows_def usage_rows_def Let_def add.commute)
  qed (simp add: inserted_rows_def usage_rows_def)
  have len: "length (usage_values rs) = 4 * length rs" for rs by (induction rs) (simp_all add: usage_values_def)
  have "concat (map (\<lambda>i. let base = i * 4 in [base + 1, base + 2, base + 3, base + 4]) [0..<n]) = [1..<4 * n + 1]" for n
    by (induction n) (simp_all add: numeral_eq_Suc Let_def)
  then show "concat (usage_rows records) = [1..<length (usage_values records) + 1]"
    unfolding usage_rows_def len .
qed

text \<open>
  The insert itself, against \<open>tenant_id UUID NOT NULL REFERENCES tenants(id)\<close>: it is one statement, so
  one record of an unknown tenant makes all of it fail. \<open>up\<close> says whether the database answers.
\<close>

definition insertUsageBatch :: "string list \<Rightarrow> bool \<Rightarrow> usage_record list \<Rightarrow> usage_record list \<Rightarrow> usage_record list option" where
  "insertUsageBatch tenant_ids up records table =
     (if records = [] then Some table
      else if \<not> up \<or> \<not> list_all (\<lambda>r. u_tenantId r \<in> set tenant_ids) records then None
      else Some (table @ records))"

section \<open>The buffer\<close>

record usage_buffer =
  ub_buffer :: "usage_record list"
  ub_flights :: "usage_record list list"
  ub_stored :: "usage_record list"
  ub_failed :: "usage_record list"
  ub_open :: bool

definition createUsageBuffer :: usage_buffer where
  "createUsageBuffer = \<lparr>ub_buffer = [], ub_flights = [], ub_stored = [], ub_failed = [], ub_open = True\<rparr>"

definition ub_flush :: "usage_buffer \<Rightarrow> usage_buffer" where
  "ub_flush u = (if ub_buffer u = [] then u
     else u\<lparr>ub_buffer := [], ub_flights := ub_flights u @ [ub_buffer u]\<rparr>)"

definition ub_push :: "nat \<Rightarrow> usage_record \<Rightarrow> usage_buffer \<Rightarrow> usage_buffer" where
  "ub_push maxBatchSize r u =
     (let u = u\<lparr>ub_buffer := ub_buffer u @ [r]\<rparr>
      in if maxBatchSize \<le> length (ub_buffer u) then ub_flush u else u)"

text \<open>\<open>close\<close> stops the timer and flushes.\<close>

definition ub_close :: "usage_buffer \<Rightarrow> usage_buffer" where
  "ub_close u = ub_flush (u\<lparr>ub_open := False\<rparr>)"

text \<open>An insert in flight ends: its rows are in the table, or the error goes to \<open>onError\<close>.\<close>

definition ub_insert_ends :: "string list \<Rightarrow> nat \<Rightarrow> bool \<Rightarrow> usage_buffer \<Rightarrow> usage_buffer" where
  "ub_insert_ends tenant_ids i up u =
     (if i < length (ub_flights u)
      then (let batch = ub_flights u ! i; u = u\<lparr>ub_flights := take i (ub_flights u) @ drop (i + 1) (ub_flights u)\<rparr>
            in case insertUsageBatch tenant_ids up batch (ub_stored u) of
                 Some table \<Rightarrow> u\<lparr>ub_stored := table\<rparr>
               | None \<Rightarrow> u\<lparr>ub_failed := ub_failed u @ batch\<rparr>)
      else u)"

datatype usage_event = UPush usage_record | UTick | UEnds nat bool | UClose

definition ub_step :: "nat \<Rightarrow> string list \<Rightarrow> usage_buffer \<Rightarrow> usage_event \<Rightarrow> usage_buffer" where
  "ub_step maxBatchSize tenant_ids u e = (case e of
      UPush r \<Rightarrow> ub_push maxBatchSize r u
    | UTick \<Rightarrow> if ub_open u then ub_flush u else u
    | UEnds i up \<Rightarrow> ub_insert_ends tenant_ids i up u
    | UClose \<Rightarrow> ub_close u)"

definition ub_run :: "nat \<Rightarrow> string list \<Rightarrow> usage_event list \<Rightarrow> usage_buffer" where
  "ub_run maxBatchSize tenant_ids es = foldl (ub_step maxBatchSize tenant_ids) createUsageBuffer es"

definition pushed :: "usage_event list \<Rightarrow> usage_record list" where
  "pushed es = concat (map (\<lambda>e. case e of UPush r \<Rightarrow> [r] | _ \<Rightarrow> []) es)"

definition held :: "usage_buffer \<Rightarrow> usage_record multiset" where
  "held u = mset (ub_buffer u) + mset (concat (ub_flights u)) + mset (ub_stored u) + mset (ub_failed u)"

definition ub_bounded :: "nat \<Rightarrow> usage_buffer \<Rightarrow> bool" where
  "ub_bounded m u \<longleftrightarrow> length (ub_buffer u) < m \<and> (\<forall>b \<in> set (ub_flights u). b \<noteq> [] \<and> length b \<le> m)"

lemma held_flush [simp]: "held (ub_flush u) = held u"
  by (simp add: held_def ub_flush_def)

lemma mset_remove_nth: "i < length xs \<Longrightarrow> mset (concat xs) = mset (xs ! i) + mset (concat (take i xs @ drop (Suc i) xs))"
  by (subst id_take_nth_drop [of i xs]) simp_all

lemma held_step: "held (ub_step m ids u e) = held u + mset (pushed [e])"
proof (cases e)
  case (UPush r)
  have "held (u\<lparr>ub_buffer := ub_buffer u @ [r]\<rparr>) = held u + {#r#}" by (simp add: held_def)
  with UPush show ?thesis by (simp add: ub_step_def ub_push_def Let_def pushed_def)
next
  case (UEnds i ok)
  then show ?thesis
    using mset_remove_nth [of i "ub_flights u"]
    by (auto simp: ub_step_def ub_insert_ends_def insertUsageBatch_def Let_def pushed_def held_def split: option.split)
next
  case UClose
  have "held (u\<lparr>ub_open := False\<rparr>) = held u" by (simp add: held_def)
  with UClose show ?thesis by (simp add: ub_step_def ub_close_def pushed_def)
qed (simp add: ub_step_def pushed_def)

lemma bounded_flush: "length (ub_buffer u) \<le> m \<Longrightarrow> 0 < m \<Longrightarrow> \<forall>b \<in> set (ub_flights u). b \<noteq> [] \<and> length b \<le> m
    \<Longrightarrow> ub_bounded m (ub_flush u)"
  by (auto simp: ub_bounded_def ub_flush_def)

lemma bounded_step: "ub_bounded m u \<Longrightarrow> ub_bounded m (ub_step m ids u e)"
proof (cases e)
  case (UPush r)
  assume b: "ub_bounded m u"
  then have "ub_bounded m (ub_flush (u\<lparr>ub_buffer := ub_buffer u @ [r]\<rparr>))"
    by (intro bounded_flush) (auto simp: ub_bounded_def)
  with b UPush show ?thesis by (auto simp: ub_step_def ub_push_def Let_def ub_bounded_def)
next
  case UTick
  assume "ub_bounded m u"
  with UTick show ?thesis using bounded_flush [of u m] by (auto simp: ub_step_def ub_bounded_def)
next
  case (UEnds i ok)
  assume "ub_bounded m u"
  with UEnds show ?thesis
    by (auto simp: ub_step_def ub_insert_ends_def Let_def ub_bounded_def split: option.split dest: in_set_takeD in_set_dropD)
next
  case UClose
  assume "ub_bounded m u"
  with UClose show ?thesis using bounded_flush [of "u\<lparr>ub_open := False\<rparr>" m]
    by (auto simp: ub_step_def ub_close_def ub_bounded_def)
qed

lemma ub_run_keeps:
  assumes "0 < m"
  shows "held (ub_run m ids es) = mset (pushed es) \<and> ub_bounded m (ub_run m ids es)"
proof (induction es rule: rev_induct)
  case Nil
  with assms show ?case by (simp add: ub_run_def createUsageBuffer_def held_def pushed_def ub_bounded_def)
next
  case (snoc e es)
  then show ?case using held_step [of m ids "ub_run m ids es" e] bounded_step [of m "ub_run m ids es" ids e]
    by (simp add: ub_run_def pushed_def)
qed

text \<open>
  C23: no usage record is lost or duplicated inside the process: at every moment each record pushed is
  in the buffer, in one batch in flight, in the table, or in a batch whose insert failed; the buffer
  stays below \<open>maxBatchSize\<close> and no batch exceeds it; and after \<open>close\<close> the buffer is empty.
\<close>

theorem usage_accounted:
  assumes "0 < m"
  shows "mset (pushed es) = mset (ub_buffer (ub_run m ids es)) + mset (concat (ub_flights (ub_run m ids es)))
           + mset (ub_stored (ub_run m ids es)) + mset (ub_failed (ub_run m ids es))
    \<and> length (ub_buffer (ub_run m ids es)) < m \<and> (\<forall>b \<in> set (ub_flights (ub_run m ids es)). b \<noteq> [] \<and> length b \<le> m)
    \<and> ub_buffer (ub_run m ids (es @ [UClose])) = []"
  using ub_run_keeps [OF assms, of ids es]
  by (simp add: held_def ub_bounded_def ub_run_def ub_step_def ub_close_def ub_flush_def)

lemma usage_accounted_witness:
  "ub_buffer (ub_run 500 [''t''] ([UPush \<lparr>u_tenantId = ''t'', u_routeId = ''r'', u_statusCode = 200, u_latencyMs = 3\<rparr>] @ [UClose])) = []"
  using usage_accounted [of 500 "[UPush \<lparr>u_tenantId = ''t'', u_routeId = ''r'', u_statusCode = 200, u_latencyMs = 3\<rparr>]" "[''t'']"] by simp

text \<open>
  A tenant that exists only in a JWT makes the usage of others disappear: a batch that holds a
  record of a tenant the table \<open>tenants\<close> does not know is lost as a whole, whatever else it holds, and
  whether or not the database answers.
\<close>

theorem unknown_tenant_loses_batch:
  assumes "i < length (ub_flights u)" "r \<in> set (ub_flights u ! i)" "u_tenantId r \<notin> set ids"
  shows "ub_stored (ub_insert_ends ids i up u) = ub_stored u
    \<and> ub_failed (ub_insert_ends ids i up u) = ub_failed u @ ub_flights u ! i"
  using assms by (auto simp: ub_insert_ends_def insertUsageBatch_def Let_def list_all_iff split: option.split)

lemma unknown_tenant_loses_batch_witness:
  "ub_failed (ub_insert_ends [''t''] 0 True (ub_run 2 [''t'']
     [UPush \<lparr>u_tenantId = ''t'', u_routeId = ''r'', u_statusCode = 200, u_latencyMs = 3\<rparr>,
      UPush \<lparr>u_tenantId = ''jwt|42'', u_routeId = ''j'', u_statusCode = 200, u_latencyMs = 3\<rparr>]))
   = [\<lparr>u_tenantId = ''t'', u_routeId = ''r'', u_statusCode = 200, u_latencyMs = 3\<rparr>,
      \<lparr>u_tenantId = ''jwt|42'', u_routeId = ''j'', u_statusCode = 200, u_latencyMs = 3\<rparr>]"
proof -
  let ?t = "\<lparr>u_tenantId = ''t'', u_routeId = ''r'', u_statusCode = 200, u_latencyMs = 3\<rparr> :: usage_record"
  let ?j = "\<lparr>u_tenantId = ''jwt|42'', u_routeId = ''j'', u_statusCode = 200, u_latencyMs = 3\<rparr> :: usage_record"
  have e: "ub_run 2 [''t''] [UPush ?t, UPush ?j] = \<lparr>ub_buffer = [], ub_flights = [[?t, ?j]], ub_stored = [], ub_failed = [], ub_open = True\<rparr>"
    by (simp add: ub_run_def ub_step_def ub_push_def ub_flush_def createUsageBuffer_def)
  show ?thesis unfolding e
    using unknown_tenant_loses_batch [of 0 "\<lparr>ub_buffer = [], ub_flights = [[?t, ?j]], ub_stored = [], ub_failed = [], ub_open = True\<rparr>"
        ?j "[''t'']" True] by simp
qed

section \<open>The summary\<close>

text \<open>
  Rows carry the time of the insert. \<open>avg\<close> and \<open>percentile_cont(0.99)\<close> are the database's, parameters
  that answer \<open>null\<close> on no rows.
\<close>

record usage_summary =
  totalRequests :: nat
  successCount :: nat
  errorCount :: nat
  avgLatencyMs :: "number option"
  p99LatencyMs :: "number option"

definition getUsageSummary ::
  "(number list \<Rightarrow> number option) \<Rightarrow> (number list \<Rightarrow> number option) \<Rightarrow> number \<Rightarrow> string option \<Rightarrow> number option
    \<Rightarrow> (number \<times> usage_record) list \<Rightarrow> usage_summary" where
  "getUsageSummary sql_avg sql_p99 now tenantId sinceHours table =
     (let hours = (case sinceHours of Some h \<Rightarrow> h | None \<Rightarrow> 24);
          rows = map snd (filter (\<lambda>(ts, r). now - hours * 3600000 < ts
            \<and> (case tenantId of Some t \<Rightarrow> t = [] \<or> u_tenantId r = t | None \<Rightarrow> True)) table)
      in \<lparr>totalRequests = length rows,
          successCount = length (filter (\<lambda>r. 200 \<le> u_statusCode r \<and> u_statusCode r < 400) rows),
          errorCount = length (filter (\<lambda>r. 400 \<le> u_statusCode r) rows),
          avgLatencyMs = sql_avg (map u_latencyMs rows), p99LatencyMs = sql_p99 (map u_latencyMs rows)\<rparr>)"

text \<open>
  Successes and errors never exceed the total; the difference are the responses below 200,
  that is, the WebSocket handshakes, which the proxy records with status 101.
\<close>

lemma usage_summary_partition:
  "totalRequests (getUsageSummary a p now t h table) = successCount (getUsageSummary a p now t h table)
     + errorCount (getUsageSummary a p now t h table)
     + length (filter (\<lambda>(ts, r). now - (case h of Some x \<Rightarrow> x | None \<Rightarrow> 24) * 3600000 < ts
         \<and> (case t of Some x \<Rightarrow> x = [] \<or> u_tenantId r = x | None \<Rightarrow> True) \<and> u_statusCode r < 200) table)"
  unfolding getUsageSummary_def Let_def usage_summary.simps length_map
  by (induction table) auto

end
