(* ===== verification/WsTunnel.thy ===== *)
theory WsTunnel
  imports Config "HOL-Library.Sublist"
begin

text \<open>
  \<open>acceptClient\<close> of \<open>gateway/src/websocket/proxy.ts\<close>: the two connections of one proxied WebSocket, from
  the moment the upstream has accepted. The state holds the variables of the closure and the ready
  state of both sockets; each callback (message, close, error, pong, timer, a turn of the limiter's
  promise chain) is an event. What the \<open>ws\<close> library does is in \<open>enabled\<close>: a socket emits nothing after
  its \<open>close\<close>, a cleared timer does not fire. Frames sent, sockets cut and registry calls are actions.
\<close>

section \<open>State\<close>

datatype ready_state = SOpen | SClosing | SClosed

datatype side = Client | Upstream

datatype cause = ByClient | ByUpstream | ByError | ByShutdown | Backpressure | RateLimited | DeadPeer | Idle
  | HandshakeFailed | Unknown

text \<open>A message is its bytes and whether it is binary.\<close>

type_synonym message = "string \<times> bool"

datatype action =
    Sent side message
  | CloseFrame side "nat option"
  | Cut side
  | Pinged side
  | Finished cause

record tunnel =
  client :: "ready_state option"
  upstream_ws :: ready_state
  finished :: bool
  firstCause :: "cause option"
  closedSides :: nat
  killTimer :: bool
  lastActivity :: number
  chain :: "message list"
  limiter :: "memory_store option"
  clientAlive :: bool
  upstreamAlive :: bool

type_synonym outcome = "tunnel \<times> action list"

text \<open>Sequencing: the second operation runs on the state the first leaves.\<close>

definition and_then :: "outcome \<Rightarrow> (tunnel \<Rightarrow> outcome) \<Rightarrow> outcome" where
  "and_then r f = (case r of (t, as) \<Rightarrow> (case f t of (t', as') \<Rightarrow> (t', as @ as')))"

definition set_cause :: "cause \<Rightarrow> tunnel \<Rightarrow> tunnel" where
  "set_cause c t = (if firstCause t = None then t\<lparr>firstCause := Some c\<rparr> else t)"

section \<open>The sockets\<close>

definition ready_of :: "side \<Rightarrow> tunnel \<Rightarrow> ready_state option" where
  "ready_of s t = (case s of Client \<Rightarrow> client t | Upstream \<Rightarrow> Some (upstream_ws t))"

definition set_ready :: "side \<Rightarrow> ready_state \<Rightarrow> tunnel \<Rightarrow> tunnel" where
  "set_ready s r t = (case s of Client \<Rightarrow> t\<lparr>client := Some r\<rparr> | Upstream \<Rightarrow> t\<lparr>upstream_ws := r\<rparr>)"

text \<open>\<open>ws.close\<close> of an open socket, and \<open>ws?.terminate()\<close>.\<close>

definition ws_close :: "nat option \<Rightarrow> side \<Rightarrow> tunnel \<Rightarrow> outcome" where
  "ws_close code s t = (if ready_of s t = Some SOpen then (set_ready s SClosing t, [CloseFrame s code]) else (t, []))"

definition ws_terminate :: "side \<Rightarrow> tunnel \<Rightarrow> outcome" where
  "ws_terminate s t =
     (case ready_of s t of
        None \<Rightarrow> (t, [])
      | Some SClosed \<Rightarrow> (t, [])
      | Some _ \<Rightarrow> (set_ready s SClosing t, [Cut s]))"

definition cut_both :: "tunnel \<Rightarrow> outcome" where
  "cut_both t = and_then (ws_terminate Client t) (ws_terminate Upstream)"

section \<open>The functions of the closure\<close>

definition finish :: "tunnel \<Rightarrow> outcome" where
  "finish t = (if finished t then (t, [])
     else (t\<lparr>finished := True\<rparr>, [Finished (case firstCause t of Some c \<Rightarrow> c | None \<Rightarrow> Unknown)]))"

definition armKill :: "tunnel \<Rightarrow> tunnel" where
  "armKill t = (if killTimer t \<or> finished t then t else t\<lparr>killTimer := True\<rparr>)"

definition closeBoth :: "nat \<Rightarrow> cause \<Rightarrow> tunnel \<Rightarrow> outcome" where
  "closeBoth code c t =
     (case and_then (ws_close (Some code) Client (set_cause c t)) (ws_close (Some code) Upstream) of
        (t, as) \<Rightarrow> (armKill t, as))"

definition onSideClosed :: "tunnel \<Rightarrow> outcome" where
  "onSideClosed t =
     (let t = t\<lparr>closedSides := closedSides t + 1\<rparr> in if closedSides t = 2 then finish t else (t, []))"

definition isSendableCloseCode :: "nat \<Rightarrow> bool" where
  "isSendableCloseCode code \<longleftrightarrow>
     (1000 \<le> code \<and> code \<le> 1014 \<and> code \<noteq> 1004 \<and> code \<noteq> 1005 \<and> code \<noteq> 1006) \<or> (3000 \<le> code \<and> code \<le> 4999)"

definition relayClose :: "side \<Rightarrow> nat \<Rightarrow> tunnel \<Rightarrow> outcome" where
  "relayClose peer code t =
     (if ready_of peer t \<noteq> Some SOpen then (t, [])
      else if code = 1005 then ws_close None peer t
      else if isSendableCloseCode code then ws_close (Some code) peer t
      else ws_terminate peer t)"

text \<open>\<open>buffered\<close> is \<open>to.bufferedAmount\<close>.\<close>

definition relay :: "websocket_config \<Rightarrow> number \<Rightarrow> side \<Rightarrow> nat \<Rightarrow> message \<Rightarrow> tunnel \<Rightarrow> outcome" where
  "relay cfg now to buffered msg t =
     (if ready_of to t \<noteq> Some SOpen then (t, [])
      else if ws_maxBufferedBytes cfg < of_nat buffered then closeBoth 1013 Backpressure t
      else (t\<lparr>lastActivity := now\<rparr>, [Sent to msg]))"

definition other :: "side \<Rightarrow> side" where
  "other s = (case s of Client \<Rightarrow> Upstream | Upstream \<Rightarrow> Client)"

text \<open>The \<open>close\<close> event of a side.\<close>

definition side_closed :: "side \<Rightarrow> nat \<Rightarrow> tunnel \<Rightarrow> outcome" where
  "side_closed s code t =
     (let t = set_cause (case s of Client \<Rightarrow> ByClient | Upstream \<Rightarrow> ByUpstream) (set_ready s SClosed t)
      in and_then (case relayClose (other s) code t of (t, as) \<Rightarrow> (armKill t, as)) onSideClosed)"

section \<open>acceptClient\<close>

definition message_policy :: "message_rate_limit \<Rightarrow> policy" where
  "message_policy c = \<lparr>limit = m_limit c, windowMs = js_mul (m_windowSec c) 1000, burst = m_burst c\<rparr>"

definition createMessageLimiter :: "websocket_config \<Rightarrow> memory_store option" where
  "createMessageLimiter cfg = map_option (\<lambda>c. createMemoryStore (m_algorithm c)) (ws_messageRateLimit cfg)"

definition fresh :: "websocket_config \<Rightarrow> number \<Rightarrow> bool \<Rightarrow> bool \<Rightarrow> tunnel" where
  "fresh cfg now accepted early_closed = \<lparr>client = (if accepted then Some SOpen else None),
     upstream_ws = (if early_closed then SClosed else SOpen), finished = False,
     firstCause = None, closedSides = 0, killTimer = False, lastActivity = now, chain = [],
     limiter = createMessageLimiter cfg, clientAlive = True, upstreamAlive = True\<rparr>"

fun relay_early :: "websocket_config \<Rightarrow> number \<Rightarrow> (message \<times> nat) list \<Rightarrow> tunnel \<Rightarrow> outcome" where
  "relay_early cfg now [] t = (t, [])"
| "relay_early cfg now ((msg, buffered) # early) t =
     and_then (relay cfg now Client buffered msg t) (relay_early cfg now early)"

text \<open>
  \<open>early\<close> is what the upstream sent while the client was not ready, each message with the bytes then
  waiting for the client; \<open>closing\<close> its close code, if it closed. When the client's handshake fails
  (\<open>accepted = False\<close>) the callback of \<open>handleUpgrade\<close> is never called.
\<close>

definition acceptClient :: "websocket_config \<Rightarrow> number \<Rightarrow> bool \<Rightarrow> (message \<times> nat) list \<Rightarrow> nat option \<Rightarrow> outcome" where
  "acceptClient cfg now accepted early closing =
     (let t = fresh cfg now accepted (closing \<noteq> None) in
      if \<not> accepted then (t, [])
      else and_then (relay_early cfg now early t)
        (\<lambda>t. case closing of Some code \<Rightarrow> side_closed Upstream code t | None \<Rightarrow> (t, [])))"

section \<open>Events\<close>

datatype event =
    Message side message nat number
  | LimiterTurn nat number
  | CloseEvent side nat
  | ErrorEvent side
  | SendFailed side
  | Pong side
  | PingTick
  | IdleTick number
  | KillTick
  | SocketClosed
  | ShutdownCall
  | TerminateCall

definition enabled :: "websocket_config \<Rightarrow> event \<Rightarrow> tunnel \<Rightarrow> bool" where
  "enabled cfg e t =
     (let live = (\<lambda>s. ready_of s t \<noteq> None \<and> ready_of s t \<noteq> Some SClosed) in
      case e of
        Message s _ _ _ \<Rightarrow> live s
      | LimiterTurn _ _ \<Rightarrow> chain t \<noteq> []
      | CloseEvent s _ \<Rightarrow> live s
      | ErrorEvent s \<Rightarrow> client t \<noteq> None
      | SendFailed s \<Rightarrow> True
      | Pong s \<Rightarrow> live s
      | PingTick \<Rightarrow> 0 < ws_pingIntervalMs cfg \<and> client t \<noteq> None \<and> \<not> finished t
      | IdleTick _ \<Rightarrow> 0 < ws_idleTimeoutMs cfg \<and> client t \<noteq> None \<and> \<not> finished t
      | KillTick \<Rightarrow> killTimer t \<and> \<not> finished t
      | SocketClosed \<Rightarrow> client t = None \<and> \<not> finished t
      | ShutdownCall \<Rightarrow> \<not> finished t
      | TerminateCall \<Rightarrow> \<not> finished t)"

definition limiter_turn :: "websocket_config \<Rightarrow> nat \<Rightarrow> number \<Rightarrow> message \<Rightarrow> tunnel \<Rightarrow> outcome" where
  "limiter_turn cfg buffered now msg t =
     (if finished t \<or> firstCause t \<noteq> None then (t, [])
      else case (limiter t, ws_messageRateLimit cfg) of
        (Some st, Some c) \<Rightarrow>
          (let (st', r) = ms_consume st ''connection'' (message_policy c) now 1; t = t\<lparr>limiter := Some st'\<rparr>
           in if \<not> allowed r then closeBoth 1008 RateLimited t else relay cfg now Upstream buffered msg t)
      | _ \<Rightarrow> (t, []))"

definition ping_side :: "side \<Rightarrow> tunnel \<Rightarrow> outcome" where
  "ping_side s t = (t, if ready_of s t = Some SOpen then [Pinged s] else [])"

text \<open>A turn of the heartbeat: both sides must have answered since the last one.\<close>

definition heartbeat_turn :: "tunnel \<Rightarrow> outcome" where [simp]:
  "heartbeat_turn t =
     (if \<not> clientAlive t \<or> \<not> upstreamAlive t then cut_both (set_cause DeadPeer t)
      else and_then (ping_side Client (t\<lparr>clientAlive := False, upstreamAlive := False\<rparr>)) (ping_side Upstream))"

text \<open>A turn of the idle timer.\<close>

definition idle_turn :: "websocket_config \<Rightarrow> number \<Rightarrow> tunnel \<Rightarrow> outcome" where [simp]:
  "idle_turn cfg now t =
     (if ws_idleTimeoutMs cfg \<le> js_sub now (lastActivity t) then closeBoth 1001 Idle t else (t, []))"

definition tunnel_step :: "websocket_config \<Rightarrow> event \<Rightarrow> tunnel \<Rightarrow> outcome" where
  "tunnel_step cfg e t =
     (case e of
        Message Client msg buffered now \<Rightarrow>
          if limiter t = None then relay cfg now Upstream buffered msg t else (t\<lparr>chain := chain t @ [msg]\<rparr>, [])
      | Message Upstream msg buffered now \<Rightarrow>
          if client t = None then (t, []) else relay cfg now Client buffered msg t
      | LimiterTurn buffered now \<Rightarrow> limiter_turn cfg buffered now (hd (chain t)) (t\<lparr>chain := tl (chain t)\<rparr>)
      | CloseEvent Client code \<Rightarrow> side_closed Client code t
      | CloseEvent Upstream code \<Rightarrow>
          if client t = None then (t\<lparr>upstream_ws := SClosed\<rparr>, []) else side_closed Upstream code t
      | ErrorEvent _ \<Rightarrow> (set_cause ByError t, [])
      | SendFailed s \<Rightarrow> ws_terminate s t
      | Pong Client \<Rightarrow> (t\<lparr>clientAlive := True\<rparr>, [])
      | Pong Upstream \<Rightarrow> (t\<lparr>upstreamAlive := True\<rparr>, [])
      | PingTick \<Rightarrow> heartbeat_turn t
      | IdleTick now \<Rightarrow> idle_turn cfg now t
      | KillTick \<Rightarrow> cut_both t
      | SocketClosed \<Rightarrow>
          and_then (ws_terminate Upstream (set_cause HandshakeFailed t)) (\<lambda>t. onSideClosed (t\<lparr>closedSides := 1\<rparr>))
      | ShutdownCall \<Rightarrow> closeBoth 1001 ByShutdown t
      | TerminateCall \<Rightarrow> cut_both t)"

text \<open>The life of a tunnel: the events so far, the actions taken, and the state.\<close>

inductive tunnel_run :: "websocket_config \<Rightarrow> outcome \<Rightarrow> event list \<Rightarrow> action list \<Rightarrow> tunnel \<Rightarrow> bool"
  for cfg :: websocket_config and start :: outcome where
  begin_run: "start = (t, as) \<Longrightarrow> tunnel_run cfg start [] as t"
| next_event: "tunnel_run cfg start es as t \<Longrightarrow> enabled cfg e t \<Longrightarrow> tunnel_step cfg e t = (t', as')
    \<Longrightarrow> tunnel_run cfg start (es @ [e]) (as @ as') t'"

section \<open>What every operation keeps\<close>

text \<open>
  \<open>gentle\<close>: nothing is closed or finished, no socket reopens, and what is decided stays decided. All
  operations but \<open>finish\<close> and the \<open>close\<close> events are of this kind.
\<close>

definition no_finish :: "action list \<Rightarrow> bool" where
  "no_finish as \<longleftrightarrow> (\<forall>c. Finished c \<notin> set as)"

definition gentle :: "tunnel \<Rightarrow> outcome \<Rightarrow> bool" where
  "gentle t r \<longleftrightarrow> (case r of (t', as) \<Rightarrow>
     closedSides t' = closedSides t \<and> finished t' = finished t \<and> no_finish as
     \<and> (\<forall>s. (ready_of s t' = None \<longleftrightarrow> ready_of s t = None)
          \<and> (ready_of s t' = Some SClosed \<longleftrightarrow> ready_of s t = Some SClosed)
          \<and> (ready_of s t' = Some SOpen \<longrightarrow> ready_of s t = Some SOpen))
     \<and> (killTimer t \<longrightarrow> killTimer t') \<and> (firstCause t \<noteq> None \<longrightarrow> firstCause t' \<noteq> None)
     \<and> (limiter t' = None \<longleftrightarrow> limiter t = None))"

lemma gentleI:
  assumes "closedSides t' = closedSides t" "finished t' = finished t" "no_finish as"
    and "\<And>s. ready_of s t' = None \<longleftrightarrow> ready_of s t = None"
    and "\<And>s. ready_of s t' = Some SClosed \<longleftrightarrow> ready_of s t = Some SClosed"
    and "\<And>s. ready_of s t' = Some SOpen \<Longrightarrow> ready_of s t = Some SOpen"
    and "killTimer t \<Longrightarrow> killTimer t'" "firstCause t \<noteq> None \<Longrightarrow> firstCause t' \<noteq> None"
    and "limiter t' = None \<longleftrightarrow> limiter t = None"
  shows "gentle t (t', as)"
  using assms by (simp add: gentle_def)

lemma gentle_then: "gentle t r \<Longrightarrow> (\<And>u. gentle u (f u)) \<Longrightarrow> gentle t (and_then r f)"
proof -
  assume r: "gentle t r" and f: "\<And>u. gentle u (f u)"
  obtain u as where u: "r = (u, as)" by force
  obtain v bs where v: "f u = (v, bs)" by force
  have "gentle u (v, bs)" using f [of u] v by simp
  with r u show ?thesis unfolding u and_then_def by (auto simp: gentle_def v no_finish_def)
qed

lemma ready_set [simp]:
  "ready_of s (set_ready s' r t) = (if s = s' then Some r else ready_of s t)"
  "ready_of s (set_cause c t) = ready_of s t" "ready_of s (t\<lparr>firstCause := x\<rparr>) = ready_of s t"
  "ready_of s (t\<lparr>finished := b\<rparr>) = ready_of s t" "ready_of s (t\<lparr>closedSides := n\<rparr>) = ready_of s t"
  "ready_of s (t\<lparr>killTimer := b\<rparr>) = ready_of s t" "ready_of s (t\<lparr>chain := ms\<rparr>) = ready_of s t"
  "ready_of s (t\<lparr>limiter := l\<rparr>) = ready_of s t" "ready_of s (t\<lparr>lastActivity := now\<rparr>) = ready_of s t"
  "ready_of s (t\<lparr>clientAlive := b\<rparr>) = ready_of s t" "ready_of s (t\<lparr>upstreamAlive := b\<rparr>) = ready_of s t"
  "ready_of s (armKill t) = ready_of s t"
  by (cases s; cases s'; simp add: ready_of_def set_ready_def set_cause_def armKill_def)+

lemma set_fields [simp]:
  "closedSides (set_ready s r t) = closedSides t" "finished (set_ready s r t) = finished t"
  "killTimer (set_ready s r t) = killTimer t" "firstCause (set_ready s r t) = firstCause t"
  "limiter (set_ready s r t) = limiter t" "chain (set_ready s r t) = chain t"
  "closedSides (set_cause c t) = closedSides t" "finished (set_cause c t) = finished t"
  "killTimer (set_cause c t) = killTimer t" "firstCause (set_cause c t) \<noteq> None"
  "limiter (set_cause c t) = limiter t" "chain (set_cause c t) = chain t"
  "closedSides (armKill t) = closedSides t" "finished (armKill t) = finished t"
  "firstCause (armKill t) = firstCause t" "limiter (armKill t) = limiter t" "chain (armKill t) = chain t"
  "killTimer (armKill t) \<longleftrightarrow> killTimer t \<or> \<not> finished t"
  by (simp_all add: set_ready_def set_cause_def armKill_def split: side.splits)

lemma no_finish_simps [simp]:
  "no_finish []" "no_finish (a # as) \<longleftrightarrow> (\<forall>c. a \<noteq> Finished c) \<and> no_finish as"
  "no_finish (as @ bs) \<longleftrightarrow> no_finish as \<and> no_finish bs"
  by (auto simp: no_finish_def)

lemma gentle_refl [simp]: "gentle t (t, [])"
  by (simp add: gentle_def)

lemma gentle_close: "gentle t (ws_close code s t)"
  by (auto simp: ws_close_def intro!: gentleI split: if_splits)

lemma gentle_terminate: "gentle t (ws_terminate s t)"
  by (auto simp: ws_terminate_def intro!: gentleI split: if_splits option.splits ready_state.splits)

lemma gentle_cut_both: "gentle t (cut_both t)"
  unfolding cut_both_def by (intro gentle_then gentle_terminate)

lemma gentle_armKill: "gentle t r \<Longrightarrow> gentle t (case r of (u, as) \<Rightarrow> (armKill u, as))"
  by (cases r) (auto simp: gentle_def)

lemma gentle_cause: "gentle (set_cause c t) r \<Longrightarrow> gentle t r"
  by (cases r) (auto simp: gentle_def)

lemma gentle_closeBoth: "gentle t (closeBoth code c t)"
  unfolding closeBoth_def
  by (intro gentle_armKill gentle_then gentle_cause [of c t] gentle_close)

lemma gentle_relayClose: "gentle t (relayClose peer code t)"
  by (simp add: relayClose_def gentle_close gentle_terminate)

lemma gentle_relay: "gentle t (relay cfg now to buffered msg t)"
  by (auto simp: relay_def gentle_closeBoth intro!: gentleI)

lemma gentle_relay_early: "gentle t (relay_early cfg now early t)"
proof (induction early arbitrary: t)
  case (Cons p early)
  then show ?case by (cases p) (simp add: gentle_then gentle_relay)
qed simp

lemma gentle_limiter_turn: "gentle t (limiter_turn cfg buffered now msg t)"
proof (cases "finished t \<or> firstCause t \<noteq> None \<or> limiter t = None \<or> ws_messageRateLimit cfg = None")
  case True
  then show ?thesis by (auto simp: limiter_turn_def split: option.splits)
next
  case False
  then obtain st c where sc: "limiter t = Some st" "ws_messageRateLimit cfg = Some c" by auto
  obtain st' r where m: "ms_consume st ''connection'' (message_policy c) now 1 = (st', r)" by force
  let ?t = "t\<lparr>limiter := Some st'\<rparr>"
  have "gentle ?t (if \<not> allowed r then closeBoth 1008 RateLimited ?t else relay cfg now Upstream buffered msg ?t)"
    by (simp add: gentle_closeBoth gentle_relay)
  with False sc m show ?thesis by (auto simp: limiter_turn_def gentle_def split: prod.splits)
qed

section \<open>The end of a tunnel\<close>

definition fin_count :: "action list \<Rightarrow> nat" where
  "fin_count as = length (filter (\<lambda>a. case a of Finished _ \<Rightarrow> True | _ \<Rightarrow> False) as)"

lemma fin_count_simps [simp]:
  "fin_count [] = 0" "fin_count (as @ bs) = fin_count as + fin_count bs" "fin_count [Finished c] = 1"
  "no_finish as \<Longrightarrow> fin_count as = 0"
  by (auto simp: fin_count_def no_finish_def filter_empty_conv split: action.splits)

definition closed_count :: "tunnel \<Rightarrow> nat" where
  "closed_count t = (if ready_of Client t = Some SClosed then 1 else 0) + (if ready_of Upstream t = Some SClosed then 1 else 0)"

definition life :: "tunnel \<Rightarrow> action list \<Rightarrow> bool" where
  "life t as \<longleftrightarrow>
     fin_count as = (if finished t then 1 else 0)
     \<and> (ready_of Client t \<noteq> None \<longrightarrow> closedSides t = closed_count t \<and> (finished t \<longleftrightarrow> closed_count t = 2)
          \<and> (0 < closed_count t \<longrightarrow> (\<forall>s. ready_of s t \<noteq> Some SOpen) \<and> (killTimer t \<or> finished t)))
     \<and> (ready_of Client t = None \<longrightarrow> (finished t \<longrightarrow> ready_of Upstream t \<noteq> Some SOpen))"

lemma ready_upstream [simp]: "ready_of Upstream t \<noteq> None"
  by (simp add: ready_of_def)

lemma gentle_life:
  assumes "life t as" "gentle t (t', bs)"
  shows "life t' (as @ bs)"
proof -
  from assms(2) have g: "closedSides t' = closedSides t" "finished t' = finished t" "no_finish bs"
    "\<And>s. ready_of s t' = None \<longleftrightarrow> ready_of s t = None"
    "\<And>s. ready_of s t' = Some SClosed \<longleftrightarrow> ready_of s t = Some SClosed"
    "\<And>s. ready_of s t' = Some SOpen \<Longrightarrow> ready_of s t = Some SOpen"
    "killTimer t \<longrightarrow> killTimer t'" by (simp_all add: gentle_def)
  then have "closed_count t' = closed_count t" by (simp add: closed_count_def)
  with assms(1) g show ?thesis unfolding life_def by auto
qed

lemma relayClose_not_open: "relayClose peer code t = (t', as) \<Longrightarrow> ready_of peer t' \<noteq> Some SOpen"
  by (auto simp: relayClose_def ws_close_def ws_terminate_def split: if_splits option.splits ready_state.splits)

lemma other_simps [simp]: "other s \<noteq> s" "s \<noteq> other s" "other (other s) = s"
  by (cases s; simp add: other_def)+

lemma both_sides: "(\<forall>x. P x) \<longleftrightarrow> P s \<and> P (other s)"
  by (cases s; auto simp: other_def) (metis side.exhaust)+

lemma closed_count_side: "closed_count t = (if ready_of s t = Some SClosed then 1 else 0) + (if ready_of (other s) t = Some SClosed then 1 else 0)"
  by (cases s) (simp_all add: closed_count_def other_def)

text \<open>The close of side \<open>s\<close>, when \<open>closedSides\<close> counts the other side only.\<close>

lemma side_closed_core:
  assumes "closedSides t = (if ready_of (other s) t = Some SClosed then 1 else 0)" "\<not> finished t" "fin_count as = 0"
    and "ready_of Client t \<noteq> None" "side_closed s code t = (t', bs)"
  shows "life t' (as @ bs)"
proof -
  define t1 where "t1 = set_cause (case s of Client \<Rightarrow> ByClient | Upstream \<Rightarrow> ByUpstream) (set_ready s SClosed t)"
  obtain t2 cs where r: "relayClose (other s) code t1 = (t2, cs)" by force
  have g: "gentle t1 (t2, cs)" using gentle_relayClose [of t1 "other s" code] by (simp add: r)
  have open_other: "ready_of (other s) t2 \<noteq> Some SOpen" by (rule relayClose_not_open [OF r])
  have s2: "ready_of s t2 = Some SClosed" "ready_of (other s) t2 = Some SClosed \<longleftrightarrow> ready_of (other s) t = Some SClosed"
    and f2: "\<not> finished t2" "closedSides t2 = closedSides t" "no_finish cs"
    and c2: "ready_of Client t2 \<noteq> None"
    using g assms(2,4) by (auto simp: gentle_def t1_def)
  then have closed: "closed_count t2 = closedSides t + 1" "closedSides t < 2"
    using assms(1) by (auto simp: closed_count_side [of _ s])
  define t3 where "t3 = (armKill t2)\<lparr>closedSides := closedSides t2 + 1\<rparr>"
  have "side_closed s code t = and_then (armKill t2, cs) onSideClosed"
    by (simp add: side_closed_def t1_def [symmetric] r)
  then have e: "(t', bs) = (if closedSides t3 = 2 then (case finish t3 of (u, ds) \<Rightarrow> (u, cs @ ds)) else (t3, cs))"
    using assms(5) by (auto simp: and_then_def onSideClosed_def t3_def Let_def split: if_splits)
  have k3: "killTimer t3" "\<not> finished t3" "closedSides t3 = closed_count t2"
    using f2 closed(1) by (simp_all add: t3_def)
  have r3: "ready_of x t3 = ready_of x t2" for x by (simp add: t3_def)
  have o3: "\<forall>x. ready_of x t3 \<noteq> Some SOpen" using s2(1) open_other by (simp add: both_sides [of _ s] r3)
  have cc: "closed_count t3 = closed_count t2" by (simp add: closed_count_def r3)
  show ?thesis
  proof (cases "closedSides t3 = 2")
    case True
    then have "t' = t3\<lparr>finished := True\<rparr>" "\<exists>c. bs = cs @ [Finished c]"
      using e k3(2) by (auto simp: finish_def)
    with True show ?thesis using assms(3) k3 cc o3 c2 f2(3) by (auto simp: life_def closed_count_def r3)
  next
    case False
    then have "t' = t3" "bs = cs" using e by simp_all
    with False show ?thesis using assms(3) k3 cc o3 c2 f2(3) by (auto simp: life_def r3)
  qed
qed

lemma side_closed_life:
  assumes "life t as" "ready_of Client t \<noteq> None" "ready_of s t \<noteq> Some SClosed" "side_closed s code t = (t', bs)"
  shows "life t' (as @ bs)"
proof (rule side_closed_core [OF _ _ _ assms(2,4)])
  show n: "\<not> finished t" using assms(1-3) by (simp add: life_def closed_count_side [of _ s])
  show "closedSides t = (if ready_of (other s) t = Some SClosed then 1 else 0)" "fin_count as = 0"
    using assms(1-3) n by (simp_all add: life_def closed_count_side [of _ s])
qed

definition ends_side :: "event \<Rightarrow> bool" where
  "ends_side e \<longleftrightarrow> (case e of CloseEvent _ _ \<Rightarrow> True | SocketClosed \<Rightarrow> True | _ \<Rightarrow> False)"

lemma gentle_chain: "gentle (t\<lparr>chain := ms\<rparr>) r \<longleftrightarrow> gentle t r" "gentle t (t\<lparr>chain := ms\<rparr>, [])"
  "gentle t (t\<lparr>clientAlive := b\<rparr>, [])" "gentle t (t\<lparr>upstreamAlive := b\<rparr>, [])"
  "gentle (t\<lparr>clientAlive := b, upstreamAlive := b'\<rparr>) r \<longleftrightarrow> gentle t r" "gentle t (set_cause c t, [])"
  by (simp_all add: gentle_def set_cause_def)

lemma gentle_ping: "gentle t (ping_side s t)"
  by (auto simp: ping_side_def gentle_def)

lemma gentle_step:
  assumes "\<not> ends_side e"
  shows "gentle t (tunnel_step cfg e t)"
proof (cases e)
  case (LimiterTurn buffered now)
  have "gentle (t\<lparr>chain := tl (chain t)\<rparr>) (limiter_turn cfg buffered now (hd (chain t)) (t\<lparr>chain := tl (chain t)\<rparr>))"
    by (rule gentle_limiter_turn)
  with LimiterTurn show ?thesis by (simp add: tunnel_step_def gentle_chain)
next
  case PingTick
  have "gentle (t\<lparr>clientAlive := False, upstreamAlive := False\<rparr>)
      (and_then (ping_side Client (t\<lparr>clientAlive := False, upstreamAlive := False\<rparr>)) (ping_side Upstream))"
    by (intro gentle_then gentle_ping)
  then show ?thesis
    using PingTick gentle_cause [OF gentle_cut_both] by (simp add: tunnel_step_def gentle_chain)
qed (use assms in \<open>simp_all add: tunnel_step_def ends_side_def gentle_chain gentle_relay gentle_closeBoth
      gentle_terminate gentle_cut_both split: side.split\<close>)

lemma life_step:
  assumes "life t as" "enabled cfg e t" "tunnel_step cfg e t = (t', bs)"
  shows "life t' (as @ bs)"
proof (cases "ends_side e")
  case False
  with gentle_step [of e t cfg] assms(3) show ?thesis using gentle_life [OF assms(1)] by simp
next
  case True
  then consider s code where "e = CloseEvent s code" | "e = SocketClosed"
    by (auto simp: ends_side_def split: event.splits)
  then show ?thesis
  proof cases
    case 1
    then have live: "ready_of s t \<noteq> None" "ready_of s t \<noteq> Some SClosed" using assms(2) by (auto simp: enabled_def)
    show ?thesis
    proof (cases "ready_of Client t = None")
      case True
      with live have "s = Upstream" by (cases s) simp_all
      with 1 True assms(3) have "t' = t\<lparr>upstream_ws := SClosed\<rparr>" "bs = []"
        by (auto simp: tunnel_step_def ready_of_def)
      with assms(1) True show ?thesis by (simp add: life_def ready_of_def)
    next
      case False
      then have "side_closed s code t = (t', bs)"
        using 1 assms(3) by (cases s) (auto simp: tunnel_step_def ready_of_def)
      from side_closed_life [OF assms(1) False live(2) this] show ?thesis .
    qed
  next
    case 2
    then have n: "ready_of Client t = None" "\<not> finished t" using assms(2) by (auto simp: enabled_def ready_of_def)
    obtain t1 cs where w: "ws_terminate Upstream (set_cause HandshakeFailed t) = (t1, cs)" by force
    have g: "gentle t (t1, cs)" using gentle_cause [OF gentle_terminate] by (metis w)
    have "ready_of Upstream t1 \<noteq> Some SOpen" using w
      by (auto simp: ws_terminate_def split: option.splits ready_state.splits)
    moreover have "\<not> finished t1" "no_finish cs" "ready_of Client t1 = None" using g n by (auto simp: gentle_def)
    moreover have "(t', bs) = (t1\<lparr>closedSides := Suc (Suc 0), finished := True\<rparr>, cs @ [Finished (case firstCause t1 of Some c \<Rightarrow> c | None \<Rightarrow> Unknown)])"
      using assms(3) 2 w \<open>\<not> finished t1\<close>
      by (simp add: tunnel_step_def and_then_def onSideClosed_def finish_def Let_def)
    ultimately show ?thesis using assms(1) n by (auto simp: life_def)
  qed
qed

lemma acceptClient_life:
  assumes "acceptClient cfg now accepted early closing = (t, as)"
  shows "life t as"
proof (cases accepted)
  case False
  with assms show ?thesis by (auto simp: acceptClient_def fresh_def life_def closed_count_def ready_of_def Let_def)
next
  case True
  let ?t = "fresh cfg now True (closing \<noteq> None)"
  obtain u bs where u: "relay_early cfg now early ?t = (u, bs)" by force
  then have g: "gentle ?t (u, bs)" using gentle_relay_early [of ?t] by metis
  show ?thesis
  proof (cases closing)
    case None
    have "life ?t []" by (simp add: None life_def fresh_def closed_count_def ready_of_def)
    from gentle_life [OF this g] show ?thesis using assms True None u by (simp add: acceptClient_def and_then_def)
  next
    case (Some code)
    obtain v cs where v: "side_closed Upstream code u = (v, cs)" by force
    have "ready_of Client ?t = Some SOpen" "closedSides ?t = 0" "\<not> finished ?t" by (simp_all add: fresh_def ready_of_def)
    with g have "closedSides u = (if ready_of (other Upstream) u = Some SClosed then 1 else 0)" "\<not> finished u"
      "fin_count bs = 0" "ready_of Client u \<noteq> None" by (auto simp: gentle_def other_def)
    from side_closed_core [OF this v] show ?thesis using assms True Some u v by (simp add: acceptClient_def and_then_def)
  qed
qed

lemma tunnel_life:
  "tunnel_run cfg start es as t \<Longrightarrow> life (fst start) (snd start) \<Longrightarrow> life t as"
  by (induction rule: tunnel_run.induct) (auto intro: life_step)

lemma side_closed_client:
  assumes "ready_of Client t \<noteq> None" "side_closed s code t = (t', as)"
  shows "ready_of Client t' \<noteq> None"
proof -
  define t1 where "t1 = set_cause (case s of Client \<Rightarrow> ByClient | Upstream \<Rightarrow> ByUpstream) (set_ready s SClosed t)"
  obtain t2 cs where r: "relayClose (other s) code t1 = (t2, cs)" by force
  have "gentle t1 (t2, cs)" using gentle_relayClose [of t1 "other s" code] by (simp add: r)
  then have "ready_of Client t2 \<noteq> None" using assms(1) by (auto simp: gentle_def t1_def)
  then show ?thesis using assms(2)
    by (auto simp: side_closed_def t1_def [symmetric] r and_then_def onSideClosed_def finish_def Let_def split: if_splits)
qed

lemma client_step:
  assumes "ready_of Client t \<noteq> None" "enabled cfg e t" "tunnel_step cfg e t = (t', as)"
  shows "ready_of Client t' \<noteq> None"
proof (cases "ends_side e")
  case False
  with gentle_step [of e t cfg] assms show ?thesis by (auto simp: gentle_def)
next
  case True
  then obtain s code where "e = CloseEvent s code"
    using assms(1,2) by (auto simp: ends_side_def enabled_def ready_of_def split: event.splits)
  then have "side_closed s code t = (t', as)"
    using assms by (cases s) (auto simp: tunnel_step_def ready_of_def)
  from side_closed_client [OF assms(1) this] show ?thesis .
qed

lemma acceptClient_client: "ready_of Client (fst (acceptClient cfg now True early closing)) \<noteq> None"
proof -
  let ?t = "fresh cfg now True (closing \<noteq> None)"
  obtain u bs where u: "relay_early cfg now early ?t = (u, bs)" by force
  then have "gentle ?t (u, bs)" using gentle_relay_early [of ?t] by metis
  then have "ready_of Client u \<noteq> None" by (simp add: gentle_def fresh_def) (simp add: ready_of_def)
  note client_u = this
  show ?thesis
  proof (cases closing)
    case None
    with u client_u show ?thesis by (simp add: acceptClient_def and_then_def)
  next
    case (Some code)
    obtain v cs where "side_closed Upstream code u = (v, cs)" by force
    with u Some side_closed_client [OF client_u this] show ?thesis by (simp add: acceptClient_def and_then_def)
  qed
qed

lemma tunnel_client:
  "tunnel_run cfg start es as t \<Longrightarrow> ready_of Client (fst start) \<noteq> None \<Longrightarrow> ready_of Client t \<noteq> None"
proof (induction rule: tunnel_run.induct)
  case (next_event es as t e t' as')
  then show ?case using client_step by blast
qed simp

text \<open>
  C20: a proxied connection leaves the registry and is counted as closed exactly once, namely when both
  of its sockets have closed; and from the moment one has, the other is not left open: it is closing,
  with the kill timer armed behind it.
\<close>

theorem tunnel_lifecycle:
  assumes "tunnel_run cfg (acceptClient cfg now True early closing) es as t"
  shows "fin_count as = (if finished t then 1 else 0)
    \<and> (finished t \<longleftrightarrow> client t = Some SClosed \<and> upstream_ws t = SClosed)
    \<and> (client t = Some SClosed \<or> upstream_ws t = SClosed \<longrightarrow>
         client t \<noteq> Some SOpen \<and> upstream_ws t \<noteq> SOpen \<and> (killTimer t \<or> finished t))"
proof -
  have "life t as" using tunnel_life [OF assms] acceptClient_life by (metis prod.collapse)
  moreover have "ready_of Client t \<noteq> None" using tunnel_client [OF assms acceptClient_client] .
  ultimately have l: "fin_count as = (if finished t then 1 else 0)" "finished t \<longleftrightarrow> closed_count t = 2"
    "0 < closed_count t \<longrightarrow> (\<forall>s. ready_of s t \<noteq> Some SOpen) \<and> (killTimer t \<or> finished t)"
    unfolding life_def by blast+
  have r: "client t = ready_of Client t" "upstream_ws t = x \<longleftrightarrow> ready_of Upstream t = Some x" for x
    by (simp_all add: ready_of_def)
  have c: "closed_count t = 2 \<longleftrightarrow> ready_of Client t = Some SClosed \<and> ready_of Upstream t = Some SClosed"
    "0 < closed_count t \<longleftrightarrow> ready_of Client t = Some SClosed \<or> ready_of Upstream t = Some SClosed"
    by (simp_all add: closed_count_def)
  show ?thesis unfolding r
  proof (intro conjI l(1) impI)
    show "finished t \<longleftrightarrow> ready_of Client t = Some SClosed \<and> ready_of Upstream t = Some SClosed"
      unfolding l(2) by (rule c(1))
  next
    assume "ready_of Client t = Some SClosed \<or> ready_of Upstream t = Some SClosed"
    then have o: "0 < closed_count t" by (simp only: c(2))
    show "ready_of Client t \<noteq> Some SOpen" "ready_of Upstream t \<noteq> Some SOpen" "killTimer t \<or> finished t"
      using l(3) o by blast+
  qed
qed

section \<open>What crosses\<close>

definition to_side :: "side \<Rightarrow> action list \<Rightarrow> message list" where
  "to_side s as = concat (map (\<lambda>a. case a of Sent s' m \<Rightarrow> if s' = s then [m] else [] | _ \<Rightarrow> []) as)"

definition from_side :: "side \<Rightarrow> event list \<Rightarrow> message list" where
  "from_side s es = concat (map (\<lambda>e. case e of Message s' m _ _ \<Rightarrow> if s' = s then [m] else [] | _ \<Rightarrow> []) es)"

lemma crossing_simps [simp]:
  "to_side s [] = []" "to_side s (as @ bs) = to_side s as @ to_side s bs"
  "to_side s (Sent s' m # as) = (if s' = s then m # to_side s as else to_side s as)" "to_side s (CloseFrame s'' c # as) = to_side s as"
  "to_side s (Cut s'' # as) = to_side s as" "to_side s (Pinged s'' # as) = to_side s as"
  "to_side s (Finished cs # as) = to_side s as"
  "from_side s [] = []" "from_side s (es @ fs) = from_side s es @ from_side s fs"
  by (simp_all add: to_side_def from_side_def)

text \<open>\<open>silent\<close>: no message is sent and the limiter's queue is untouched.\<close>

definition silent :: "tunnel \<Rightarrow> outcome \<Rightarrow> bool" where
  "silent t r \<longleftrightarrow> (\<forall>s. to_side s (snd r) = []) \<and> chain (fst r) = chain t \<and> (limiter (fst r) = None \<longleftrightarrow> limiter t = None)"

lemma silent_then: "silent t r \<Longrightarrow> (\<And>u. silent u (f u)) \<Longrightarrow> silent t (and_then r f)"
proof -
  assume r: "silent t r" and f: "\<And>u. silent u (f u)"
  obtain u as where u: "r = (u, as)" by force
  obtain v bs where v: "f u = (v, bs)" by force
  have "silent u (v, bs)" using f [of u] v by simp
  with r u v show ?thesis by (simp add: silent_def and_then_def)
qed

lemma silent_ops:
  "silent t (ws_close code s t)" "silent t (ws_terminate s t)" "silent t (finish t)" "silent t (t, [])"
  "silent t (ping_side s t)" "silent t (set_cause c t, [])" "silent t (set_ready s r t, [])"
  by (auto simp: silent_def ws_close_def ws_terminate_def finish_def ping_side_def split: option.splits ready_state.splits)

lemma silent_cut_both: "silent t (cut_both t)"
  unfolding cut_both_def by (intro silent_then silent_ops)

lemma silent_from: "silent (set_cause c t) r \<Longrightarrow> silent t r" "silent (set_ready s x t) r \<Longrightarrow> silent t r"
  "silent (t\<lparr>closedSides := n\<rparr>) r \<Longrightarrow> silent t r" "silent t (u, as) \<Longrightarrow> silent t (armKill u, as)"
  "silent (t\<lparr>clientAlive := b, upstreamAlive := b'\<rparr>) r \<Longrightarrow> silent t r"
  by (simp_all add: silent_def)

lemma silent_closeBoth: "silent t (closeBoth code c t)"
proof -
  obtain u as where u: "and_then (ws_close (Some code) Client (set_cause c t)) (ws_close (Some code) Upstream) = (u, as)"
    by force
  have "silent (set_cause c t) (u, as)" unfolding u [symmetric] by (intro silent_then silent_ops)
  from silent_from(4) [OF silent_from(1) [OF this]] show ?thesis by (simp add: closeBoth_def u)
qed

lemma silent_relayClose: "silent t (relayClose peer code t)"
  by (simp add: relayClose_def silent_ops)

lemma silent_onSideClosed: "silent t (onSideClosed t)"
  using silent_from(3) [OF silent_ops(3)] by (auto simp: onSideClosed_def Let_def silent_def)

lemma silent_side_closed: "silent t (side_closed s code t)"
proof -
  define t1 where "t1 = set_cause (case s of Client \<Rightarrow> ByClient | Upstream \<Rightarrow> ByUpstream) (set_ready s SClosed t)"
  obtain u as where u: "relayClose (other s) code t1 = (u, as)" by force
  have "silent t1 (u, as)" using silent_relayClose [of t1] by (metis u)
  then have "silent t1 (and_then (armKill u, as) onSideClosed)"
    by (intro silent_then silent_onSideClosed silent_from(4))
  then have "silent t (and_then (armKill u, as) onSideClosed)"
    unfolding t1_def by (rule silent_from(2) [OF silent_from(1)])
  then show ?thesis unfolding side_closed_def Let_def t1_def [symmetric] u by simp
qed

text \<open>A step sends at most the head of the queue or the message it carries.\<close>

lemma relay_sends:
  assumes "relay cfg now to buffered msg t = (t', as)"
  shows "chain t' = chain t \<and> (limiter t' = None \<longleftrightarrow> limiter t = None)
    \<and> (as = [Sent to msg] \<or> (\<forall>s. to_side s as = []))"
  using assms silent_closeBoth [of t 1013 Backpressure] by (auto simp: relay_def silent_def split: if_splits)

lemma limiter_sends:
  assumes "limiter_turn cfg buffered now msg t = (t', as)"
  shows "chain t' = chain t \<and> (limiter t' = None \<longleftrightarrow> limiter t = None)
    \<and> (as = [Sent Upstream msg] \<or> (\<forall>s. to_side s as = []))"
proof (cases "finished t \<or> firstCause t \<noteq> None \<or> limiter t = None \<or> ws_messageRateLimit cfg = None")
  case True
  with assms show ?thesis by (auto simp: limiter_turn_def split: option.splits)
next
  case False
  then obtain st c where sc: "limiter t = Some st" "ws_messageRateLimit cfg = Some c" by auto
  obtain st' r where m: "ms_consume st ''connection'' (message_policy c) now 1 = (st', r)" by force
  let ?t = "t\<lparr>limiter := Some st'\<rparr>"
  have e: "(if \<not> allowed r then closeBoth 1008 RateLimited ?t else relay cfg now Upstream buffered msg ?t) = (t', as)"
    using assms False sc m by (simp add: limiter_turn_def Let_def)
  show ?thesis
  proof (cases "allowed r")
    case True
    with e relay_sends [of cfg now Upstream buffered msg ?t t' as] sc show ?thesis by simp
  next
    case False
    with e silent_closeBoth [of ?t 1008 RateLimited] sc show ?thesis by (simp add: silent_def)
  qed
qed

definition carries :: "event \<Rightarrow> bool" where
  "carries e \<longleftrightarrow> (case e of Message _ _ _ _ \<Rightarrow> True | LimiterTurn _ _ \<Rightarrow> True | _ \<Rightarrow> False)"

lemma silent_pong: "silent t (t\<lparr>clientAlive := b\<rparr>, [])" "silent t (t\<lparr>upstreamAlive := b\<rparr>, [])"
  "silent t (t\<lparr>upstream_ws := r\<rparr>, [])"
  by (simp_all add: silent_def)

lemma silent_step:
  assumes "\<not> carries e"
  shows "silent t (tunnel_step cfg e t)"
proof (cases e)
  case (CloseEvent s code)
  then show ?thesis by (cases s) (simp_all add: tunnel_step_def silent_side_closed silent_pong)
next
  case SocketClosed
  obtain u bs where u: "ws_terminate Upstream (set_cause HandshakeFailed t) = (u, bs)" by force
  have f: "silent v (onSideClosed (v\<lparr>closedSides := 1\<rparr>))" for v by (rule silent_from(3) [OF silent_onSideClosed])
  have "silent (set_cause HandshakeFailed t) (and_then (u, bs) (\<lambda>t. onSideClosed (t\<lparr>closedSides := 1\<rparr>)))"
    unfolding u [symmetric] by (intro silent_then silent_ops(2) f)
  from silent_from(1) [OF this] show ?thesis using SocketClosed by (simp add: tunnel_step_def u)
next
  case PingTick
  have "silent t (cut_both (set_cause DeadPeer t))" by (rule silent_from(1) [OF silent_cut_both])
  moreover have "silent t (and_then (ping_side Client (t\<lparr>clientAlive := False, upstreamAlive := False\<rparr>)) (ping_side Upstream))"
    by (rule silent_from(5) [OF silent_then [OF silent_ops(5) silent_ops(5)]])
  ultimately show ?thesis using PingTick by (simp add: tunnel_step_def)
qed (use assms in \<open>simp_all add: tunnel_step_def carries_def silent_ops silent_cut_both silent_closeBoth silent_pong split: side.split\<close>)

lemma step_sends:
  assumes "enabled cfg e t" "tunnel_step cfg e t = (t', as)" "limiter t = None \<longrightarrow> chain t = []"
  shows "subseq (to_side Upstream as @ chain t') (chain t @ from_side Client [e])
    \<and> subseq (to_side Client as) (from_side Upstream [e]) \<and> (limiter t' = None \<longrightarrow> chain t' = [])"
proof (cases "carries e")
  case False
  then have "from_side s [e] = []" for s by (auto simp: carries_def from_side_def split: event.splits)
  with silent_step [OF False, of t cfg] assms(2,3) show ?thesis by (simp add: silent_def)
next
  case True
  then consider s msg buffered now where "e = Message s msg buffered now" | buffered now where "e = LimiterTurn buffered now"
    by (auto simp: carries_def split: event.splits)
  then show ?thesis
  proof cases
    case 1
    show ?thesis
    proof (cases s)
      case Client
      with 1 assms show ?thesis
        using relay_sends [of cfg now Upstream buffered msg t t' as]
        by (auto simp: tunnel_step_def from_side_def split: if_splits)
    next
      case Upstream
      with 1 assms show ?thesis
        using relay_sends [of cfg now Client buffered msg t t' as]
        by (auto simp: tunnel_step_def from_side_def split: if_splits)
    qed
  next
    case 2
    then obtain m ms where c: "chain t = m # ms" using assms(1) by (cases "chain t") (auto simp: enabled_def)
    from 2 c assms(2) have "limiter_turn cfg buffered now m (t\<lparr>chain := ms\<rparr>) = (t', as)"
      by (simp add: tunnel_step_def)
    from limiter_sends [OF this] c assms(3) 2 show ?thesis by (auto simp: from_side_def)
  qed
qed

text \<open>
  \<open>flowing\<close>: nothing has been closed, cut or given up. As long as no cause of an end is recorded and no
  socket is cut from outside, a tunnel is flowing, and in a flowing tunnel every message is passed on.
\<close>

definition flowing :: "websocket_config \<Rightarrow> tunnel \<Rightarrow> bool" where
  "flowing cfg t \<longleftrightarrow> (\<forall>s. ready_of s t = Some SOpen) \<and> \<not> killTimer t \<and> \<not> finished t
     \<and> (limiter t = None \<longleftrightarrow> ws_messageRateLimit cfg = None) \<and> (limiter t = None \<longrightarrow> chain t = [])"

definition cuts :: "event \<Rightarrow> bool" where
  "cuts e \<longleftrightarrow> (case e of SendFailed _ \<Rightarrow> True | TerminateCall \<Rightarrow> True | _ \<Rightarrow> False)"

lemma flowing_fields [simp]:
  "flowing cfg (t\<lparr>clientAlive := b\<rparr>) = flowing cfg t" "flowing cfg (t\<lparr>upstreamAlive := b\<rparr>) = flowing cfg t"
  "flowing cfg (t\<lparr>lastActivity := now\<rparr>) = flowing cfg t"
  by (simp_all add: flowing_def)

lemma gentle_cause_kept: "gentle t (t', as) \<Longrightarrow> firstCause t' = None \<Longrightarrow> firstCause t = None"
  by (auto simp: gentle_def)

lemma closeBoth_cause: "closeBoth code c t = (t', as) \<Longrightarrow> firstCause t' \<noteq> None"
proof -
  assume c: "closeBoth code c t = (t', as)"
  have "gentle (set_cause c t) (and_then (ws_close (Some code) Client (set_cause c t)) (ws_close (Some code) Upstream))"
    by (intro gentle_then gentle_close)
  from gentle_armKill [OF this] c have "gentle (set_cause c t) (t', as)" by (simp add: closeBoth_def)
  then show ?thesis by (auto simp: gentle_def)
qed

lemma side_closed_cause: "side_closed s code t = (t', as) \<Longrightarrow> firstCause t' \<noteq> None"
proof -
  define t1 where "t1 = set_cause (case s of Client \<Rightarrow> ByClient | Upstream \<Rightarrow> ByUpstream) (set_ready s SClosed t)"
  obtain t2 cs where r: "relayClose (other s) code t1 = (t2, cs)" by force
  have "gentle t1 (t2, cs)" using gentle_relayClose [of t1 "other s" code] by (simp add: r)
  then have f: "firstCause t2 \<noteq> None" by (auto simp: gentle_def t1_def)
  assume "side_closed s code t = (t', as)"
  then have "and_then (armKill t2, cs) onSideClosed = (t', as)"
    unfolding side_closed_def Let_def t1_def [symmetric] r by simp
  with f show ?thesis by (auto simp: and_then_def onSideClosed_def finish_def Let_def split: if_splits)
qed

lemma flowing_relay:
  assumes "flowing cfg t" "relay cfg now to buffered msg t = (t', as)" "firstCause t' = None"
  shows "flowing cfg t' \<and> as = [Sent to msg] \<and> chain t' = chain t"
proof -
  have "ready_of to t = Some SOpen" using assms(1) by (simp add: flowing_def)
  moreover have "closeBoth 1013 Backpressure t \<noteq> (t', as)" using closeBoth_cause assms(3) by blast
  ultimately have "(t', as) = (t\<lparr>lastActivity := now\<rparr>, [Sent to msg])"
    using assms(2) by (simp add: relay_def split: if_splits)
  with assms(1) show ?thesis by simp
qed

lemma flowing_limiter:
  assumes "flowing cfg (t\<lparr>chain := m # ms\<rparr>)" "limiter_turn cfg buffered now m (t\<lparr>chain := ms\<rparr>) = (t', as)"
    and "firstCause t' = None"
  shows "flowing cfg t' \<and> as = [Sent Upstream m] \<and> chain t' = ms"
proof -
  let ?t = "t\<lparr>chain := ms\<rparr>"
  have f: "\<not> finished t" "firstCause t = None"
    using assms(1) gentle_cause_kept [of ?t t' as] gentle_limiter_turn [of ?t cfg buffered now m] assms(2,3)
    by (auto simp: flowing_def)
  obtain st c where sc: "limiter t = Some st" "ws_messageRateLimit cfg = Some c"
    using assms(1) by (auto simp: flowing_def)
  obtain st' r where m: "ms_consume st ''connection'' (message_policy c) now 1 = (st', r)" by force
  let ?u = "?t\<lparr>limiter := Some st'\<rparr>"
  have e: "(if \<not> allowed r then closeBoth 1008 RateLimited ?u else relay cfg now Upstream buffered m ?u) = (t', as)"
    using assms(2) f sc m by (simp add: limiter_turn_def Let_def)
  moreover have "closeBoth 1008 RateLimited ?u \<noteq> (t', as)" using closeBoth_cause assms(3) by blast
  ultimately have "relay cfg now Upstream buffered m ?u = (t', as)" by (simp split: if_splits)
  moreover have "flowing cfg ?u" using assms(1) sc by (simp add: flowing_def)
  ultimately show ?thesis using flowing_relay assms(3) by fastforce
qed

lemma flowing_step:
  assumes "flowing cfg t" "enabled cfg e t" "\<not> cuts e" "tunnel_step cfg e t = (t', as)" "firstCause t' = None"
  shows "flowing cfg t' \<and> to_side Upstream as @ chain t' = chain t @ from_side Client [e]
    \<and> to_side Client as = from_side Upstream [e]"
proof (cases e)
  case (Message s msg buffered now)
  have c: "client t \<noteq> None" using assms(1) by (auto simp: flowing_def ready_of_def split: side.splits)
  show ?thesis
  proof (cases s)
    case Client
    show ?thesis
    proof (cases "limiter t = None")
      case True
      with Message Client assms have "relay cfg now Upstream buffered msg t = (t', as)" "chain t = []"
        by (simp_all add: tunnel_step_def flowing_def)
      with flowing_relay [OF assms(1) this(1) assms(5)] Message Client show ?thesis by (simp add: from_side_def)
    next
      case False
      with Message Client assms have "t' = t\<lparr>chain := chain t @ [msg]\<rparr>" "as = []"
        by (simp_all add: tunnel_step_def)
      with False assms(1) Message Client show ?thesis by (auto simp: from_side_def flowing_def)
    qed
  next
    case Upstream
    with Message assms c have "relay cfg now Client buffered msg t = (t', as)" by (simp add: tunnel_step_def)
    with flowing_relay [OF assms(1) this assms(5)] Message Upstream show ?thesis by (simp add: from_side_def)
  qed
next
  case (LimiterTurn buffered now)
  then obtain m ms where c: "chain t = m # ms" using assms(2) by (cases "chain t") (auto simp: enabled_def)
  then have t: "t\<lparr>chain := m # ms\<rparr> = t" by simp
  from LimiterTurn c assms(4) have l: "limiter_turn cfg buffered now m (t\<lparr>chain := ms\<rparr>) = (t', as)"
    by (simp add: tunnel_step_def)
  have "flowing cfg (t\<lparr>chain := m # ms\<rparr>)" unfolding t by (rule assms(1))
  from flowing_limiter [OF this l assms(5)] LimiterTurn c show ?thesis by (simp add: from_side_def)
next
  case (CloseEvent s code)
  have "client t \<noteq> None" using assms(1) by (auto simp: flowing_def ready_of_def split: side.splits)
  with CloseEvent assms(4) have "side_closed s code t = (t', as)"
    by (cases s) (simp_all add: tunnel_step_def)
  with side_closed_cause assms(5) show ?thesis by blast
next
  case PingTick
  show ?thesis
  proof (cases "clientAlive t \<and> upstreamAlive t")
    case True
    with PingTick assms(4) have "t' = t\<lparr>clientAlive := False, upstreamAlive := False\<rparr>" "\<forall>s. to_side s as = []"
      by (auto simp: tunnel_step_def and_then_def ping_side_def)
    with assms(1) PingTick show ?thesis by (simp add: from_side_def flowing_def)
  next
    case False
    with PingTick assms(4) have "cut_both (set_cause DeadPeer t) = (t', as)" by (auto simp: tunnel_step_def)
    with gentle_cut_both [of "set_cause DeadPeer t"] assms(5) show ?thesis by (auto simp: gentle_def)
  qed
next
  case (ErrorEvent s)
  with assms(4) have "firstCause t' \<noteq> None" by (auto simp: tunnel_step_def set_cause_def)
  with assms(5) show ?thesis by simp
next
  case (Pong s)
  with assms(1,4) show ?thesis by (cases s) (auto simp: tunnel_step_def from_side_def)
next
  case (IdleTick now)
  have "closeBoth 1001 Idle t \<noteq> (t', as)" using closeBoth_cause assms(5) by blast
  with IdleTick assms(1,4) show ?thesis by (auto simp: tunnel_step_def from_side_def split: if_splits)
next
  case KillTick
  with assms(1,2) show ?thesis by (simp add: enabled_def flowing_def)
next
  case SocketClosed
  have "client t \<noteq> None" using assms(1) by (auto simp: flowing_def ready_of_def split: side.splits)
  with SocketClosed assms(2) show ?thesis by (simp add: enabled_def)
next
  case ShutdownCall
  have "closeBoth 1001 ByShutdown t \<noteq> (t', as)" using closeBoth_cause assms(5) by blast
  with ShutdownCall assms(4) show ?thesis by (simp add: tunnel_step_def)
qed (use assms(3) in \<open>simp_all add: cuts_def\<close>)

lemma step_cause_kept:
  assumes "ready_of Client t \<noteq> None" "enabled cfg e t" "tunnel_step cfg e t = (t', as)" "firstCause t' = None"
  shows "firstCause t = None"
proof (cases "ends_side e")
  case False
  with gentle_step [of e t cfg] assms(3,4) show ?thesis using gentle_cause_kept by simp
next
  case True
  then obtain s code where "e = CloseEvent s code"
    using assms(1,2) by (auto simp: ends_side_def enabled_def ready_of_def split: event.splits)
  then have "side_closed s code t = (t', as)"
    using assms(1,3) by (cases s) (auto simp: tunnel_step_def ready_of_def)
  with side_closed_cause assms(4) show ?thesis by blast
qed

lemma relay_early_order:
  "relay_early cfg now early t = (t', as) \<Longrightarrow>
     to_side Upstream as = [] \<and> chain t' = chain t \<and> (limiter t' = None \<longleftrightarrow> limiter t = None)
     \<and> subseq (to_side Client as) (map fst early)
     \<and> (flowing cfg t \<and> firstCause t' = None \<longrightarrow> flowing cfg t' \<and> to_side Client as = map fst early)"
proof (induction early arbitrary: t t' as)
  case (Cons p early)
  obtain m buffered where p: "p = (m, buffered)" by (cases p)
  obtain u bs where u: "relay cfg now Client buffered m t = (u, bs)" by force
  obtain v cs where v: "relay_early cfg now early u = (v, cs)" by force
  have e: "t' = v" "as = bs @ cs" using Cons.prems by (simp_all add: p u v and_then_def)
  note ih = Cons.IH [OF v]
  have c: "firstCause v = None \<Longrightarrow> firstCause u = None"
    using gentle_cause_kept gentle_relay_early [of u cfg now early] by (metis v)
  from relay_sends [OF u] consider "bs = [Sent Client m]" | "\<forall>s. to_side s bs = []" by blast
  then show ?case
  proof cases
    case 1
    with ih e p relay_sends [OF u] flowing_relay [OF _ u] c show ?thesis by auto
  next
    case 2
    have "\<not> (flowing cfg t \<and> firstCause u = None)" 
    proof
      assume "flowing cfg t \<and> firstCause u = None"
      then have "bs = [Sent Client m]" using flowing_relay [OF _ u] by blast
      with 2 [rule_format, of Client] show False by simp
    qed
    with 2 ih e p relay_sends [OF u] c show ?thesis by auto
  qed
qed simp

lemma acceptClient_order:
  assumes "acceptClient cfg now True early closing = (t, as)"
  shows "to_side Upstream as = [] \<and> chain t = [] \<and> subseq (to_side Client as) (map fst early)
    \<and> (firstCause t = None \<longrightarrow> flowing cfg t \<and> to_side Client as = map fst early)"
proof -
  let ?t = "fresh cfg now True (closing \<noteq> None)"
  obtain u bs where u: "relay_early cfg now early ?t = (u, bs)" by force
  have f: "chain ?t = []" "closing = None \<Longrightarrow> flowing cfg ?t"
    by (auto simp: fresh_def flowing_def ready_of_def createMessageLimiter_def split: side.split)
  note o = relay_early_order [OF u]
  show ?thesis
  proof (cases closing)
    case None
    with assms u have "t = u" "as = bs" by (simp_all add: acceptClient_def and_then_def)
    with o f None show ?thesis by simp
  next
    case (Some code)
    obtain v cs where v: "side_closed Upstream code u = (v, cs)" by force
    with assms u Some have e: "t = v" "as = bs @ cs" by (simp_all add: acceptClient_def and_then_def)
    have "silent u (v, cs)" using silent_side_closed [of u Upstream code] by (simp add: v)
    with o f(1) e side_closed_cause [OF v] show ?thesis by (auto simp: silent_def)
  qed
qed

text \<open>
  C9: the tunnel neither invents, repeats nor reorders messages: what has been sent to the upstream,
  with what still waits for the rate limiter, is a subsequence of what the client sent, and what the
  client got is a subsequence of what the upstream sent, beginning with what it said before the
  client was ready. Nothing is lost either until a cause of an end is recorded or a socket is cut.
\<close>

theorem tunnel_messages:
  assumes "tunnel_run cfg (acceptClient cfg now True early closing) es as t"
  shows "subseq (to_side Upstream as @ chain t) (from_side Client es)
    \<and> subseq (to_side Client as) (map fst early @ from_side Upstream es)
    \<and> (firstCause t = None \<and> (\<forall>e \<in> set es. \<not> cuts e) \<longrightarrow>
         to_side Upstream as @ chain t = from_side Client es
         \<and> to_side Client as = map fst early @ from_side Upstream es)"
proof -
  have "(limiter t = None \<longrightarrow> chain t = [])
    \<and> subseq (to_side Upstream as @ chain t) (from_side Client es)
    \<and> subseq (to_side Client as) (map fst early @ from_side Upstream es)
    \<and> (firstCause t = None \<and> (\<forall>e \<in> set es. \<not> cuts e) \<longrightarrow> flowing cfg t
         \<and> to_side Upstream as @ chain t = from_side Client es
         \<and> to_side Client as = map fst early @ from_side Upstream es)"
    using assms
  proof (induction rule: tunnel_run.induct)
    case (begin_run t as)
    then show ?case using acceptClient_order [of cfg now early closing t as] by auto
  next
    case (next_event es as t e t' as')
    note ih = next_event.IH
    from step_sends [OF next_event.hyps(2,3)] ih have s:
      "subseq (to_side Upstream as' @ chain t') (chain t @ from_side Client [e])"
      "subseq (to_side Client as') (from_side Upstream [e])" "limiter t' = None \<longrightarrow> chain t' = []" by blast+
    have "subseq (to_side Upstream as @ to_side Upstream as' @ chain t') (to_side Upstream as @ chain t @ from_side Client [e])"
      using s(1) by (simp only: subseq_append')
    also have "subseq (to_side Upstream as @ chain t @ from_side Client [e]) (from_side Client es @ from_side Client [e])"
      using ih list_emb_append_mono [of "(=)" "to_side Upstream as @ chain t" _ "from_side Client [e]" "from_side Client [e]"]
      by simp
    finally have up: "subseq (to_side Upstream (as @ as') @ chain t') (from_side Client (es @ [e]))" by simp
    have down: "subseq (to_side Client (as @ as')) (map fst early @ from_side Upstream (es @ [e]))"
      using ih s(2) list_emb_append_mono [of "(=)" "to_side Client as" "map fst early @ from_side Upstream es"] by simp
    have "firstCause t' = None \<Longrightarrow> firstCause t = None"
      using step_cause_kept [OF tunnel_client [OF next_event.hyps(1) acceptClient_client] next_event.hyps(2,3)] .
    with up down s(3) ih flowing_step [OF _ next_event.hyps(2) _ next_event.hyps(3)] show ?case by auto
  qed
  then show ?thesis by blast
qed

section \<open>Close codes\<close>

definition codes_ok :: "action list \<Rightarrow> bool" where
  "codes_ok as \<longleftrightarrow> (\<forall>s code. CloseFrame s (Some code) \<in> set as \<longrightarrow> isSendableCloseCode code)"

lemma codes_simps [simp]:
  "codes_ok []" "codes_ok (as @ bs) \<longleftrightarrow> codes_ok as \<and> codes_ok bs" "codes_ok [Cut s]" "codes_ok [Sent s m]"
  "codes_ok [Pinged s]" "codes_ok [Finished c]"
  by (auto simp: codes_ok_def)

lemma codes_then: "codes_ok (snd r) \<Longrightarrow> (\<And>u. codes_ok (snd (f u))) \<Longrightarrow> codes_ok (snd (and_then r f))"
proof -
  assume r: "codes_ok (snd r)" and f: "\<And>u. codes_ok (snd (f u))"
  obtain u as where u: "r = (u, as)" by force
  obtain v bs where "f u = (v, bs)" by force
  with r u f [of u] show ?thesis by (simp add: and_then_def)
qed

lemma codes_ops:
  "pred_option isSendableCloseCode code \<Longrightarrow> codes_ok (snd (ws_close code s t))"
  "codes_ok (snd (ws_terminate s t))" "codes_ok (snd (finish t))" "codes_ok (snd (ping_side s t))"
  "codes_ok (snd (onSideClosed t))"
  by (auto simp: ws_close_def ws_terminate_def finish_def ping_side_def onSideClosed_def codes_ok_def Let_def
      split: option.splits ready_state.splits)

lemma codes_cut_both: "codes_ok (snd (cut_both t))"
  unfolding cut_both_def by (intro codes_then codes_ops)

lemma codes_closeBoth: "isSendableCloseCode code \<Longrightarrow> codes_ok (snd (closeBoth code c t))"
proof -
  assume "isSendableCloseCode code"
  then have "codes_ok (snd (and_then (ws_close (Some code) Client (set_cause c t)) (ws_close (Some code) Upstream)))"
    by (intro codes_then codes_ops) simp_all
  then show ?thesis by (simp add: closeBoth_def case_prod_beta)
qed

lemma codes_side_closed: "codes_ok (snd (side_closed s code t))"
proof -
  have "codes_ok (snd (relayClose peer code u))" for peer u by (simp add: relayClose_def codes_ops)
  then show ?thesis unfolding side_closed_def Let_def by (intro codes_then codes_ops) (simp add: case_prod_beta)
qed

lemma codes_relay: "codes_ok (snd (relay cfg now to buffered msg t))"
  by (simp add: relay_def codes_closeBoth isSendableCloseCode_def)

lemma codes_early: "codes_ok (snd (relay_early cfg now early t))"
proof (induction early arbitrary: t)
  case (Cons p early)
  then show ?case by (cases p) (simp add: codes_then codes_relay)
qed simp

lemma codes_step: "codes_ok (snd (tunnel_step cfg e t))"
proof -
  have "codes_ok (snd (limiter_turn cfg buffered now msg u))" for buffered now msg u
    by (auto simp: limiter_turn_def Let_def codes_closeBoth codes_relay isSendableCloseCode_def split: option.split prod.split)
  then show ?thesis
    by (cases e) (auto simp: tunnel_step_def codes_relay codes_side_closed codes_cut_both codes_closeBoth
        isSendableCloseCode_def codes_ops intro!: codes_then split: side.split)
qed

lemma codes_accept: "codes_ok (snd (acceptClient cfg now accepted early closing))"
  by (auto simp: acceptClient_def Let_def intro!: codes_then codes_early split: option.split simp: codes_side_closed)

text \<open>
  Every close frame the gateway writes, to either side, has a code that may appear on the wire:
  the reserved codes 1004, 1005, 1006 and 1015, which \<open>ws\<close> reports for closes without one, never do.
\<close>

theorem close_codes_sendable:
  assumes "tunnel_run cfg (acceptClient cfg now accepted early closing) es as t" "CloseFrame s (Some code) \<in> set as"
  shows "isSendableCloseCode code \<and> code \<notin> {1004, 1005, 1006, 1015} \<and> 1000 \<le> code \<and> code < 5000"
proof -
  have "codes_ok as" using assms(1)
  proof (induction rule: tunnel_run.induct)
    case (begin_run t as)
    then show ?case using codes_accept [of cfg now accepted early closing] by simp
  next
    case (next_event es as t e t' as')
    then show ?case using codes_step [of cfg e t] by simp
  qed
  with assms(2) have "isSendableCloseCode code" unfolding codes_ok_def by blast
  then show ?thesis by (auto simp: isSendableCloseCode_def)
qed

section \<open>Witnesses\<close>

lemma run_begin: "tunnel_run cfg start [] (snd start) (fst start)"
  by (rule tunnel_run.begin_run) simp

lemma run_event:
  "tunnel_run cfg start es as t \<Longrightarrow> enabled cfg e t \<Longrightarrow>
     tunnel_run cfg start (es @ [e]) (as @ snd (tunnel_step cfg e t)) (fst (tunnel_step cfg e t))"
  by (erule tunnel_run.next_event) simp_all

definition plain_ws :: websocket_config where
  "plain_ws = \<lparr>ws_enabled = True, ws_origins = None, ws_queryToken = False, ws_maxConnections = 1, ws_maxMessageBytes = 100,
     ws_maxBufferedBytes = 100, ws_pingIntervalMs = 0, ws_idleTimeoutMs = 0, ws_messageRateLimit = None\<rparr>"

definition greeted :: outcome where
  "greeted = acceptClient plain_ws 0 True [((''hello'', False), 0)] None"

lemma greeted_eq: "greeted = (fresh plain_ws 0 True False, [Sent Client (''hello'', False)])"
  by (simp add: greeted_def acceptClient_def fresh_def relay_def and_then_def ready_of_def plain_ws_def
      createMessageLimiter_def)

lemma greeted_message:
  "tunnel_run plain_ws greeted [Message Client (''hi'', False) 0 5]
     [Sent Client (''hello'', False), Sent Upstream (''hi'', False)] ((fresh plain_ws 0 True False)\<lparr>lastActivity := 5\<rparr>)"
proof -
  have "enabled plain_ws (Message Client (''hi'', False) 0 5) (fst greeted)" by code_simp
  from run_event [OF run_begin this] show ?thesis
    by (simp add: greeted_eq tunnel_step_def relay_def fresh_def createMessageLimiter_def plain_ws_def ready_of_def)
qed

lemma tunnel_messages_witness:
  "to_side Upstream [Sent Client (''hello'', False), Sent Upstream (''hi'', False)] = [(''hi'', False)]
   \<and> to_side Client [Sent Client (''hello'', False), Sent Upstream (''hi'', False)] = [(''hello'', False)]"
  using tunnel_messages [OF greeted_message [unfolded greeted_def]]
  by (simp add: cuts_def from_side_def fresh_def)

lemma greeted_closed:
  "\<exists>t. tunnel_run plain_ws greeted [CloseEvent Client 1005, CloseEvent Upstream 1005]
     [Sent Client (''hello'', False), CloseFrame Upstream None, Finished ByClient] t \<and> finished t"
proof -
  let ?e = "CloseEvent Client 1005" and ?f = "CloseEvent Upstream 1005"
  let ?t = "fst (tunnel_step plain_ws ?e (fst greeted))"
  have en: "enabled plain_ws ?e (fst greeted)" "enabled plain_ws ?f ?t" by code_simp+
  have out: "snd greeted = [Sent Client (''hello'', False)]"
    "snd (tunnel_step plain_ws ?e (fst greeted)) = [CloseFrame Upstream None]"
    "snd (tunnel_step plain_ws ?f ?t) = [Finished ByClient]" "finished (fst (tunnel_step plain_ws ?f ?t))" by code_simp+
  from run_event [OF run_event [OF run_begin en(1)] en(2)] out show ?thesis by auto
qed

lemma tunnel_lifecycle_witness:
  "fin_count [Sent Client (''hello'', False), CloseFrame Upstream None, Finished ByClient] = 1"
proof -
  obtain t where "tunnel_run plain_ws greeted [CloseEvent Client 1005, CloseEvent Upstream 1005]
     [Sent Client (''hello'', False), CloseFrame Upstream None, Finished ByClient] t" "finished t"
    using greeted_closed by blast
  with tunnel_lifecycle [of plain_ws 0 "[((''hello'', False), 0)]" None] show ?thesis by (auto simp: greeted_def)
qed

lemma close_codes_sendable_witness: "isSendableCloseCode 1013"
proof -
  let ?e = "Message Client (''hi'', False) 101 5"
  have en: "enabled plain_ws ?e (fst greeted)" by code_simp
  have "snd greeted @ snd (tunnel_step plain_ws ?e (fst greeted))
      = [Sent Client (''hello'', False), CloseFrame Client (Some 1013), CloseFrame Upstream (Some 1013)]" by code_simp
  with run_event [OF run_begin en] have "\<exists>t. tunnel_run plain_ws greeted [?e]
      [Sent Client (''hello'', False), CloseFrame Client (Some 1013), CloseFrame Upstream (Some 1013)] t" by auto
  with close_codes_sendable [of plain_ws 0 True "[((''hello'', False), 0)]" None] show ?thesis
    unfolding greeted_def by (metis list.set_intros)
qed

end
