(* ===== verification/Registry.thy ===== *)
theory Registry
  imports JsNumber
begin

text \<open>
  \<open>gateway/src/websocket/registry.ts\<close>: the open WebSocket connections of the process, as a set in order
  of insertion, and the shutdown that waits for them. A connection is known by its identity and route.
\<close>

record connection =
  conn_id :: nat
  conn_route :: string

type_synonym registry = "connection list"

definition reg_add :: "connection \<Rightarrow> registry \<Rightarrow> registry" where
  "reg_add c r = (if c \<in> set r then r else r @ [c])"

definition reg_remove :: "connection \<Rightarrow> registry \<Rightarrow> registry" where
  "reg_remove c r = filter (\<lambda>d. d \<noteq> c) r"

definition countFor :: "string \<Rightarrow> registry \<Rightarrow> nat" where
  "countFor routeId r = length (filter (\<lambda>c. conn_route c = routeId) r)"

definition reg_size :: "registry \<Rightarrow> nat" where
  "reg_size r = length r"

text \<open>
  The polling loop of \<open>closeAll\<close>. \<open>clock i\<close> is \<open>Date.now()\<close> at poll \<open>i\<close> and \<open>meanwhile i\<close> what the
  connections do during the sleep after it. \<open>None\<close> is a loop that never ends.
\<close>

partial_function (option) wait_closed ::
  "(nat \<Rightarrow> registry \<Rightarrow> registry) \<Rightarrow> (nat \<Rightarrow> number) \<Rightarrow> number \<Rightarrow> nat \<Rightarrow> registry \<Rightarrow> registry option" where
  "wait_closed meanwhile clock deadline i r =
     (if r \<noteq> [] \<and> clock i < deadline then wait_closed meanwhile clock deadline (i + 1) (meanwhile i r)
      else Some r)"

datatype close_call = Shutdown connection | Terminate connection

definition closeAll ::
  "(nat \<Rightarrow> registry \<Rightarrow> registry) \<Rightarrow> (nat \<Rightarrow> number) \<Rightarrow> number \<Rightarrow> number \<Rightarrow> registry \<Rightarrow> (close_call list \<times> registry) option" where
  "closeAll meanwhile clock now graceMs r =
     map_option (\<lambda>r'. (map Shutdown r @ map Terminate r', r')) (wait_closed meanwhile clock (now + graceMs) 0 r)"

lemma countFor_add: "c \<notin> set r \<Longrightarrow> countFor rid (reg_add c r) = countFor rid r + (if conn_route c = rid then 1 else 0)"
  by (simp add: countFor_def reg_add_def)

lemma countFor_remove:
  "distinct r \<Longrightarrow> c \<in> set r \<Longrightarrow> countFor rid (reg_remove c r) + (if conn_route c = rid then 1 else 0) = countFor rid r"
proof (induction r)
  case (Cons d r)
  show ?case
  proof (cases "d = c")
    case True
    with Cons.prems have "c \<notin> set r" by simp
    then have "reg_remove c r = r" by (auto simp: reg_remove_def filter_id_conv)
    with True show ?thesis by (simp add: countFor_def reg_remove_def)
  next
    case False
    with Cons show ?thesis by (auto simp: countFor_def reg_remove_def)
  qed
qed simp

lemma distinct_reg [simp]: "distinct r \<Longrightarrow> distinct (reg_add c r)" "distinct r \<Longrightarrow> distinct (reg_remove c r)"
  by (simp_all add: reg_add_def reg_remove_def)

text \<open>The registry after \<open>j\<close> polls, and the poll at which the loop stops.\<close>

definition polled :: "(nat \<Rightarrow> registry \<Rightarrow> registry) \<Rightarrow> registry \<Rightarrow> nat \<Rightarrow> nat \<Rightarrow> registry" where
  "polled meanwhile r i j = fold meanwhile [i..<i + j] r"

lemma polled_simps [simp]:
  "polled meanwhile r i 0 = r" "polled meanwhile r i (Suc j) = polled meanwhile (meanwhile i r) (Suc i) j"
  by (simp_all add: polled_def upt_conv_Cons del: upt_Suc)

lemma wait_closed_ends:
  "deadline \<le> clock (i + n) \<Longrightarrow>
     \<exists>j. wait_closed meanwhile clock deadline i r = Some (polled meanwhile r i j)
       \<and> (polled meanwhile r i j = [] \<or> deadline \<le> clock (i + j))
       \<and> (\<forall>k < j. polled meanwhile r i k \<noteq> [] \<and> clock (i + k) < deadline)"
proof (induction n arbitrary: i r)
  case 0
  then show ?case by (subst wait_closed.simps, intro exI [of _ 0]) auto
next
  case (Suc n)
  show ?case
  proof (cases "r \<noteq> [] \<and> clock i < deadline")
    case True
    from Suc.IH [of "Suc i" "meanwhile i r"] Suc.prems obtain j where j:
      "wait_closed meanwhile clock deadline (Suc i) (meanwhile i r) = Some (polled meanwhile r i (Suc j))"
      "polled meanwhile r i (Suc j) = [] \<or> deadline \<le> clock (i + Suc j)"
      "\<forall>k < j. polled meanwhile r i (Suc k) \<noteq> [] \<and> clock (i + Suc k) < deadline" by auto
    have "\<forall>k < Suc j. polled meanwhile r i k \<noteq> [] \<and> clock (i + k) < deadline"
    proof (intro allI impI)
      fix k assume "k < Suc j"
      with True j(3) show "polled meanwhile r i k \<noteq> [] \<and> clock (i + k) < deadline" by (cases k) auto
    qed
    with True j(1,2) show ?thesis by (subst wait_closed.simps, intro exI [of _ "Suc j"]) simp
  next
    case False
    then show ?thesis by (subst wait_closed.simps, intro exI [of _ 0]) auto
  qed
qed

lemma clock_grows:
  fixes clock :: "nat \<Rightarrow> number"
  assumes "\<forall>i. clock i + step \<le> clock (i + 1)"
  shows "clock 0 + of_nat n * step \<le> clock n"
proof (induction n)
  case (Suc n)
  then show ?case using assms [rule_format, of n] by (simp add: algebra_simps)
qed simp



end
