(* ===== verification/Metrics.thy ===== *)
theory Metrics
  imports Balancer
begin

text \<open>
  \<open>gateway/src/observability/metrics.ts\<close>: the collectors as functions of their labels (a counter never
  incremented is 0, a gauge never set has no value), and the scrape of \<open>server.ts\<close> that refreshes the
  gauges from the balancers. The process metrics and the text format are the library's.
\<close>

record metrics =
  requestsTotal :: "string \<times> nat \<times> string \<Rightarrow> nat"
  requestDuration :: "string \<Rightarrow> number list"
  ratelimitDecisions :: "string \<times> bool \<Rightarrow> nat"
  cacheTotal :: "string \<times> bool \<Rightarrow> nat"
  upstreamErrors :: "string \<times> string \<Rightarrow> nat"
  circuitState :: "string \<rightharpoonup> nat"
  upstreamHealthy :: "string \<times> string \<rightharpoonup> nat"
  redisLatency :: "number list"
  websocketConnections :: "string \<Rightarrow> int"
  websocketClosed :: "string \<times> string \<Rightarrow> nat"
  websocketMessages :: "string \<times> bool \<Rightarrow> nat"

definition createMetrics :: metrics where
  "createMetrics = \<lparr>requestsTotal = \<lambda>_. 0, requestDuration = \<lambda>_. [], ratelimitDecisions = \<lambda>_. 0, cacheTotal = \<lambda>_. 0,
     upstreamErrors = \<lambda>_. 0, circuitState = Map.empty, upstreamHealthy = Map.empty, redisLatency = [],
     websocketConnections = \<lambda>_. 0, websocketClosed = \<lambda>_. 0, websocketMessages = \<lambda>_. 0\<rparr>"

fun CIRCUIT_STATE_VALUE :: "circuit_state \<Rightarrow> nat" where
  "CIRCUIT_STATE_VALUE Closed = 0"
| "CIRCUIT_STATE_VALUE Open = 1"
| "CIRCUIT_STATE_VALUE HalfOpen = 2"

definition recordRequest :: "string \<Rightarrow> nat \<Rightarrow> number \<Rightarrow> string option \<Rightarrow> metrics \<Rightarrow> metrics" where
  "recordRequest route st durationSec tenantId m =
     (let l = (route, st, case tenantId of Some t \<Rightarrow> t | None \<Rightarrow> [])
      in m\<lparr>requestsTotal := (requestsTotal m)(l := requestsTotal m l + 1),
           requestDuration := (requestDuration m)(route := requestDuration m route @ [durationSec])\<rparr>)"

text \<open>\<open>True\<close> is \<open>'allowed'\<close>, \<open>'hit'\<close> and \<open>'client_to_upstream'\<close>.\<close>

definition recordRateLimitDecision :: "string \<Rightarrow> bool \<Rightarrow> metrics \<Rightarrow> metrics" where
  "recordRateLimitDecision route decision m =
     m\<lparr>ratelimitDecisions := (ratelimitDecisions m)((route, decision) := ratelimitDecisions m (route, decision) + 1)\<rparr>"

definition recordCacheResult :: "string \<Rightarrow> bool \<Rightarrow> metrics \<Rightarrow> metrics" where
  "recordCacheResult route result m = m\<lparr>cacheTotal := (cacheTotal m)((route, result) := cacheTotal m (route, result) + 1)\<rparr>"

definition recordUpstreamError :: "string \<Rightarrow> string \<Rightarrow> metrics \<Rightarrow> metrics" where
  "recordUpstreamError route type m =
     m\<lparr>upstreamErrors := (upstreamErrors m)((route, type) := upstreamErrors m (route, type) + 1)\<rparr>"

definition setCircuitState :: "string \<Rightarrow> circuit_state \<Rightarrow> metrics \<Rightarrow> metrics" where
  "setCircuitState route state m = m\<lparr>circuitState := (circuitState m)(route \<mapsto> CIRCUIT_STATE_VALUE state)\<rparr>"

definition setUpstreamHealthy :: "string \<Rightarrow> string \<Rightarrow> bool \<Rightarrow> metrics \<Rightarrow> metrics" where
  "setUpstreamHealthy route target healthy m =
     m\<lparr>upstreamHealthy := (upstreamHealthy m)((route, target) \<mapsto> if healthy then 1 else 0)\<rparr>"

definition observeRedisLatency :: "number \<Rightarrow> metrics \<Rightarrow> metrics" where
  "observeRedisLatency seconds m = m\<lparr>redisLatency := redisLatency m @ [seconds]\<rparr>"

definition webSocketOpened :: "string \<Rightarrow> metrics \<Rightarrow> metrics" where
  "webSocketOpened route m =
     m\<lparr>websocketConnections := (websocketConnections m)(route := websocketConnections m route + 1)\<rparr>"

definition webSocketClosed :: "string \<Rightarrow> string \<Rightarrow> metrics \<Rightarrow> metrics" where
  "webSocketClosed route reason m =
     m\<lparr>websocketConnections := (websocketConnections m)(route := websocketConnections m route - 1),
       websocketClosed := (websocketClosed m)((route, reason) := websocketClosed m (route, reason) + 1)\<rparr>"

definition webSocketMessage :: "string \<Rightarrow> bool \<Rightarrow> metrics \<Rightarrow> metrics" where
  "webSocketMessage route direction m =
     m\<lparr>websocketMessages := (websocketMessages m)((route, direction) := websocketMessages m (route, direction) + 1)\<rparr>"

section \<open>The scrape\<close>

text \<open>The loop over \<open>state.balancers\<close> in the \<open>/metrics\<close> handler.\<close>

definition scrape_target :: "string \<Rightarrow> string \<times> bool \<times> circuit_state option \<Rightarrow> metrics \<Rightarrow> metrics" where
  "scrape_target routeId snapshot m =
     (case snapshot of (url, healthy, cs) \<Rightarrow>
        (let m = setUpstreamHealthy routeId url healthy m
         in case cs of Some st \<Rightarrow> setCircuitState routeId st m | None \<Rightarrow> m))"

definition scrape :: "(string \<times> balancer) list \<Rightarrow> metrics \<Rightarrow> metrics" where
  "scrape balancers m =
     fold (\<lambda>(routeId, b) m. fold (scrape_target routeId) (getTargetStates b) m) balancers m"

lemma scrape_target_circuit:
  "circuitState (scrape_target rid (u, h, cs) m) =
     (case cs of Some st \<Rightarrow> (circuitState m)(rid \<mapsto> CIRCUIT_STATE_VALUE st) | None \<Rightarrow> circuitState m)"
  by (simp add: scrape_target_def setCircuitState_def setUpstreamHealthy_def split: option.splits)

lemma scrape_targets_circuit:
  "ts \<noteq> [] \<Longrightarrow> snd (snd (last ts)) = Some st \<Longrightarrow>
     circuitState (fold (scrape_target rid) ts m) rid = Some (CIRCUIT_STATE_VALUE st)"
proof (induction ts arbitrary: m)
  case (Cons t ts)
  show ?case
  proof (cases "ts = []")
    case True
    with Cons.prems show ?thesis by (cases t) (simp add: scrape_target_circuit)
  next
    case False
    with Cons show ?thesis by simp
  qed
qed simp

text \<open>
  The gauge \<open>apigate_circuit_state\<close> has no label for the target: after a scrape it shows the breaker
  of the route's last target only, so a route whose every other target is open reports 0 (closed)
  when the last one is closed.
\<close>

theorem scrape_reports_last_target:
  assumes "b_targets b \<noteq> []" "t_breaker (last (b_targets b)) = Some br"
  shows "circuitState (scrape [(rid, b)] m) rid = Some (CIRCUIT_STATE_VALUE (getState br))"
proof -
  have "last (getTargetStates b) = (t_url (last (b_targets b)), t_healthy (last (b_targets b)), Some (getState br))"
    using assms by (simp add: getTargetStates_def last_map)
  moreover have "getTargetStates b \<noteq> []" using assms(1) by (simp add: getTargetStates_def)
  ultimately show ?thesis by (simp add: scrape_def scrape_targets_circuit)
qed

lemma scrape_reports_last_target_witness:
  "circuitState (scrape [(''r'', \<lparr>b_targets = [\<lparr>t_url = ''a'', t_healthy = True, t_breaker = Some (new_breaker\<lparr>cb_state := Open\<rparr>)\<rparr>,
       \<lparr>t_url = ''b'', t_healthy = True, t_breaker = Some new_breaker\<rparr>], b_cursor = 0, b_options = hasty\<rparr>)] createMetrics) ''r'' = Some 0"
  using scrape_reports_last_target [of "\<lparr>b_targets = [\<lparr>t_url = ''a'', t_healthy = True,
      t_breaker = Some (new_breaker\<lparr>cb_state := Open\<rparr>)\<rparr>, \<lparr>t_url = ''b'', t_healthy = True, t_breaker = Some new_breaker\<rparr>],
      b_cursor = 0, b_options = hasty\<rparr>" new_breaker "''r''" createMetrics]
  by (simp add: getState_def new_breaker_def)

end
