(* ===== verification/Upgrade.thy ===== *)
theory Upgrade
  imports Http
begin

text \<open>
  \<open>gateway/src/websocket/upgrade.ts\<close>: what counts as a WebSocket handshake, what is wrong with one, and
  what becomes of the socket of an \<open>upgrade\<close> event. Headers are as Node delivers them.
\<close>

definition header_string :: "headers \<Rightarrow> string \<Rightarrow> string option" where
  "header_string hs name = (case map_of hs name of Some (HText v) \<Rightarrow> Some v | _ \<Rightarrow> None)"

definition isWebSocketHandshake :: "headers \<Rightarrow> bool" where
  "isWebSocketHandshake hs \<longleftrightarrow>
     (case header_string hs ''upgrade'' of Some u \<Rightarrow> js_lower u = ''websocket'' | None \<Rightarrow> False)
     \<and> (case header_string hs ''connection'' of
          Some c \<Rightarrow> list_ex (\<lambda>token. js_trim token = ''upgrade'') (js_split (CHR '','') (js_lower c))
        | None \<Rightarrow> False)"

text \<open>\<open>/^[+/0-9A-Za-z]{22}==$/\<close>.\<close>

definition base64_char :: "char \<Rightarrow> bool" where
  "base64_char c \<longleftrightarrow> (let n = (of_char c :: nat) in
     c = CHR ''+'' \<or> c = CHR ''/'' \<or> (48 \<le> n \<and> n \<le> 57) \<or> (65 \<le> n \<and> n \<le> 90) \<or> (97 \<le> n \<and> n \<le> 122))"

definition handshake_key :: "string \<Rightarrow> bool" where
  "handshake_key k \<longleftrightarrow> length k = 24 \<and> list_all base64_char (take 22 k) \<and> drop 22 k = ''==''"

datatype handshake_problem = NotGet | BadVersion | BadKey

definition handshakeProblem :: "string \<Rightarrow> headers \<Rightarrow> handshake_problem option" where
  "handshakeProblem method hs =
     (if method \<noteq> ''GET'' then Some NotGet
      else if header_string hs ''sec-websocket-version'' \<noteq> Some ''13'' then Some BadVersion
      else case header_string hs ''sec-websocket-key'' of
        Some key \<Rightarrow> if handshake_key key then None else Some BadKey
      | None \<Rightarrow> Some BadKey)"

text \<open>
  The socket: taken over by the WebSocket proxy, or, when a plain response has been written
  (\<open>finish\<close>), ended.
\<close>

record pending_upgrade =
  taken :: bool
  ended :: bool

definition upgrade_arrives :: pending_upgrade where
  "upgrade_arrives = \<lparr>taken = False, ended = False\<rparr>"

definition response_finish :: "pending_upgrade \<Rightarrow> pending_upgrade" where
  "response_finish st = (if taken st then st else st\<lparr>ended := True\<rparr>)"

text \<open>
  A handshake passes the check exactly when it is a GET of version 13 with a key of 16 encoded bytes.
\<close>

lemma handshakeProblem_None:
  "handshakeProblem method hs = None \<longleftrightarrow> method = ''GET'' \<and> header_string hs ''sec-websocket-version'' = Some ''13''
     \<and> (\<exists>k. header_string hs ''sec-websocket-key'' = Some k \<and> handshake_key k)"
  by (auto simp: handshakeProblem_def split: option.splits)

end
