(* ===== verification/WsProxy.thy ===== *)
theory WsProxy
  imports WsTunnel Registry Metrics Retry Upgrade CachePolicy
begin

text \<open>
  \<open>gateway/src/websocket/proxy.ts\<close> up to the point where both sides are open: the handshake with the
  upstream (\<open>connectUpstream\<close>, a promise settled by the first of several events) and \<open>proxyWebSocket\<close>,
  which picks the target, reports to its breaker and answers the client.
\<close>

section \<open>connectUpstream\<close>

definition REJECTION_BODY_LIMIT :: nat where
  "REJECTION_BODY_LIMIT = 64 * 1024"

datatype connect_error = ClientAbortedError | WsTimeout | NotOffered string | WsFailure string

datatype connect_result = Opened "string option" | Rejected nat headers string | Failed connect_error

text \<open>
  What the client's socket, the \<open>ws\<close> client and its response emit. \<open>WsOpen\<close> carries the sub-protocol
  the upstream selected.
\<close>

datatype connect_event = ClientGone | WsOpen "string option" | UnexpectedResponse | ResponseData string
  | ResponseEnd "nat option" headers | ResponseError string | WsError string

record connecting =
  listening :: bool
  chunks :: "string list"
  received :: nat
  settled_as :: "connect_result option"

definition connect_start :: connecting where
  "connect_start = \<lparr>listening = True, chunks = [], received = 0, settled_as = None\<rparr>"

text \<open>A promise keeps its first settlement.\<close>

definition settle :: "connect_result \<Rightarrow> connecting \<Rightarrow> connecting" where
  "settle r st = (if settled_as st = None then st\<lparr>settled_as := Some r\<rparr> else st)"

definition timed_out :: "string \<Rightarrow> bool" where
  "timed_out msg \<longleftrightarrow> list_ex (\<lambda>k. js_starts_with (drop k (js_lower msg)) ''timed out'') [0..<length msg]"

definition connect_step :: "string list \<Rightarrow> connecting \<Rightarrow> connect_event \<Rightarrow> connecting" where
  "connect_step protocols st e =
     (case e of
        ClientGone \<Rightarrow> if listening st then settle (Failed ClientAbortedError) st else st
      | WsOpen selected \<Rightarrow>
          (let st = st\<lparr>listening := False\<rparr> in
           case selected of
             Some p \<Rightarrow> if p \<notin> set protocols then settle (Failed (NotOffered p)) st else settle (Opened selected) st
           | None \<Rightarrow> settle (Opened selected) st)
      | UnexpectedResponse \<Rightarrow> st\<lparr>listening := False\<rparr>
      | ResponseData chunk \<Rightarrow>
          if REJECTION_BODY_LIMIT \<le> received st then st
          else st\<lparr>chunks := chunks st @ [chunk], received := received st + length chunk\<rparr>
      | ResponseEnd statusCode hs \<Rightarrow>
          settle (Rejected (case statusCode of Some c \<Rightarrow> c | None \<Rightarrow> 502) hs (concat (chunks st))) st
      | ResponseError msg \<Rightarrow> settle (Failed (WsFailure msg)) st
      | WsError msg \<Rightarrow>
          settle (Failed (if timed_out msg then WsTimeout else WsFailure msg)) (st\<lparr>listening := False\<rparr>))"

definition connectUpstream :: "string list \<Rightarrow> connect_event list \<Rightarrow> connect_result option" where
  "connectUpstream protocols es = settled_as (foldl (connect_step protocols) connect_start es)"

section \<open>What is sent to the upstream\<close>

definition parseProtocols :: "header_value option \<Rightarrow> string list" where
  "parseProtocols header =
     (let raw = header_text '','' header in
      if raw = [] then [] else filter (\<lambda>p. p \<noteq> []) (map js_trim (js_split (CHR '','') raw)))"

text \<open>\<open>url.protocol = url.protocol === 'https:' ? 'wss:' : 'ws:'\<close>.\<close>

definition websocket_url :: "string \<Rightarrow> string" where
  "websocket_url url =
     (case js_index_of (CHR '':'') url of
        Some i \<Rightarrow> (if take i url = ''https'' then ''wss'' else ''ws'') @ drop i url
      | None \<Rightarrow> url)"

definition handshake_own :: "string \<Rightarrow> bool" where
  "handshake_own name \<longleftrightarrow> js_starts_with name ''sec-websocket-'' \<or> name = ''upgrade'' \<or> name = ''connection'' \<or> name = ''origin''"

definition handshake_headers :: "headers \<Rightarrow> string \<Rightarrow> string \<Rightarrow> headers" where
  "handshake_headers hs ip rid =
     map (\<lambda>(name, v). (name, HText (header_text '', '' (Some v))))
       (filter (\<lambda>(name, v). \<not> handshake_own name) (buildOutgoingHeaders hs ip rid))"

section \<open>proxyWebSocket\<close>

text \<open>
  The answers: a reply to the client (with the upstream's body when it rejected), an exception for
  \<open>sendProxyError\<close>, nobody left to answer, a tunnel with the selected sub-protocol, or none as long as the handshake has not settled.
\<close>

datatype ws_answer = WsReply reply "string option" | WsThrow forward_error | WsGone | WsAccepted "string option" | WsPending

definition at_capacity :: "route_config \<Rightarrow> websocket_config \<Rightarrow> registry \<Rightarrow> bool" where
  "at_capacity route cfg reg \<longleftrightarrow> ws_maxConnections cfg \<le> countFor (route_id route) reg"

definition connect_failure :: "connect_error \<Rightarrow> forward_failure" where
  "connect_failure e = (case e of
      WsTimeout \<Rightarrow> UpstreamTimeoutError
    | NotOffered p \<Rightarrow> ClientFailure ''sub-protocol not offered''
    | WsFailure msg \<Rightarrow> ClientFailure msg
    | ClientAbortedError \<Rightarrow> ClientFailure ''aborted'')"

definition copy_header :: "headers \<Rightarrow> string \<Rightarrow> reply \<Rightarrow> reply" where
  "copy_header hs name r = (case header_string hs name of Some v \<Rightarrow> set_header name (HText v) r | None \<Rightarrow> r)"

record ws_environment =
  ws_origin :: "string \<Rightarrow> string"
  ws_events :: "string \<Rightarrow> string list \<Rightarrow> headers \<Rightarrow> connect_event list"
  ws_pick_time :: number
  ws_report_time :: number
  ws_meanwhile :: "balancer \<Rightarrow> balancer"

text \<open>
  \<open>hs\<close> are the headers after the route's transform, \<open>path\<close> the rewritten path. \<open>ws_meanwhile\<close> is what
  other requests do to the balancer while this one connects.
\<close>

definition proxyWebSocket ::
  "ws_environment \<Rightarrow> route_config \<Rightarrow> websocket_config \<Rightarrow> registry \<Rightarrow> headers \<Rightarrow> string \<Rightarrow> string \<Rightarrow> string
    \<Rightarrow> reply \<Rightarrow> metrics \<Rightarrow> balancer \<Rightarrow> ws_answer \<times> metrics \<times> balancer" where
  "proxyWebSocket env route cfg reg hs path ip rid reply m b =
     (if at_capacity route cfg reg
      then (WsReply (send_error 503 ''websocket_capacity'' (set_header ''retry-after'' (HText ''1'') reply)) None, m, b)
      else case pickTarget (ws_pick_time env) b of
        (None, b) \<Rightarrow> (WsThrow NoHealthyTargetError, m, b)
      | (Some target, b) \<Rightarrow>
          (let url = websocket_url (joinUpstreamUrl (ws_origin env) target path);
               protocols = parseProtocols (map_of hs ''sec-websocket-protocol'');
               outcome = connectUpstream protocols (ws_events env url protocols (handshake_headers hs ip rid));
               b = ws_meanwhile env b
           in case outcome of
                None \<Rightarrow> (WsPending, m, b)
              | Some (Failed e) \<Rightarrow>
                  if e = ClientAbortedError then (WsGone, m, b)
                  else (WsThrow (Thrown (connect_failure e)), m, reportFailure (ws_report_time env) target b)
              | Some (Rejected st rhs body) \<Rightarrow>
                  (let (m, b) = (if 500 \<le> st
                         then (recordUpstreamError (route_id route) ''websocket_rejected'' m, reportFailure (ws_report_time env) target b)
                         else (m, reportSuccess target b));
                       reply = copy_header rhs ''retry-after'' (copy_header rhs ''www-authenticate''
                                 (copy_header rhs ''content-type'' reply))
                   in (WsReply (reply\<lparr>r_sent := Some \<lparr>status = st, error_code = [], retryAfter = None\<rparr>\<rparr>) (Some body), m, b))
              | Some (Opened protocol) \<Rightarrow> (WsAccepted protocol, m, reportSuccess target b)))"

section \<open>The handshake\<close>

definition answers :: "connect_event \<Rightarrow> bool" where
  "answers e \<longleftrightarrow> (case e of WsOpen _ \<Rightarrow> True | UnexpectedResponse \<Rightarrow> True | WsError _ \<Rightarrow> True | _ \<Rightarrow> False)"

definition connect_inv :: "string list \<Rightarrow> nat \<Rightarrow> connect_event list \<Rightarrow> connecting \<Rightarrow> bool" where
  "connect_inv ps k es st \<longleftrightarrow>
     received st = length (concat (chunks st)) \<and> received st < REJECTION_BODY_LIMIT + k
     \<and> (listening st \<longrightarrow> \<not> list_ex answers es)
     \<and> (\<forall>p. settled_as st = Some (Opened (Some p)) \<longrightarrow> p \<in> set ps)
     \<and> (\<forall>c hs body. settled_as st = Some (Rejected c hs body) \<longrightarrow> length body < REJECTION_BODY_LIMIT + k)
     \<and> (settled_as st = Some (Failed ClientAbortedError) \<longrightarrow>
          (\<exists>before after. es = before @ ClientGone # after \<and> \<not> list_ex answers before))"

lemma settle_simps [simp]:
  "listening (settle r st) = listening st" "chunks (settle r st) = chunks st" "received (settle r st) = received st"
  "settled_as (settle r st) = (if settled_as st = None then Some r else settled_as st)"
  by (simp_all add: settle_def)

lemma connect_inv_step:
  assumes "connect_inv ps k es st" "\<forall>c. e = ResponseData c \<longrightarrow> length c \<le> k"
  shows "connect_inv ps k (es @ [e]) (connect_step ps st e)"
proof -
  note inv = assms(1) [unfolded connect_inv_def]
  have gone: "\<exists>before after. es @ [e] = before @ ClientGone # after \<and> \<not> list_ex answers before"
    if "\<exists>before after. es = before @ ClientGone # after \<and> \<not> list_ex answers before"
    using that by (metis append.assoc append_Cons)
  show ?thesis
  proof (cases e)
    case ClientGone
    have "\<not> list_ex answers es \<Longrightarrow> \<exists>before after. es @ [ClientGone] = before @ ClientGone # after \<and> \<not> list_ex answers before"
      by blast
    with inv gone ClientGone show ?thesis by (auto simp: connect_inv_def connect_step_def answers_def)
  next
    case (WsOpen selected)
    with inv gone show ?thesis
      by (cases selected) (auto simp: connect_inv_def connect_step_def answers_def Let_def)
  next
    case (ResponseData c)
    with inv gone assms(2) show ?thesis by (auto simp: connect_inv_def connect_step_def answers_def)
  qed (use inv gone in \<open>auto simp: connect_inv_def connect_step_def answers_def\<close>)
qed

lemma connect_inv_run:
  "\<forall>c. ResponseData c \<in> set es \<longrightarrow> length c \<le> k \<Longrightarrow> connect_inv ps k es (foldl (connect_step ps) connect_start es)"
proof (induction es rule: rev_induct)
  case Nil
  then show ?case by (simp add: connect_inv_def connect_start_def REJECTION_BODY_LIMIT_def)
next
  case (snoc e es)
  then show ?case using connect_inv_step [of ps k es _ e] by simp
qed

text \<open>
  A tunnel is only opened without a sub-protocol or with one the client offered; the handshake is
  only given up for a client that left before the upstream answered; and a rejection hands on less
  than the 64 KiB limit plus one chunk of its body.
\<close>

theorem connectUpstream_sound:
  assumes "connectUpstream ps es = Some r" "\<forall>c. ResponseData c \<in> set es \<longrightarrow> length c \<le> k"
  shows "(\<forall>p. r = Opened (Some p) \<longrightarrow> p \<in> set ps)
    \<and> (r = Failed ClientAbortedError \<longrightarrow> (\<exists>before after. es = before @ ClientGone # after \<and> \<not> list_ex answers before))
    \<and> (\<forall>c hs body. r = Rejected c hs body \<longrightarrow> length body < REJECTION_BODY_LIMIT + k)"
  using connect_inv_run [OF assms(2), of ps] assms(1) by (auto simp: connectUpstream_def connect_inv_def)

text \<open>
  The limit itself is not kept: a chunk is taken whole as long as the bytes before it are below the
  limit.
\<close>

lemma rejection_body_exceeds:
  assumes "length c = 2 * REJECTION_BODY_LIMIT"
  shows "connectUpstream [] [UnexpectedResponse, ResponseData c, ResponseEnd (Some 403) []] = Some (Rejected 403 [] c)"
  by (simp add: connectUpstream_def connect_step_def connect_start_def settle_def REJECTION_BODY_LIMIT_def)

lemma map_of_renamed:
  "map_of (map (\<lambda>(name, v). (name, f v)) (filter (\<lambda>(name, v). \<not> P name) xs)) k =
    (if P k then None else map_option f (map_of xs k))"
  by (induction xs) auto

text \<open>
  The upstream's handshake never carries the client's own handshake headers, the hop-by-hop ones
  or its \<open>Host\<close>; every header has a single text value, and the request id is the gateway's.
\<close>

theorem handshake_headers_correct:
  "(\<forall>k \<in> HOP_BY_HOP_HEADERS. map_of (handshake_headers hs ip rid) k = None)
   \<and> (\<forall>k. handshake_own k \<or> k = ''host'' \<longrightarrow> map_of (handshake_headers hs ip rid) k = None)
   \<and> map_of (handshake_headers hs ip rid) ''x-request-id'' = Some (HText rid)
   \<and> (\<forall>k. \<not> handshake_own k \<longrightarrow>
        map_of (handshake_headers hs ip rid) k = map_option (\<lambda>v. HText (header_text '', '' (Some v))) (map_of (buildOutgoingHeaders hs ip rid) k))"
proof -
  have m: "map_of (handshake_headers hs ip rid) k =
      (if handshake_own k then None else map_option (\<lambda>v. HText (header_text '', '' (Some v))) (map_of (buildOutgoingHeaders hs ip rid) k))" for k
    unfolding handshake_headers_def by (rule map_of_renamed)
  have own: "\<not> handshake_own ''x-request-id''" by (simp add: handshake_own_def js_starts_with_def)
  have rid: "map_of (buildOutgoingHeaders hs ip rid) ''x-request-id'' = Some (HText rid)"
    and host: "map_of (buildOutgoingHeaders hs ip rid) ''host'' = None"
    and hop: "k \<in> HOP_BY_HOP_HEADERS \<Longrightarrow> map_of (buildOutgoingHeaders hs ip rid) k = None" for k
    using buildOutgoing_get [of hs ip rid] hop_names by simp_all
  from m own rid host hop show ?thesis by (simp add: header_text_def)
qed

section \<open>The trial of a client that leaves\<close>

definition ws_route :: route_config where
  "ws_route = fragile_route\<lparr>websocket := Some plain_ws\<rparr>"

definition leaving :: ws_environment where
  "leaving = \<lparr>ws_origin = id, ws_events = \<lambda>_ _ _. [ClientGone], ws_pick_time = 20, ws_report_time = 20, ws_meanwhile = id\<rparr>"

text \<open>A request fails to connect; a handshake at 20 ms is the half-open trial, and its client leaves.\<close>

definition after_leaving :: balancer where
  "after_leaving =
     (let (r, b, es) = forwardWithRetry (quiet (Inl (ClientFailure ''refused'')) 5) ws_route ''GET'' None (createBalancer ws_route)
      in snd (snd (proxyWebSocket leaving ws_route plain_ws [] [] ''/'' ''1.1.1.1'' ''id'' \<lparr>r_headers = [], r_sent = None\<rparr>
           createMetrics b)))"

lemma after_leaving_eq: "after_leaving = \<lparr>b_targets = [\<lparr>t_url = ''http://u'', t_healthy = True,
    t_breaker = Some \<lparr>cb_state = HalfOpen, consecutiveFailures = 1, openedAt = 5, halfOpenTrialInFlight = True\<rparr>\<rparr>],
    b_cursor = 0, b_options = hasty\<rparr>"
  by code_simp

text \<open>
  A client can take a WebSocket target out of service for ever: when the half-open trial is a
  handshake whose client leaves before the upstream answers, \<open>proxyWebSocket\<close> returns without a report,
  the trial stays marked, and the target is refused from then on at every time.
\<close>

theorem client_abort_wedges_target:
  "fst (pickTarget now after_leaving) = None \<and> snd (pickTarget now after_leaving) = after_leaving"
  by (simp add: after_leaving_eq pickTarget_def canRequest_def Let_def)

section \<open>The connection limit\<close>

text \<open>
  Handshakes of one route, as the event loop interleaves them: the check of the limit, then, after
  the upstream has answered, the entry into the registry. Connections may end at any time.
\<close>

record handshakes =
  hs_registry :: registry
  hs_pending :: "nat list"

inductive handshake_step :: "route_config \<Rightarrow> websocket_config \<Rightarrow> handshakes \<Rightarrow> handshakes \<Rightarrow> bool"
  for route :: route_config and cfg :: websocket_config where
  check: "\<not> at_capacity route cfg (hs_registry s) \<Longrightarrow> handshake_step route cfg s (s\<lparr>hs_pending := i # hs_pending s\<rparr>)"
| opened: "i \<in> set (hs_pending s) \<Longrightarrow> \<lparr>conn_id = i, conn_route = route_id route\<rparr> \<notin> set (hs_registry s) \<Longrightarrow>
    handshake_step route cfg s (s\<lparr>hs_pending := remove1 i (hs_pending s),
      hs_registry := reg_add \<lparr>conn_id = i, conn_route = route_id route\<rparr> (hs_registry s)\<rparr>)"
| failed: "i \<in> set (hs_pending s) \<Longrightarrow> handshake_step route cfg s (s\<lparr>hs_pending := remove1 i (hs_pending s)\<rparr>)"
| closed: "c \<in> set (hs_registry s) \<Longrightarrow> handshake_step route cfg s (s\<lparr>hs_registry := reg_remove c (hs_registry s)\<rparr>)"

inductive handshake_run :: "route_config \<Rightarrow> websocket_config \<Rightarrow> handshakes \<Rightarrow> handshakes \<Rightarrow> bool"
  for route :: route_config and cfg :: websocket_config where
  stay: "handshake_run route cfg s s"
| more: "handshake_run route cfg s t \<Longrightarrow> handshake_step route cfg t u \<Longrightarrow> handshake_run route cfg s u"

definition no_handshakes :: handshakes where
  "no_handshakes = \<lparr>hs_registry = [], hs_pending = []\<rparr>"

definition conns :: "route_config \<Rightarrow> nat \<Rightarrow> registry" where
  "conns route n = map (\<lambda>i. \<lparr>conn_id = i, conn_route = route_id route\<rparr>) [0..<n]"

lemma countFor_conns: "countFor (route_id route) (conns route n) = n"
  by (simp add: countFor_def conns_def filter_map comp_def)

lemma all_checked:
  assumes "0 < ws_maxConnections cfg"
  shows "d \<le> n \<Longrightarrow> handshake_run route cfg no_handshakes \<lparr>hs_registry = [], hs_pending = [n - d..<n]\<rparr>"
proof (induction d)
  case 0
  then show ?case by (simp add: no_handshakes_def handshake_run.stay)
next
  case (Suc d)
  let ?s = "\<lparr>hs_registry = [], hs_pending = [n - d..<n]\<rparr>"
  have "handshake_step route cfg ?s (?s\<lparr>hs_pending := (n - Suc d) # [n - d..<n]\<rparr>)"
    using assms handshake_step.check [of route cfg ?s "n - Suc d"] by (simp add: at_capacity_def countFor_def)
  moreover have "[n - Suc d..<n] = (n - Suc d) # [n - d..<n]"
    using Suc.prems by (simp add: upt_conv_Cons Suc_diff_Suc)
  ultimately show ?case using Suc by (auto intro: handshake_run.more)
qed

lemma handshake_run_trans: "handshake_run route cfg t u \<Longrightarrow> handshake_run route cfg s t \<Longrightarrow> handshake_run route cfg s u"
  by (induction rule: handshake_run.induct) (auto intro: handshake_run.more)

lemma all_opened:
  "k \<le> n \<Longrightarrow> handshake_run route cfg \<lparr>hs_registry = [], hs_pending = [0..<n]\<rparr>
     \<lparr>hs_registry = conns route k, hs_pending = [k..<n]\<rparr>"
proof (induction k)
  case 0
  then show ?case by (simp add: conns_def handshake_run.stay)
next
  case (Suc k)
  let ?c = "\<lparr>conn_id = k, conn_route = route_id route\<rparr>"
  let ?s = "\<lparr>hs_registry = conns route k, hs_pending = [k..<n]\<rparr>"
  have new: "?c \<notin> set (conns route k)" by (auto simp: conns_def)
  have "handshake_step route cfg ?s (?s\<lparr>hs_pending := remove1 k [k..<n], hs_registry := reg_add ?c (conns route k)\<rparr>)"
    using handshake_step.opened [of k ?s route cfg] Suc.prems new by simp
  moreover have "remove1 k [k..<n] = [Suc k..<n]" using Suc.prems by (simp add: upt_conv_Cons)
  moreover have "reg_add ?c (conns route k) = conns route (Suc k)" using new by (simp add: reg_add_def conns_def)
  ultimately show ?case using Suc by (auto intro: handshake_run.more)
qed

text \<open>
  \<open>maxConnections\<close> is not a limit. It is checked before the upstream is contacted and the connection
  is registered after it has answered, so for any \<open>n\<close>, \<open>n\<close> handshakes that overlap all pass the check
  and the route ends up with \<open>n\<close> open connections, whatever limit it is configured with.
\<close>

theorem websocket_limit_race:
  assumes "0 < ws_maxConnections cfg"
  shows "\<exists>s. handshake_run route cfg no_handshakes s \<and> countFor (route_id route) (hs_registry s) = n"
proof -
  have "handshake_run route cfg no_handshakes \<lparr>hs_registry = conns route n, hs_pending = [n..<n]\<rparr>"
    using all_checked [OF assms, of n n route] handshake_run_trans [OF all_opened [of n n route cfg]] by simp
  then show ?thesis using countFor_conns [of route n]
    by (intro exI [of _ "\<lparr>hs_registry = conns route n, hs_pending = [n..<n]\<rparr>"]) simp
qed

section \<open>Witnesses\<close>

lemma connectUpstream_sound_witness:
  "connectUpstream [''chat''] [WsOpen (Some ''chat'')] = Some (Opened (Some ''chat'')) \<and> ''chat'' \<in> set [''chat'']"
proof -
  have c: "connectUpstream [''chat''] [WsOpen (Some ''chat'')] = Some (Opened (Some ''chat''))"
    by (simp add: connectUpstream_def connect_step_def connect_start_def settle_def)
  from connectUpstream_sound [OF c, of 0] c show ?thesis by simp
qed

lemma websocket_limit_race_witness:
  "\<exists>s. handshake_run ws_route plain_ws no_handshakes s \<and> countFor ''r'' (hs_registry s) = 2"
proof -
  have "0 < ws_maxConnections plain_ws" by (simp add: plain_ws_def)
  from websocket_limit_race [OF this, of ws_route 2] show ?thesis by (simp add: ws_route_def fragile_route_def)
qed

end
