(* ===== verification/Server.thy ===== *)
theory Server
  imports RateLimitHook Routing CacheKey Forward Retry AuthHook Cors BodyLimits UrlToken Usage WsProxy
begin

text \<open>
  The request pipeline of \<open>gateway/src/server.ts\<close>: the hooks and the catch-all handler, composed from the
  models of the parts, in the order of the code. One request is handled at a time; what others do while
  it waits for the upstream is in the environment. The reply starts empty; \<open>r_sent\<close> is the status sent.
\<close>

section \<open>State\<close>

text \<open>A rate-limit store is a memory store of the route, or the Redis client all routes share.\<close>

datatype rate_backend = LocalStore memory_store | SharedStore algorithm_name

definition createRateLimitStores :: "gateway_config \<Rightarrow> bool \<Rightarrow> (string \<times> rate_backend) list" where
  "createRateLimitStores config shared =
     foldl (\<lambda>stores route. case rateLimit route of
         None \<Rightarrow> stores
       | Some c \<Rightarrow> AList.update (route_id route)
           (if shared then SharedStore (rl_algorithm c) else LocalStore (createMemoryStore (rl_algorithm c))) stores)
       [] (routes config)"

record runtime =
  rt_config :: gateway_config
  rt_rateLimitStores :: "(string \<times> rate_backend) list"
  rt_cacheStores :: "(string \<times> cache_backend) list"
  rt_balancers :: "(string \<times> balancer) list"

definition buildRuntimeState :: "gateway_config \<Rightarrow> bool \<Rightarrow> runtime" where
  "buildRuntimeState config shared =
     \<lparr>rt_config = config, rt_rateLimitStores = createRateLimitStores config shared,
      rt_cacheStores = createCacheStores config shared,
      rt_balancers = foldl (\<lambda>bs route. AList.update (route_id route) (createBalancer route) bs) [] (routes config)\<rparr>"

text \<open>The Redis commands of the shared stores, on a Redis state of any type.\<close>

record 'r redis_ops =
  rd_consume :: "algorithm_name \<Rightarrow> 'r \<Rightarrow> string \<Rightarrow> policy \<Rightarrow> number \<Rightarrow> number \<Rightarrow> 'r \<times> (unit + rate_result)"
  rd_get :: "'r \<Rightarrow> number \<Rightarrow> string \<Rightarrow> unit + cached_response option"
  rd_set :: "'r \<Rightarrow> number \<Rightarrow> string \<Rightarrow> cached_response \<Rightarrow> number \<Rightarrow> unit + 'r"
  rd_deleteByPrefix :: "'r \<Rightarrow> string \<Rightarrow> unit + 'r \<times> nat"

text \<open>
  \<open>sv_boot\<close> is \<open>initialConfig\<close>. \<open>sv_generation\<close> counts the reloads: it tells the stores and balancers of
  the current state from those a request still holds after a reload.
\<close>

record 'r server =
  sv_boot :: gateway_config
  sv_generation :: nat
  sv_runtime :: runtime
  sv_db :: "database option"
  sv_keys :: "key_cache option"
  sv_redis :: 'r
  sv_metrics :: metrics
  sv_registry :: registry
  sv_usage :: "usage_buffer option"

text \<open>A request with its id, its body as it streams in, and whether it came as an \<open>upgrade\<close> event.\<close>

record http_request = request +
  hq_id :: string
  hq_body :: "string list \<times> stream_end"
  hq_upgrade :: bool

text \<open>
  What the server waits for: the clock, the outcome of the Redis commands of the key cache, the JWT
  library, the upstream (per attempt), and what everything else does to the server during each wait:
  of the authentication (0), the rate limit (1), the cache lookup (2) and the upstream (3).
\<close>

record 'r server_env =
  se_sha256 :: "string \<Rightarrow> string"
  se_jwtVerify :: jwt_verify
  se_get_ok :: bool
  se_set_ok :: bool
  se_now :: number
  se_elapsed :: number
  se_redis :: "'r redis_ops"
  se_origin :: "string \<Rightarrow> string"
  se_client :: "nat \<Rightarrow> string \<Rightarrow> string \<Rightarrow> headers \<Rightarrow> number \<Rightarrow> number \<Rightarrow> client_outcome"
  se_retry :: environment
  se_ws :: ws_environment
  se_meanwhile :: "nat \<Rightarrow> 'r server \<Rightarrow> 'r server"

text \<open>The body of a reply: an error object, the bytes or stream sent on, or none.\<close>

datatype body = ErrorBody | Bytes string | Stream "string option" | NoBody

datatype handled = Replied reply body | Hijacked "string option option" | Hanging

text \<open>The two fields the handler leaves on the request, for the hooks.\<close>

record labels =
  lb_routeId :: "string option"
  lb_tenantId :: "string option"

definition fail_with :: "nat \<Rightarrow> string \<Rightarrow> reply \<Rightarrow> handled" where
  "fail_with st e r = Replied (send_error st e r) ErrorBody"

text \<open>An exception that reaches the framework.\<close>

definition unhandled :: "reply \<Rightarrow> handled" where
  "unhandled r = fail_with 500 ''Internal Server Error'' r"

definition status_sent :: "nat \<Rightarrow> reply \<Rightarrow> reply" where
  "status_sent st r = r\<lparr>r_sent := Some \<lparr>status = st, error_code = [], retryAfter = None\<rparr>\<rparr>"

definition with_headers :: "headers \<Rightarrow> reply \<Rightarrow> reply" where
  "with_headers hs r = foldl (\<lambda>r (k, v). set_header k v r) r hs"

section \<open>Errors of the upstream\<close>

definition sendProxyError :: "forward_error \<Rightarrow> string \<Rightarrow> reply \<Rightarrow> metrics \<Rightarrow> handled \<times> metrics" where
  "sendProxyError err routeId r m =
     (case err of
        Thrown BodyTooLargeError \<Rightarrow> (fail_with 413 ''payload_too_large'' r, m)
      | Thrown UpstreamTimeoutError \<Rightarrow> (fail_with 504 ''upstream_timeout'' r, recordUpstreamError routeId ''timeout'' m)
      | NoHealthyTargetError \<Rightarrow> (fail_with 503 ''service_unavailable'' r, recordUpstreamError routeId ''no_healthy_target'' m)
      | _ \<Rightarrow> (fail_with 502 ''bad_gateway'' r, recordUpstreamError routeId ''connection'' m))"

section \<open>Upgrades\<close>

text \<open>
  The checks of an upgrade on a matched route: \<open>Inl\<close> is the refusal, \<open>Inr\<close> the request headers and the
  URL for the upstream. Token code units are below 256 here.
\<close>

definition token_text :: "units \<Rightarrow> string" where
  "token_text u = map char_of u"

definition upgrade_checks :: "route_config \<Rightarrow> http_request \<Rightarrow> (nat \<times> string) + websocket_config \<times> headers \<times> string" where
  "upgrade_checks route req =
     (case websocket route of
        None \<Rightarrow> Inl (400, ''websocket_not_enabled'')
      | Some cfg \<Rightarrow>
          if \<not> ws_enabled cfg then Inl (400, ''websocket_not_enabled'')
          else if handshakeProblem (req_method req) (req_headers req) \<noteq> None then Inl (400, ''bad_handshake'')
          else if (case (ws_origins cfg, header_string (req_headers req) ''origin'') of
                     (Some os, Some origin) \<Rightarrow> ''*'' \<notin> set os \<and> origin \<notin> set os
                   | _ \<Rightarrow> False)
          then Inl (403, ''origin_not_allowed'')
          else if ws_queryToken cfg
          then (let hs = (case header_string (req_headers req) ''authorization'' of
                     Some (c # cs) \<Rightarrow> req_headers req
                   | _ \<Rightarrow> (case extractQueryToken (req_url req) ACCESS_TOKEN_PARAM of
                        Some token \<Rightarrow> AList.update ''authorization'' (HText (''Bearer '' @ token_text token)) (req_headers req)
                      | None \<Rightarrow> req_headers req))
                in Inr (cfg, hs, stripQueryParam (req_url req) ACCESS_TOKEN_PARAM))
          else Inr (cfg, req_headers req, req_url req))"

section \<open>The stores\<close>

definition backend_consume :: "'r redis_ops \<Rightarrow> (rate_backend \<times> 'r) consume" where
  "backend_consume ops st key p now cost =
     (case st of
        (LocalStore ms, r) \<Rightarrow> (let (ms', res) = ms_consume ms key p now cost in ((LocalStore ms', r), Inr res))
      | (SharedStore a, r) \<Rightarrow> (let (r', res) = rd_consume ops a r key p now cost in ((SharedStore a, r'), res)))"

definition backend_get :: "'r redis_ops \<Rightarrow> cache_backend \<Rightarrow> 'r \<Rightarrow> number \<Rightarrow> string
    \<Rightarrow> cache_backend \<times> (unit + cached_response option)" where
  "backend_get ops backend r now key =
     (case backend of
        LocalCache es \<Rightarrow> (let (es', c) = mc_get es now key in (LocalCache es', Inr c))
      | SharedCache \<Rightarrow> (SharedCache, rd_get ops r now key))"

definition backend_set :: "'r redis_ops \<Rightarrow> cache_backend \<Rightarrow> 'r \<Rightarrow> number \<Rightarrow> string \<Rightarrow> cached_response \<Rightarrow> number
    \<Rightarrow> unit + (cache_backend \<times> 'r)" where
  "backend_set ops backend r now key c ttl =
     (case backend of
        LocalCache es \<Rightarrow> Inr (LocalCache (mc_set es now key c ttl), r)
      | SharedCache \<Rightarrow> (case rd_set ops r now key c ttl of Inl e \<Rightarrow> Inl e | Inr r' \<Rightarrow> Inr (SharedCache, r')))"

text \<open>Changing the state of a store or balancer that a request got in generation \<open>g\<close>.\<close>

definition on_runtime :: "nat \<Rightarrow> (runtime \<Rightarrow> runtime) \<Rightarrow> 'r server \<Rightarrow> 'r server" where
  "on_runtime g f s = (if sv_generation s = g then s\<lparr>sv_runtime := f (sv_runtime s)\<rparr> else s)"

definition put_rate :: "string \<Rightarrow> rate_backend \<Rightarrow> runtime \<Rightarrow> runtime" where
  "put_rate rid b rt = rt\<lparr>rt_rateLimitStores := AList.update rid b (rt_rateLimitStores rt)\<rparr>"

definition put_cache :: "string \<Rightarrow> cache_backend \<Rightarrow> runtime \<Rightarrow> runtime" where
  "put_cache rid b rt = rt\<lparr>rt_cacheStores := AList.update rid b (rt_cacheStores rt)\<rparr>"

definition put_balancer :: "string \<Rightarrow> balancer \<Rightarrow> runtime \<Rightarrow> runtime" where
  "put_balancer rid b rt = rt\<lparr>rt_balancers := AList.update rid b (rt_balancers rt)\<rparr>"

section \<open>The stages of a request\<close>

text \<open>What a request did beyond the reply: calls of the upstream, a tunnel attempt, a cache write.\<close>

datatype action = Forwarded "balancer_event list" | Tunnelled | Stored string cached_response number

definition rate_stage :: "'r server_env \<Rightarrow> route_config \<Rightarrow> string \<Rightarrow> rate_context \<Rightarrow> reply \<Rightarrow> 'r server
    \<Rightarrow> 'r server \<times> reply \<times> bool option" where
  "rate_stage env route ip ctx reply s =
     (if rateLimit route = None then (s, reply, Some True)
      else case map_of (rt_rateLimitStores (sv_runtime s)) (route_id route) of
        None \<Rightarrow> (s, reply, Some True)
      | Some store \<Rightarrow>
          (let ((store', r'), reply, verdict) =
                 enforceRateLimit (backend_consume (se_redis env)) (se_now env) (store, sv_redis s) route ip ctx
                   (case redis (rt_config (sv_runtime s)) of Some c \<Rightarrow> failOpen c | None \<Rightarrow> True) reply;
               s = on_runtime (sv_generation s) (put_rate (route_id route) store') (s\<lparr>sv_redis := r'\<rparr>);
               s = se_meanwhile env 1 s
           in case verdict of
                None \<Rightarrow> (s, reply, None)
              | Some proceed \<Rightarrow>
                  (s\<lparr>sv_metrics := recordRateLimitDecision (route_id route) proceed
                       (observeRedisLatency (se_elapsed env) (sv_metrics s))\<rparr>, reply, Some proceed)))"

text \<open>
  A route without balancer (a reload took it away during a wait) is a \<open>TypeError\<close>, which is answered
  like any other failure of the upstream.
\<close>

definition ws_stage :: "'r server_env \<Rightarrow> route_config \<Rightarrow> websocket_config \<Rightarrow> http_request \<Rightarrow> headers \<Rightarrow> string
    \<Rightarrow> reply \<Rightarrow> 'r server \<Rightarrow> handled \<times> action list \<times> 'r server" where
  "ws_stage env route cfg req hs url reply s =
     (let found = map_of (rt_balancers (sv_runtime s)) (route_id route);
          b = (case found of Some b \<Rightarrow> b | None \<Rightarrow> (createBalancer route)\<lparr>b_targets := []\<rparr>);
          g = sv_generation s;
          (answer, m, b') = proxyWebSocket (se_ws env) route cfg (sv_registry s) (applyRequestTransform route hs)
            (rewritePath url route) (req_ip req) (hq_id req) reply (sv_metrics s) b;
          s = s\<lparr>sv_metrics := m\<rparr>;
          s = (if found = None then s else on_runtime g (put_balancer (route_id route) b') s);
          s = se_meanwhile env 3 s
      in case answer of
           WsReply r body \<Rightarrow> (Replied r (case body of Some x \<Rightarrow> Bytes x | None \<Rightarrow> ErrorBody), [Tunnelled], s)
         | WsThrow e \<Rightarrow>
             (let (h, m) = sendProxyError (if found = None then Undefined else e) (route_id route) reply (sv_metrics s)
              in (h, [Tunnelled], s\<lparr>sv_metrics := m\<rparr>))
         | WsGone \<Rightarrow> (Hijacked None, [Tunnelled], s)
         | WsAccepted protocol \<Rightarrow> (Hijacked (Some protocol), [Tunnelled], s)
         | WsPending \<Rightarrow> (Hanging, [Tunnelled], s))"

definition stream_error :: "stream_end \<Rightarrow> forward_failure option" where
  "stream_error e = (case e of Ended \<Rightarrow> None | TooLarge \<Rightarrow> Some BodyTooLargeError | SourceError m \<Rightarrow> Some (ClientFailure m))"

definition body_error :: "'r server \<Rightarrow> http_request \<Rightarrow> forward_failure option" where
  "body_error s req =
     (if req_method req \<noteq> ''GET'' \<and> req_method req \<noteq> ''HEAD''
      then stream_error (snd (limitBodySize (nat \<lfloor>maxBodyBytes (server (sv_boot s))\<rfloor>) (hq_body req))) else None)"

definition forward_options_of :: "route_config \<Rightarrow> http_request \<Rightarrow> forward_options" where
  "forward_options_of route req =
     \<lparr>fo_method = req_method req, fo_headers = applyRequestTransform route (req_headers req),
      fo_timeoutMs = timeoutMs (upstream route), fo_bodyTimeoutMs = bodyTimeoutMs (upstream route),
      fo_clientIp = req_ip req, fo_requestId = hq_id req\<rparr>"

definition retry_env :: "'r server_env \<Rightarrow> route_config \<Rightarrow> http_request \<Rightarrow> environment" where
  "retry_env env route req = (se_retry env)\<lparr>send := \<lambda>n target.
     forwardRequest (se_client env n) (se_origin env) target (rewritePath (req_url req) route) (forward_options_of route req)\<rparr>"

text \<open>
  Lines 513-537: a response that the cache was asked for is read to the end and, if it may be, stored.
  \<open>slot\<close> is the generation and key of the lookup.
\<close>

definition store_response :: "'r server_env \<Rightarrow> route_config \<Rightarrow> nat \<times> string \<Rightarrow> cache_backend \<Rightarrow> forward_result \<Rightarrow> string
    \<Rightarrow> 'r server \<Rightarrow> action list \<times> 'r server" where
  "store_response env route slot backend up body s =
     (let (g, key) = slot;
          decision = decideCacheability (fr_status up) (fr_headers up)
            (case cache route of Some c \<Rightarrow> cache_ttlSec c | None \<Rightarrow> 0)
      in if cacheable decision \<and> of_nat (length body) \<le> maxBodyBytes (server (rt_config (sv_runtime s)))
         then (let cached = \<lparr>c_status = fr_status up, c_headers = stripUncacheableHeaders (fr_headers up), c_body = body\<rparr>
               in ([Stored key cached (ttlSec decision)],
                   (case backend_set (se_redis env)
                          (case map_of (rt_cacheStores (sv_runtime s)) (route_id route) of
                             Some current \<Rightarrow> if sv_generation s = g then current else backend | None \<Rightarrow> backend)
                          (sv_redis s) (se_now env) key cached (ttlSec decision) of
                      Inl e \<Rightarrow> s
                    | Inr (backend', r') \<Rightarrow>
                        on_runtime g (put_cache (route_id route) backend')
                          (s\<lparr>sv_redis := r', sv_metrics := observeRedisLatency (se_elapsed env) (sv_metrics s)\<rparr>))))
         else ([], s))"

definition fetch_stage :: "'r server_env \<Rightarrow> route_config \<Rightarrow> http_request \<Rightarrow> ((nat \<times> string) \<times> cache_backend) option
    \<Rightarrow> reply \<Rightarrow> 'r server \<Rightarrow> handled \<times> action list \<times> 'r server" where
  "fetch_stage env route req slot reply s =
     (let rid = route_id route;
          (result, s, events) = (case map_of (rt_balancers (sv_runtime s)) rid of
              None \<Rightarrow> (Inl (case (if eligible route (req_method req) then body_error s req else None) of
                              Some e \<Rightarrow> Thrown e | None \<Rightarrow> Undefined), s, [])
            | Some b \<Rightarrow>
                (let (result, b', events) = forwardWithRetry (retry_env env route req) route (req_method req) (body_error s req) b
                 in (result, on_runtime (sv_generation s) (put_balancer rid b') s, events)));
          s = se_meanwhile env 3 s
      in case result of
           Inl e \<Rightarrow> (let (h, m) = sendProxyError e rid reply (sv_metrics s) in (h, [Forwarded events], s\<lparr>sv_metrics := m\<rparr>))
         | Inr up \<Rightarrow>
             (let reply = with_headers (fr_headers up) reply in
              case slot of
                None \<Rightarrow> (Replied (status_sent (fr_status up) reply) (Stream (fr_body up)), [Forwarded events], s)
              | Some (gk, backend) \<Rightarrow>
                  (let s = s\<lparr>sv_metrics := recordCacheResult rid False (sv_metrics s)\<rparr>;
                       reply = set_header ''X-Cache'' (HText ''MISS'') reply in
                   case fr_body up of
                     None \<Rightarrow> (let (h, m) = sendProxyError (Thrown (ClientFailure ''body'')) rid reply (sv_metrics s)
                              in (h, [Forwarded events], s\<lparr>sv_metrics := m\<rparr>))
                   | Some body \<Rightarrow>
                       (let (stored, s) = store_response env route gk backend up body s
                        in (Replied (status_sent (fr_status up) reply) (Bytes body), Forwarded events # stored, s)))))"

definition cached_reply :: "cached_response \<Rightarrow> reply \<Rightarrow> handled" where
  "cached_reply c r = Replied (status_sent (c_status c) (with_headers (c_headers c) (set_header ''X-Cache'' (HText ''HIT'') r)))
     (Bytes (c_body c))"

text \<open>A failing cache read is not caught.\<close>

definition cache_stage :: "'r server_env \<Rightarrow> route_config \<Rightarrow> http_request \<Rightarrow> string option \<Rightarrow> string option \<Rightarrow> reply
    \<Rightarrow> 'r server \<Rightarrow> handled \<times> action list \<times> 'r server" where
  "cache_stage env route req tenant host reply s =
     (let rid = route_id route;
          store = (case cache route of
              Some c \<Rightarrow> if cache_enabled c then map_of (rt_cacheStores (sv_runtime s)) rid else None
            | None \<Rightarrow> None)
      in case (if req_method req = ''GET'' then store else None) of
           None \<Rightarrow> fetch_stage env route req None reply s
         | Some backend \<Rightarrow>
             (let key = buildCacheKey (se_sha256 env) route (req_method req) (req_url req) (req_headers req) tenant host;
                  g = sv_generation s;
                  (backend', answer) = backend_get (se_redis env) backend (sv_redis s) (se_now env) key;
                  s = se_meanwhile env 2 (on_runtime g (put_cache rid backend') s)
              in case answer of
                   Inl e \<Rightarrow> (unhandled reply, [], s)
                 | Inr found \<Rightarrow>
                     (let s = s\<lparr>sv_metrics := observeRedisLatency (se_elapsed env) (sv_metrics s)\<rparr>
                      in case found of
                           Some cached \<Rightarrow> (cached_reply cached reply, [], s\<lparr>sv_metrics := recordCacheResult rid True (sv_metrics s)\<rparr>)
                         | None \<Rightarrow> fetch_stage env route req (Some ((g, key), backend')) reply s)))"

text \<open>
  A Redis that does not answer lets a request past its rate limit and its key lookup, but not past the
  cache: the request is a 500, and the upstream is not asked.
\<close>

lemma cache_down_fails:
  assumes "cache route = Some c" "cache_enabled c" "req_method req = ''GET''"
    and "map_of (rt_cacheStores (sv_runtime s)) (route_id route) = Some SharedCache"
    and "\<And>key. rd_get (se_redis env) (sv_redis s) (se_now env) key = Inl ()"
  shows "\<exists>s'. cache_stage env route req tenant host reply s = (unhandled reply, [], s')"
  using assms by (simp add: cache_stage_def backend_get_def Let_def)

section \<open>The handler\<close>

record 'r outcome =
  oc_handled :: handled
  oc_labels :: labels
  oc_actions :: "action list"
  oc_server :: "'r server"

definition outcome_of :: "labels \<Rightarrow> handled \<times> action list \<times> 'r server \<Rightarrow> 'r outcome" where
  "outcome_of l res = (case res of (h, acts, s) \<Rightarrow> \<lparr>oc_handled = h, oc_labels = l, oc_actions = acts, oc_server = s\<rparr>)"

text \<open>Lines 423-544, on a matched route; \<open>ws\<close> is what the upgrade checks let through.\<close>

definition guarded :: "'r server_env \<Rightarrow> route_config \<Rightarrow> string option \<Rightarrow> http_request
    \<Rightarrow> (websocket_config \<times> headers \<times> string) option \<Rightarrow> reply \<Rightarrow> 'r server \<Rightarrow> 'r outcome" where
  "guarded env route host req ws reply s =
     (let hs = (case ws of Some (_, hs, _) \<Rightarrow> hs | None \<Rightarrow> req_headers req);
          (auth, reply, db', keys') = authenticateRequest (se_sha256 env) (se_jwtVerify env) (se_now env) (se_get_ok env)
            (se_set_ok env) route hs (sv_db s) (sv_keys s) reply;
          s = se_meanwhile env 0 (s\<lparr>sv_db := db', sv_keys := keys'\<rparr>)
      in if \<not> ok auth then outcome_of \<lparr>lb_routeId = Some (route_id route), lb_tenantId = None\<rparr> (Replied reply ErrorBody, [], s)
         else
           (let l = \<lparr>lb_routeId = Some (route_id route),
                     lb_tenantId = (case o_tenantId auth of Some t \<Rightarrow> if t = [] then None else Some t | None \<Rightarrow> None)\<rparr>;
                (s, reply, proceed) = rate_stage env route (req_ip req)
                  \<lparr>ctx_tenantId = o_tenantId auth, ctx_plan = o_plan auth\<rparr> reply s
            in outcome_of l
                 (case proceed of
                    None \<Rightarrow> (unhandled reply, [], s)
                  | Some False \<Rightarrow> (Replied reply ErrorBody, [], s)
                  | Some True \<Rightarrow>
                      (case ws of
                         Some (cfg, hs, url) \<Rightarrow> ws_stage env route cfg req hs url reply s
                       | None \<Rightarrow> cache_stage env route req (o_tenantId auth) host reply s))))"

text \<open>A preflight that a CORS route answers: the route, its settings and the origin.\<close>

definition preflight :: "route_config list \<Rightarrow> string \<Rightarrow> string option \<Rightarrow> http_request
    \<Rightarrow> (route_config \<times> cors_config \<times> string) option" where
  "preflight rs path host req =
     (case header_string (req_headers req) ''origin'' of
        None \<Rightarrow> None
      | Some origin \<Rightarrow>
          if req_method req = ''OPTIONS'' \<and> header_string (req_headers req) ''access-control-request-method'' \<noteq> None
          then (case matchRouteByPath rs path host of
                  None \<Rightarrow> None
                | Some route \<Rightarrow>
                    (case cors route of
                       Some c \<Rightarrow> if cors_enabled c \<and> isOriginAllowed c origin then Some (route, c, origin) else None
                     | None \<Rightarrow> None))
          else None)"

definition request_path :: "http_request \<Rightarrow> string" where
  "request_path req = hd (js_split (CHR ''?'') (req_url req))"

definition handler :: "'r server_env \<Rightarrow> http_request \<Rightarrow> reply \<Rightarrow> 'r server \<Rightarrow> 'r outcome" where
  "handler env req reply s =
     (let path = request_path req; host = normalizeHost (Some (req_hostname req)); rs = routes (rt_config (sv_runtime s));
          unmatched = \<lparr>lb_routeId = None, lb_tenantId = None\<rparr> in
      if hq_upgrade req \<and> \<not> isWebSocketHandshake (req_headers req)
      then outcome_of unmatched (fail_with 400 ''upgrade_not_supported'' reply, [], s)
      else case preflight rs path host req of
        Some (route, c, origin) \<Rightarrow>
          outcome_of \<lparr>lb_routeId = Some (route_id route), lb_tenantId = None\<rparr>
            (Replied (status_sent 204 (applyPreflightHeaders c origin reply)) NoBody, [], s)
      | None \<Rightarrow>
          (case matchRoute rs \<lparr>in_method = req_method req, in_path = path, in_host = host\<rparr> of
             None \<Rightarrow> outcome_of unmatched (fail_with 404 ''not_found'' reply, [], s)
           | Some route \<Rightarrow>
               (case (if hq_upgrade req then map_sum id Some (upgrade_checks route req) else Inr None) of
                  Inl (st, e) \<Rightarrow> outcome_of \<lparr>lb_routeId = Some (route_id route), lb_tenantId = None\<rparr> (fail_with st e reply, [], s)
                | Inr ws \<Rightarrow> guarded env route host req ws reply s)))"

end
