(* ===== verification/Pipeline.thy ===== *)
theory Pipeline
  imports Server
begin

text \<open>
  The hooks around the handler of \<open>gateway/src/server.ts\<close> and the properties of the whole pipeline: what
  every reply carries, when the upstream is contacted, what the cache serves, and what reaches the
  metrics and the usage table.
\<close>

section \<open>The hooks\<close>

definition onSend :: "gateway_config \<Rightarrow> http_request \<Rightarrow> labels \<Rightarrow> reply \<Rightarrow> reply" where
  "onSend config req l reply =
     (let reply = set_header ''x-request-id'' (HText (hq_id req)) reply in
      case (header_string (req_headers req) ''origin'', lb_routeId l) of
        (Some origin, Some rid) \<Rightarrow>
          if rid = [] then reply
          else (case js_find (\<lambda>r. route_id r = rid) (routes config) of
                  Some route \<Rightarrow>
                    (case cors route of
                       Some c \<Rightarrow> if cors_enabled c \<and> isOriginAllowed c origin then applyCorsResponseHeaders c origin reply else reply
                     | None \<Rightarrow> reply)
                | None \<Rightarrow> reply)
      | _ \<Rightarrow> reply)"

text \<open>\<open>elapsedMs\<close> is \<open>reply.elapsedTime\<close>; the batch size is the default of the usage buffer.\<close>

definition js_round :: "number \<Rightarrow> number" where
  "js_round x = of_int \<lfloor>x + 1 / 2\<rfloor>"

definition onResponse :: "labels \<Rightarrow> nat \<Rightarrow> number \<Rightarrow> 'r server \<Rightarrow> 'r server" where
  "onResponse l st elapsedMs s =
     (let s = s\<lparr>sv_metrics := recordRequest (case lb_routeId l of Some r \<Rightarrow> r | None \<Rightarrow> ''unmatched'') st
                  (js_div elapsedMs 1000) (lb_tenantId l) (sv_metrics s)\<rparr>
      in case (sv_usage s, lb_tenantId l, lb_routeId l) of
           (Some u, Some t, Some r) \<Rightarrow>
             if t = [] \<or> r = [] then s
             else s\<lparr>sv_usage := Some (ub_push 500
                    \<lparr>u_tenantId = t, u_routeId = r, u_statusCode = st, u_latencyMs = js_round elapsedMs\<rparr> u)\<rparr>
         | _ \<Rightarrow> s)"

text \<open>
  One request, from the first hook to the last. A hook that replies ends the request. \<open>/health\<close> and
  \<open>/metrics\<close> have routes of their own for GET and HEAD; \<open>exposition\<close> is the
  content type and text of the metrics library.
  A hijacked socket has no reply, and the hooks do not run.
\<close>

definition health_body :: string where
  "health_body = ''{'' @ [CHR 0x22] @ ''status'' @ [CHR 0x22] @ '':'' @ [CHR 0x22] @ ''ok'' @ [CHR 0x22] @ ''}''"

definition no_labels :: labels where
  "no_labels = \<lparr>lb_routeId = None, lb_tenantId = None\<rparr>"

definition empty_answer :: reply where
  "empty_answer = \<lparr>r_headers = [], r_sent = None\<rparr>"

definition dispatch :: "'r server_env \<Rightarrow> (metrics \<Rightarrow> string \<times> string) \<Rightarrow> http_request \<Rightarrow> 'r server \<Rightarrow> 'r outcome" where
  "dispatch env exposition req s =
     (let first = enforceHeaderLimit (maxHeaderCount (server (sv_boot s))) (req_headers req) empty_answer;
          second = enforceBodyLimit (maxBodyBytes (server (sv_boot s))) (req_headers req) first;
          own = req_method req = ''GET'' \<or> req_method req = ''HEAD'' in
      if r_sent first \<noteq> None then outcome_of no_labels (Replied first ErrorBody, [], s)
      else if r_sent second \<noteq> None then outcome_of no_labels (Replied second ErrorBody, [], s)
      else if own \<and> request_path req = ''/health''
      then outcome_of (no_labels\<lparr>lb_routeId := Some ''__health__''\<rparr>) (Replied (status_sent 200 second) (Bytes health_body), [], s)
      else if own \<and> request_path req = ''/metrics''
      then (let m = scrape (rt_balancers (sv_runtime s)) (sv_metrics s)
            in outcome_of (no_labels\<lparr>lb_routeId := Some ''__metrics__''\<rparr>)
                 (Replied (status_sent 200 (set_header ''content-type'' (HText (fst (exposition m))) second)) (Bytes (snd (exposition m))),
                  [], s\<lparr>sv_metrics := m\<rparr>))
      else handler env req second s)"

definition respond :: "'r server_env \<Rightarrow> (metrics \<Rightarrow> string \<times> string) \<Rightarrow> number \<Rightarrow> http_request \<Rightarrow> 'r server
    \<Rightarrow> handled \<times> action list \<times> 'r server" where
  "respond env exposition elapsedMs req s =
     (let oc = dispatch env exposition req s; s = oc_server oc in
      case oc_handled oc of
        Replied reply body \<Rightarrow>
          (let reply = onSend (rt_config (sv_runtime s)) req (oc_labels oc) reply;
               st = (case r_sent reply of Some r \<Rightarrow> status r | None \<Rightarrow> 200)
           in (Replied reply body, oc_actions oc, onResponse (oc_labels oc) st elapsedMs s))
      | h \<Rightarrow> (h, oc_actions oc, s))"

section \<open>Every request is answered\<close>

definition answered :: "handled \<Rightarrow> bool" where
  "answered h \<longleftrightarrow> (\<forall>r b. h = Replied r b \<longrightarrow> r_sent r \<noteq> None)"

lemma answered_simps [simp]:
  "answered (fail_with st e r)" "answered (unhandled r)" "answered (cached_reply c r)" "answered Hanging" "answered (Hijacked p)"
  "answered (Replied r b) \<longleftrightarrow> r_sent r \<noteq> None"
  "r_sent (status_sent st r) = Some \<lparr>status = st, error_code = [], retryAfter = None\<rparr>"
  by (auto simp: answered_def fail_with_def unhandled_def cached_reply_def status_sent_def)

lemma answered_error [simp]: "answered (fst (sendProxyError e rid r m))"
  by (auto simp: sendProxyError_def split: forward_error.splits forward_failure.splits)

lemma answered_fetch [simp]: "answered (fst (fetch_stage env route req slot reply s))"
  by (auto simp: fetch_stage_def Let_def case_prod_beta split: sum.splits option.splits)

lemma answered_cache [simp]: "answered (fst (cache_stage env route req tenant host reply s))"
  by (auto simp: cache_stage_def Let_def case_prod_beta split: sum.splits option.splits)

lemma proxyWebSocket_sent:
  "fst (proxyWebSocket wenv route cfg reg hs path ip rid reply m b) = WsReply r body \<Longrightarrow> r_sent r \<noteq> None"
  by (auto simp: proxyWebSocket_def Let_def case_prod_beta split: if_splits option.splits connect_result.splits prod.splits)

lemma answered_ws [simp]: "answered (fst (ws_stage env route cfg req hs url reply s))"
  using proxyWebSocket_sent
  by (fastforce simp: ws_stage_def Let_def case_prod_beta split: ws_answer.splits option.splits)

lemma enforceRateLimit_sent:
  "enforceRateLimit con now m route ip ctx fo reply = (m', reply', Some False) \<Longrightarrow> r_sent reply' \<noteq> None"
  by (auto simp: enforceRateLimit_def Let_def case_prod_beta split: if_splits option.splits list.splits)

lemma rate_stage_sent:
  "rate_stage env route ip ctx reply s = (s', reply', Some False) \<Longrightarrow> r_sent reply' \<noteq> None"
  by (auto simp: rate_stage_def Let_def split: if_splits option.splits prod.splits dest: enforceRateLimit_sent)

lemma outcome_of_simps [simp]:
  "oc_handled (outcome_of l r) = fst r" "oc_actions (outcome_of l r) = fst (snd r)" "oc_labels (outcome_of l r) = l"
  "oc_server (outcome_of l r) = snd (snd r)"
  by (simp_all add: outcome_of_def case_prod_beta)

lemma answered_guarded:
  assumes "r_sent reply = None"
  shows "answered (oc_handled (guarded env route host req ws reply s))"
proof -
  obtain au r db ks where a: "authenticateRequest (se_sha256 env) (se_jwtVerify env) (se_now env) (se_get_ok env)
      (se_set_ok env) route (case ws of Some (_, hs, _) \<Rightarrow> hs | None \<Rightarrow> req_headers req) (sv_db s) (sv_keys s) reply
      = (au, r, db, ks)" by (metis prod.exhaust)
  then have sent: "ok au \<longleftrightarrow> r_sent r = None" using authenticateRequest_replies [OF assms a] by blast
  show ?thesis
    using a sent unfolding guarded_def Let_def
    by (auto split: option.splits bool.splits prod.splits dest: rate_stage_sent)
qed

lemma answered_handler: "r_sent reply = None \<Longrightarrow> answered (oc_handled (handler env req reply s))"
  by (auto simp: handler_def Let_def answered_guarded split: if_splits option.splits sum.splits)

lemma answered_dispatch: "answered (oc_handled (dispatch env ex req s))"
  by (auto simp: dispatch_def Let_def answered_handler empty_answer_def)

section \<open>What every reply carries\<close>

lemma respond_cases:
  assumes "respond env ex el req s = (Replied r b, acts, s')"
  obtains r0 where "oc_handled (dispatch env ex req s) = Replied r0 b" "r_sent r0 \<noteq> None"
    "r = onSend (rt_config (sv_runtime (oc_server (dispatch env ex req s)))) req (oc_labels (dispatch env ex req s)) r0"
    "acts = oc_actions (dispatch env ex req s)"
    "s' = onResponse (oc_labels (dispatch env ex req s)) (status (the (r_sent r))) el (oc_server (dispatch env ex req s))"
proof -
  obtain r0 where h: "oc_handled (dispatch env ex req s) = Replied r0 b"
    and r: "r = onSend (rt_config (sv_runtime (oc_server (dispatch env ex req s)))) req (oc_labels (dispatch env ex req s)) r0"
    using assms by (auto simp: respond_def Let_def split: handled.splits)
  have sent: "r_sent r0 \<noteq> None" using answered_dispatch [of env ex req s] h by simp
  have "r_sent r = r_sent r0"
    unfolding r onSend_def Let_def by (auto split: option.splits)
  with that h r sent assms show thesis by (auto simp: respond_def Let_def)
qed

lemma onSend_id [simp]: "reply_header ''x-request-id'' (onSend config req l r) = Some (HText (hq_id req))"
  by (auto simp: onSend_def Let_def applyCorsResponseHeaders_def split: option.splits)

lemma onSend_sent [simp]: "r_sent (onSend config req l r) = r_sent r"
  by (auto simp: onSend_def Let_def split: option.splits)

text \<open>
  Every request that gets a reply at all gets exactly one status and the request id in \<open>X-Request-Id\<close>,
  on every path: hooks, refusals, upstream errors and exceptions included.
\<close>

theorem respond_labelled:
  assumes "respond env ex el req s = (Replied r b, acts, s')"
  shows "r_sent r \<noteq> None \<and> reply_header ''x-request-id'' r = Some (HText (hq_id req))"
  using assms by (auto elim!: respond_cases)

lemma guarded_labels: "lb_routeId (oc_labels (guarded env route host req ws reply s)) = Some (route_id route)"
  by (auto simp: guarded_def Let_def split: prod.splits)

text \<open>The route a request goes to, once the hooks and the gateway's own two paths are past.\<close>

definition matched :: "http_request \<Rightarrow> 'r server \<Rightarrow> route_config option" where
  "matched req s = matchRoute (routes (rt_config (sv_runtime s)))
     \<lparr>in_method = req_method req, in_path = request_path req, in_host = normalizeHost (Some (req_hostname req))\<rparr>"

definition reaches_handler :: "http_request \<Rightarrow> 'r server \<Rightarrow> bool" where
  "reaches_handler req s \<longleftrightarrow> length (remdups (map fst (req_headers req))) \<le> maxHeaderCount (server (sv_boot s))
     \<and> (\<forall>d. declared_length (req_headers req) = Some d \<longrightarrow> d \<le> maxBodyBytes (server (sv_boot s)))
     \<and> request_path req \<notin> {''/health'', ''/metrics''}"

lemma dispatch_handler: "reaches_handler req s \<Longrightarrow> dispatch env ex req s = handler env req empty_answer s"
  by (auto simp: dispatch_def reaches_handler_def enforceHeaderLimit_def enforceBodyLimit_def empty_answer_def Let_def
      split: option.splits)

lemma handler_labels:
  assumes "matched req s = Some route" "preflight (routes (rt_config (sv_runtime s))) (request_path req)
      (normalizeHost (Some (req_hostname req))) req = None"
    and "hq_upgrade req \<longrightarrow> isWebSocketHandshake (req_headers req)"
  shows "lb_routeId (oc_labels (handler env req reply s)) = Some (route_id route)"
  using assms by (auto simp: handler_def matched_def Let_def guarded_labels split: sum.splits)

lemma find_route:
  "distinct (map route_id rs) \<Longrightarrow> route \<in> set rs \<Longrightarrow> js_find (\<lambda>r. route_id r = route_id route) rs = Some route"
  by (induction rs) auto

lemma matchRoute_member: "matchRoute rs input = Some route \<Longrightarrow> route \<in> set rs"
  unfolding matchRoute_def Let_def by (blast dest: js_find_SomeD)

lemma onSend_cors:
  assumes "js_find (\<lambda>r. route_id r = rid) (routes config) = Some route" "rid \<noteq> []" "lb_routeId l = Some rid"
    and "cors route = Some c" "cors_enabled c" "isOriginAllowed c origin"
    and "header_string (req_headers req) ''origin'' = Some origin"
  shows "reply_header ''access-control-allow-origin'' (onSend config req l r) = Some (HText (allowOriginValue c origin))"
  using assms by (simp add: onSend_def Let_def cors_header_values)


text \<open>
  Refusals of the first hooks are sent before a route is known, so they never carry CORS headers: a
  browser cannot read a 431 or 413.
\<close>

theorem early_refusals_lack_cors:
  assumes "respond env ex el req s = (Replied r b, acts, s')"
    and "maxHeaderCount (server (sv_boot s)) < length (remdups (map fst (req_headers req)))
      \<or> (\<exists>d. declared_length (req_headers req) = Some d \<and> maxBodyBytes (server (sv_boot s)) < d)"
  shows "reply_header ''access-control-allow-origin'' r = None \<and> status (the (r_sent r)) \<in> {413, 431} \<and> acts = []"
  using assms(1)
proof (rule respond_cases)
  fix r0
  assume r: "r = onSend (rt_config (sv_runtime (oc_server (dispatch env ex req s)))) req (oc_labels (dispatch env ex req s)) r0"
    and h: "oc_handled (dispatch env ex req s) = Replied r0 b" and a: "acts = oc_actions (dispatch env ex req s)"
  have d: "oc_labels (dispatch env ex req s) = no_labels \<and> oc_actions (dispatch env ex req s) = []
      \<and> r_sent r0 \<noteq> None \<and> status (the (r_sent r0)) \<in> {413, 431} \<and> r_headers r0 = []"
    using h assms(2) by (auto simp: dispatch_def enforceHeaderLimit_def enforceBodyLimit_def empty_answer_def Let_def
        send_error_def split: if_splits)
  then show ?thesis
    by (simp add: r a onSend_def no_labels_def reply_header_def set_header_def update_conv' Let_def split: option.splits)
qed

section \<open>When the upstream is contacted\<close>

lemma guarded_actions:
  assumes "oc_actions (guarded env route host req ws reply s) \<noteq> []"
  shows "\<exists>hs au r db ks s1 r1. (ws = None \<longrightarrow> hs = req_headers req)
    \<and> authenticateRequest (se_sha256 env) (se_jwtVerify env) (se_now env) (se_get_ok env) (se_set_ok env) route hs
        (sv_db s) (sv_keys s) reply = (au, r, db, ks) \<and> ok au
    \<and> rate_stage env route (req_ip req) \<lparr>ctx_tenantId = o_tenantId au, ctx_plan = o_plan au\<rparr> r
        (se_meanwhile env 0 (s\<lparr>sv_db := db, sv_keys := ks\<rparr>)) = (s1, r1, Some True)"
proof -
  define hs where "hs = (case ws of Some (_, hs, _) \<Rightarrow> hs | None \<Rightarrow> req_headers req)"
  obtain au r db ks where a: "authenticateRequest (se_sha256 env) (se_jwtVerify env) (se_now env) (se_get_ok env)
      (se_set_ok env) route hs (sv_db s) (sv_keys s) reply = (au, r, db, ks)" by (metis prod.exhaust)
  obtain s1 r1 v where q: "rate_stage env route (req_ip req) \<lparr>ctx_tenantId = o_tenantId au, ctx_plan = o_plan au\<rparr> r
      (se_meanwhile env 0 (s\<lparr>sv_db := db, sv_keys := ks\<rparr>)) = (s1, r1, v)" by (metis prod.exhaust)
  have "ok au \<and> v = Some True"
    using assms a q unfolding guarded_def Let_def hs_def by (auto split: if_splits option.splits bool.splits)
  moreover have "ws = None \<longrightarrow> hs = req_headers req" by (simp add: hs_def)
  ultimately show ?thesis using a q by blast
qed

text \<open>
  C1: the upstream is contacted (a forwarded request, a tunnel, and so also a cache write) only for a
  request that a route matches, that the route's authentication accepts and that its rate limit admits,
  in this order, whatever else happens to the server in between.
\<close>

theorem upstream_guarded:
  assumes "respond env ex el req s = (h, acts, s')" "acts \<noteq> []"
  shows "\<exists>route hs au r db ks s1 r1. matched req s = Some route \<and> (\<not> hq_upgrade req \<longrightarrow> hs = req_headers req)
    \<and> authenticateRequest (se_sha256 env) (se_jwtVerify env) (se_now env) (se_get_ok env) (se_set_ok env) route hs
        (sv_db s) (sv_keys s) empty_answer = (au, r, db, ks) \<and> ok au
    \<and> rate_stage env route (req_ip req) \<lparr>ctx_tenantId = o_tenantId au, ctx_plan = o_plan au\<rparr> r
        (se_meanwhile env 0 (s\<lparr>sv_db := db, sv_keys := ks\<rparr>)) = (s1, r1, Some True)"
proof -
  have "oc_actions (dispatch env ex req s) \<noteq> []"
    using assms by (auto simp: respond_def Let_def split: handled.splits)
  then have n: "oc_actions (handler env req empty_answer s) \<noteq> []"
    by (auto simp: dispatch_def Let_def enforceHeaderLimit_def enforceBodyLimit_def empty_answer_def
        split: if_splits option.splits)
  then obtain route host ws where m: "matched req s = Some route" and w: "\<not> hq_upgrade req \<longrightarrow> ws = None"
    and g: "oc_actions (guarded env route host req ws empty_answer s) \<noteq> []"
    by (auto simp: handler_def matched_def Let_def split: if_splits option.splits sum.splits)
  from guarded_actions [OF g] m w show ?thesis by blast
qed

section \<open>The response cache\<close>

definition cacheable_response :: "route_config \<Rightarrow> cached_response \<Rightarrow> number \<Rightarrow> bool" where
  "cacheable_response route c ttl \<longleftrightarrow> c_status c = 200 \<and> 0 < ttl
     \<and> (\<forall>cfg. cache route = Some cfg \<longrightarrow> ttl \<le> cache_ttlSec cfg)
     \<and> (\<forall>(k, v) \<in> set (c_headers c). js_lower k \<noteq> ''set-cookie'')"

lemma store_response_stored:
  assumes "Stored key c ttl \<in> set (fst (store_response env route slot backend up body s))"
  shows "cacheable_response route c ttl \<and> key = snd slot \<and> c_body c = body \<and> c_status c = fr_status up
    \<and> c_headers c = stripUncacheableHeaders (fr_headers up)"
proof -
  let ?d = "decideCacheability (fr_status up) (fr_headers up) (case cache route of Some c \<Rightarrow> cache_ttlSec c | None \<Rightarrow> 0)"
  have *: "cacheable ?d" "key = snd slot" "ttl = ttlSec ?d"
    "c = \<lparr>c_status = fr_status up, c_headers = stripUncacheableHeaders (fr_headers up), c_body = body\<rparr>"
    using assms by (auto simp: store_response_def Let_def case_prod_beta split: if_splits)
  from decideCacheability_sound [OF *(1)] * show ?thesis
    by (auto simp: cacheable_response_def stripUncacheableHeaders_cookie)
qed

lemma fetch_stored:
  assumes "Stored key c ttl \<in> set (fst (snd (fetch_stage env route req slot reply s)))"
  shows "cacheable_response route c ttl \<and> (\<exists>g backend. slot = Some ((g, key), backend))"
  using assms
  by (auto simp: fetch_stage_def Let_def case_prod_beta split: sum.splits option.splits dest!: store_response_stored)

lemma cache_stored:
  assumes "Stored key c ttl \<in> set (fst (snd (cache_stage env route req tenant host reply s)))"
  shows "cacheable_response route c ttl \<and> req_method req = ''GET''
    \<and> key = buildCacheKey (se_sha256 env) route ''GET'' (req_url req) (req_headers req) tenant host"
  using assms
  by (auto simp: cache_stage_def Let_def case_prod_beta split: sum.splits option.splits if_splits dest!: fetch_stored)

lemma ws_not_stored: "Stored key c ttl \<notin> set (fst (snd (ws_stage env route cfg req hs url reply s)))"
  by (auto simp: ws_stage_def Let_def case_prod_beta split: ws_answer.splits)

text \<open>
  C12: what is written to the cache is a 200 without \<open>Set-Cookie\<close>, for a positive time within the route's
  bound, under the key of the very request: its method GET, URL, host, \<open>varyBy\<close> headers, and the tenant
  that the authentication of this request established.
\<close>

theorem cache_writes_safe:
  assumes "respond env ex el req s = (h, acts, s')" "Stored key c ttl \<in> set acts"
  shows "\<exists>route au r db ks. matched req s = Some route \<and> cacheable_response route c ttl \<and> req_method req = ''GET''
    \<and> authenticateRequest (se_sha256 env) (se_jwtVerify env) (se_now env) (se_get_ok env) (se_set_ok env) route
        (req_headers req) (sv_db s) (sv_keys s) empty_answer = (au, r, db, ks)
    \<and> key = buildCacheKey (se_sha256 env) route ''GET'' (req_url req) (req_headers req) (o_tenantId au)
        (normalizeHost (Some (req_hostname req)))"
proof -
  have "Stored key c ttl \<in> set (oc_actions (dispatch env ex req s))"
    using assms by (auto simp: respond_def Let_def split: handled.splits)
  then have n: "Stored key c ttl \<in> set (oc_actions (handler env req empty_answer s))"
    by (auto simp: dispatch_def Let_def enforceHeaderLimit_def enforceBodyLimit_def empty_answer_def
        split: if_splits option.splits)
  then obtain route ws where m: "matched req s = Some route"
    and g: "Stored key c ttl \<in> set (oc_actions (guarded env route (normalizeHost (Some (req_hostname req))) req ws empty_answer s))"
    by (auto simp: handler_def matched_def Let_def split: if_splits option.splits sum.splits)
  obtain au r db ks where a: "authenticateRequest (se_sha256 env) (se_jwtVerify env) (se_now env) (se_get_ok env)
      (se_set_ok env) route (case ws of Some (_, hs, _) \<Rightarrow> hs | None \<Rightarrow> req_headers req) (sv_db s) (sv_keys s) empty_answer
      = (au, r, db, ks)" by (metis prod.exhaust)
  obtain r1 s1 where "ws = None \<and> Stored key c ttl \<in> set (fst (snd (cache_stage env route req (o_tenantId au)
      (normalizeHost (Some (req_hostname req))) r1 s1)))"
    using g a unfolding guarded_def Let_def
    by (auto simp: ws_not_stored split: if_splits option.splits bool.splits prod.splits)
  with cache_stored a m show ?thesis by fastforce
qed

lemma on_runtime_simps [simp]:
  "sv_generation (on_runtime g f s) = sv_generation s" "sv_redis (on_runtime g f s) = sv_redis s"
  "sv_runtime (on_runtime (sv_generation s) f s) = f (sv_runtime s)"
  by (simp_all add: on_runtime_def)

lemma store_response_kept:
  assumes "store_response env route (g, key) (LocalCache es0) up body s = (acts, s')" "Stored key c ttl \<in> set acts"
    and "sv_generation s = g" "map_of (rt_cacheStores (sv_runtime s')) (route_id route) = Some (LocalCache es)"
  shows "\<exists>before. es = mc_set before (se_now env) key c ttl"
proof -
  let ?d = "decideCacheability (fr_status up) (fr_headers up) (case cache route of Some c \<Rightarrow> cache_ttlSec c | None \<Rightarrow> 0)"
  have *: "cacheable ?d" "ttl = ttlSec ?d"
    "c = \<lparr>c_status = fr_status up, c_headers = stripUncacheableHeaders (fr_headers up), c_body = body\<rparr>"
    "acts = [Stored key c ttl]"
    using assms(1,2) by (auto simp: store_response_def Let_def split: if_splits)
  from assms(1,3,4) show ?thesis
    unfolding store_response_def Let_def * (4)
    by (auto simp: backend_set_def on_runtime_def put_cache_def update_conv' * split: if_splits option.splits cache_backend.splits sum.splits)
qed

text \<open>A fetch that stores does it in one call of \<open>store_response\<close>, in the generation it began in.\<close>

lemma fetch_stores:
  assumes "fetch_stage env route req (Some ((g, key'), backend)) reply s = (h, acts, s')" "Stored key c ttl \<in> set acts"
    and "\<forall>t. sv_generation (se_meanwhile env 3 t) = sv_generation t" "sv_generation s = g"
  obtains up body t stored where "store_response env route (g, key) backend up body t = (stored, s')"
    "sv_generation t = g" "Stored key c ttl \<in> set stored" "c_body c = body"
    "\<exists>r. h = Replied r (Bytes body) \<and> status (the (r_sent r)) = c_status c"
    "(\<forall>u. rt_cacheStores (sv_runtime (se_meanwhile env 3 u)) = rt_cacheStores (sv_runtime u))
      \<longrightarrow> rt_cacheStores (sv_runtime t) = rt_cacheStores (sv_runtime s)"
proof -
  have k: "key' = key"
    using fetch_stored [of key c ttl env route req "Some ((g, key'), backend)" reply s] assms(1,2) by simp
  define run where "run = (case map_of (rt_balancers (sv_runtime s)) (route_id route) of
      None \<Rightarrow> (Inl (case (if eligible route (req_method req) then body_error s req else None) of
                      Some e \<Rightarrow> Thrown e | None \<Rightarrow> Undefined), s, [])
    | Some b \<Rightarrow>
        (let (result, b', events) = forwardWithRetry (retry_env env route req) route (req_method req) (body_error s req) b
         in (result, on_runtime (sv_generation s) (put_balancer (route_id route) b') s, events)))"
  obtain result s0 events where run: "run = (result, s0, events)" by (metis prod.exhaust)
  have g0: "sv_generation s0 = g" "rt_cacheStores (sv_runtime s0) = rt_cacheStores (sv_runtime s)"
    using run assms(4) unfolding run_def by (auto simp: Let_def put_balancer_def split: option.splits prod.splits)
  note unfolded = assms(1) [unfolded fetch_stage_def Let_def run_def [unfolded Let_def, symmetric] run prod.case]
  obtain up where up: "result = Inr up"
    using unfolded assms(2) by (cases result) (auto split: prod.splits)
  obtain body where body: "fr_body up = Some body"
    using unfolded assms(2) unfolding up by (cases "fr_body up") (auto split: prod.splits)
  define t where "t = (se_meanwhile env 3 s0)\<lparr>sv_metrics := recordCacheResult (route_id route) False (sv_metrics (se_meanwhile env 3 s0))\<rparr>"
  obtain stored s2 where st: "store_response env route (g, key) backend up body t = (stored, s2)" by force
  have u: "h = Replied (status_sent (fr_status up) (set_header ''X-Cache'' (HText ''MISS'') (with_headers (fr_headers up) reply))) (Bytes body)"
    "acts = Forwarded events # stored" "s' = s2"
    using unfolded st by (simp_all add: up body t_def k)
  have gt: "sv_generation t = g" using assms(3) g0 by (simp add: t_def)
  have in_st: "Stored key c ttl \<in> set stored" using assms(2) u(2) by simp
  have "c_body c = body \<and> c_status c = fr_status up"
    using store_response_stored [of key c ttl env route "(g, key)" backend up body t] in_st st by simp
  with that [OF _ gt in_st] st u g0 show thesis by (simp add: t_def)
qed

lemma fetch_kept:
  assumes "fetch_stage env route req (Some ((g, key'), LocalCache es0)) reply s = (h, acts, s')" "Stored key c ttl \<in> set acts"
    and "\<forall>t. sv_generation (se_meanwhile env 3 t) = sv_generation t" "sv_generation s = g"
    and "map_of (rt_cacheStores (sv_runtime s')) (route_id route) = Some (LocalCache es)"
  shows "(\<exists>before. es = mc_set before (se_now env) key c ttl) \<and> (\<exists>r. h = Replied r (Bytes (c_body c)) \<and> status (the (r_sent r)) = c_status c)"
  by (rule fetch_stores [OF assms(1-4)]) (use store_response_kept assms(5) in blast)

text \<open>
  C13: what is stored is served: after a miss has stored a response, a GET with the same key on the route is
  answered from the cache, with the stored status, headers and body and without contacting the upstream,
  until the entry expires. The stores are in-process and no reload happens.
\<close>

theorem cached_response_served:
  assumes "cache_stage env route req tenant host reply s = (h, acts, s1)" "Stored key c ttl \<in> set acts"
    and "\<forall>n t. sv_generation (se_meanwhile env n t) = sv_generation t"
    and "map_of (rt_cacheStores (sv_runtime s)) (route_id route) = Some (LocalCache es0)"
    and "map_of (rt_cacheStores (sv_runtime s1)) (route_id route) = Some (LocalCache es)"
    and "req_method req2 = ''GET''"
    and "buildCacheKey (se_sha256 env2) route ''GET'' (req_url req2) (req_headers req2) tenant2 host2 = key"
    and "se_now env2 < expiry (se_now env) ttl"
  shows "(\<exists>r. h = Replied r (Bytes (c_body c)) \<and> status (the (r_sent r)) = c_status c)
    \<and> (\<exists>s2. cache_stage env2 route req2 tenant2 host2 reply2 s1 = (cached_reply c reply2, [], s2))"
proof -
  have get: "req_method req = ''GET''" "\<exists>cfg. cache route = Some cfg \<and> cache_enabled cfg"
    using assms(1,2) fetch_stored [of key c ttl env route req None reply s]
    by (auto simp: cache_stage_def Let_def split: if_splits option.splits)
  obtain cfg where cfg: "cache route = Some cfg" "cache_enabled cfg" using get(2) by blast
  let ?k = "buildCacheKey (se_sha256 env) route ''GET'' (req_url req) (req_headers req) tenant host"
  obtain es1 found where got: "mc_get es0 (se_now env) ?k = (es1, found)" by force
  let ?t = "se_meanwhile env 2 (on_runtime (sv_generation s) (put_cache (route_id route) (LocalCache es1)) s)"
  let ?u = "?t\<lparr>sv_metrics := observeRedisLatency (se_elapsed env) (sv_metrics ?t)\<rparr>"
  have f: "fetch_stage env route req (Some ((sv_generation s, ?k), LocalCache es1)) reply ?u = (h, acts, s1)"
    using assms(1,2) by (cases found) (simp_all add: cache_stage_def Let_def cfg assms(4) backend_get_def get(1) got)
  have g: "sv_generation ?u = sv_generation s" using assms(3) by simp
  have "\<forall>t. sv_generation (se_meanwhile env 3 t) = sv_generation t" using assms(3) by blast
  from fetch_kept [OF f assms(2) this g assms(5)] obtain before where es: "es = mc_set before (se_now env) key c ttl"
    and r: "\<exists>r. h = Replied r (Bytes (c_body c)) \<and> status (the (r_sent r)) = c_status c" by blast
  have hit: "mc_get es (se_now env2) key = (es, Some c)"
    using assms(8) by (simp add: es mc_get_def mc_set_def update_conv')
  show ?thesis
    using r by (simp add: cache_stage_def Let_def cfg assms(5,6,7) backend_get_def hit)
qed

section \<open>Witnesses\<close>

text \<open>An upstream that answers 200 with one byte, and a server with one cached route, in process.\<close>

definition quiet_env :: "unit server_env" where
  "quiet_env = \<lparr>se_sha256 = id, se_jwtVerify = \<lambda>_ _ _ _. None, se_get_ok = True, se_set_ok = True, se_now = 5, se_elapsed = 0,
     se_redis = \<lparr>rd_consume = \<lambda>_ r _ _ _ _. (r, Inl ()), rd_get = \<lambda>_ _ _. Inl (), rd_set = \<lambda>_ _ _ _ _. Inl (),
       rd_deleteByPrefix = \<lambda>_ _. Inl ()\<rparr>,
     se_origin = id, se_client = \<lambda>_ _ _ _ _ _. CResponse \<lparr>fr_status = 200, fr_headers = [], fr_body = Some ''a''\<rparr>,
     se_retry = \<lparr>send = \<lambda>_ _. Inl UpstreamTimeoutError, pick_time = \<lambda>_. 5, report_time = \<lambda>_. 5, random = \<lambda>_. 0,
       while_sending = \<lambda>_ b. b, while_sleeping = \<lambda>_ b. b\<rparr>,
     se_ws = \<lparr>ws_origin = id, ws_events = \<lambda>_ _ _. [], ws_pick_time = 5, ws_report_time = 5, ws_meanwhile = id\<rparr>,
     se_meanwhile = \<lambda>_ s. s\<rparr>"

definition small_config :: "route_config list \<Rightarrow> gateway_config" where
  "small_config rs = \<lparr>server = \<lparr>port = 8080, trustProxyHops = 0, maxBodyBytes = 100, maxHeaderCount = 10,
     requestTimeoutMs = 1000, watch = False\<rparr>, redis = None, db_url = None, admin_token = None, routes = rs\<rparr>"

definition small_server :: "route_config list \<Rightarrow> unit server" where
  "small_server rs = \<lparr>sv_boot = small_config rs, sv_generation = 0, sv_runtime = buildRuntimeState (small_config rs) False,
     sv_db = None, sv_keys = None, sv_redis = (), sv_metrics = createMetrics, sv_registry = [], sv_usage = None\<rparr>"

definition get_request :: "headers \<Rightarrow> http_request" where
  "get_request hs = \<lparr>req_method = ''GET'', req_url = ''/i'', req_headers = hs, req_ip = ''1.2.3.4'', req_hostname = ''h'',
     hq_id = ''q'', hq_body = ([], Ended), hq_upgrade = False\<rparr>"

definition shop_route :: route_config where
  "shop_route = (bare_route ''r'')\<lparr>cache := Some \<lparr>cache_enabled = True, cache_ttlSec = 60, cache_varyBy = []\<rparr>,
     cors := Some \<lparr>cors_enabled = True, cors_origins = [''o''], cors_methods = [], cors_allowedHeaders = [],
       cors_exposedHeaders = [], cors_credentials = False, cors_maxAgeSec = 0\<rparr>\<rparr>"

lemma shop_simps [simp]:
  "route_id shop_route = ''r''" "auth shop_route = AuthNone" "rateLimit shop_route = None" "match shop_route = match (bare_route ''r'')"
  "cache shop_route = Some \<lparr>cache_enabled = True, cache_ttlSec = 60, cache_varyBy = []\<rparr>" "stripPrefix shop_route = None"
  "cors shop_route = Some \<lparr>cors_enabled = True, cors_origins = [''o''], cors_methods = [], cors_allowedHeaders = [],
     cors_exposedHeaders = [], cors_credentials = False, cors_maxAgeSec = 0\<rparr>" "retry shop_route = None"
  "circuitBreaker shop_route = None" "upstream shop_route = upstream (bare_route ''r'')" "transform_req shop_route = None"
  by (simp_all add: shop_route_def)

lemma get_simps [simp]:
  "req_method (get_request hs) = ''GET''" "req_url (get_request hs) = ''/i''" "req_headers (get_request hs) = hs"
  "hq_id (get_request hs) = ''q''" "hq_upgrade (get_request hs) = False" "req_ip (get_request hs) = ''1.2.3.4''"
  "request_path (get_request hs) = ''/i''" "req_hostname (get_request hs) = ''h''"
  by (simp_all add: get_request_def request_path_def)

lemma small_simps [simp]:
  "sv_boot (small_server rs) = small_config rs" "sv_runtime (small_server rs) = buildRuntimeState (small_config rs) False"
  "routes (small_config rs) = rs" "maxHeaderCount (server (small_config rs)) = 10" "maxBodyBytes (server (small_config rs)) = 100"
  "rt_config (buildRuntimeState c sh) = c" "se_meanwhile quiet_env n t = t" "se_now quiet_env = 5" "se_sha256 quiet_env = id"
  "sv_generation (small_server rs) = 0" "sv_db (small_server rs) = None" "sv_keys (small_server rs) = None"
  by (simp_all add: small_server_def small_config_def buildRuntimeState_def quiet_env_def)

lemma host_h: "normalizeHost (Some ''h'') = Some ''h''"
  by code_simp

lemma shop_matched: "matched (get_request hs) (small_server [shop_route]) = Some shop_route"
  by (simp add: matched_def matchRoute_def matchesMethod_def matchesPath_def matchesHost_def host_h js_ends_with_def js_starts_with_def)

lemma preflight_get: "preflight rs p h (get_request hs) = None"
  by (simp add: preflight_def split: option.splits)

lemma respond_labelled_witness:
  "\<exists>r b. fst (respond quiet_env (\<lambda>_. ([], [])) 3 (get_request []) (small_server [])) = Replied r b
     \<and> r_sent r \<noteq> None \<and> reply_header ''x-request-id'' r = Some (HText ''q'')"
proof -
  have "oc_handled (dispatch quiet_env (\<lambda>_. ([], [])) (get_request []) (small_server [])) = fail_with 404 ''not_found'' empty_answer"
    by (simp add: dispatch_handler reaches_handler_def declared_length_def handler_def preflight_get matchRoute_def Let_def)
  then obtain r b acts s' where e: "respond quiet_env (\<lambda>_. ([], [])) 3 (get_request []) (small_server []) = (Replied r b, acts, s')"
    by (auto simp: respond_def Let_def fail_with_def)
  from respond_labelled [OF e] show ?thesis by (simp add: e)
qed

definition shop_key :: string where
  "shop_key = buildCacheKey id shop_route ''GET'' ''/i'' [] None (Some ''h'')"

definition shop_response :: cached_response where
  "shop_response = \<lparr>c_status = 200, c_headers = [], c_body = ''a''\<rparr>"

lemma shop_key_any: "buildCacheKey id shop_route ''GET'' ''/i'' hs None (Some ''h'') = shop_key"
  by (simp add: shop_key_def buildCacheKey_def cache_variant_def)

lemma shop_decision: "decideCacheability 200 [] 60 = \<lparr>cacheable = True, ttlSec = 60\<rparr>"
  by (simp add: decideCacheability_def parseCacheControl_def header_text_def directive_list_def js_trim_def js_lower_def
      js_starts_with_def Let_def)

lemma shop_forward:
  "fst (forwardWithRetry (retry_env quiet_env shop_route (get_request hs)) shop_route ''GET'' None (createBalancer shop_route))
     = Inr \<lparr>fr_status = 200, fr_headers = [], fr_body = Some ''a''\<rparr>"
  by (simp add: forwardWithRetry_def maxAttempts_def eligible_def pickTarget_def createBalancer_def retry_env_def
      forwardRequest_def quiet_env_def stripHopByHop_def bare_route_def Let_def numeral_eq_Suc)

lemma shop_miss:
  obtains r es s1 where "cache_stage quiet_env shop_route (get_request hs) None (Some ''h'') empty_answer (small_server [shop_route])
      = (Replied r (Bytes ''a''), [Forwarded es, Stored shop_key shop_response 60], s1)"
    "map_of (rt_cacheStores (sv_runtime s1)) ''r'' = Some (LocalCache [(shop_key, \<lparr>e_response = shop_response, expiresAt = expiry 5 60\<rparr>)])"
    "rt_config (sv_runtime s1) = small_config [shop_route]"
proof -
  have stores: "rt_cacheStores (buildRuntimeState (small_config [shop_route]) False) = [(''r'', LocalCache [])]"
    "map_of (rt_balancers (buildRuntimeState (small_config [shop_route]) False)) ''r'' = Some (createBalancer shop_route)"
    by (simp_all add: buildRuntimeState_def createCacheStores_def)
  have body: "body_error s (get_request hs) = None" for s :: "unit server" by (simp add: body_error_def)
  note eval = cache_stage_def fetch_stage_def store_response_def backend_get_def backend_set_def mc_get_def mc_set_def
    Let_def case_prod_beta stores body shop_forward shop_decision on_runtime_def put_cache_def put_balancer_def update_conv'
    stripUncacheableHeaders_def shop_key_any
  have "\<exists>r es s1. cache_stage quiet_env shop_route (get_request hs) None (Some ''h'') empty_answer (small_server [shop_route])
      = (Replied r (Bytes ''a''), [Forwarded es, Stored shop_key shop_response 60], s1)
    \<and> map_of (rt_cacheStores (sv_runtime s1)) ''r'' = Some (LocalCache [(shop_key, \<lparr>e_response = shop_response, expiresAt = expiry 5 60\<rparr>)])
    \<and> rt_config (sv_runtime s1) = small_config [shop_route]"
    by (simp add: eval flip: shop_response_def)
  with that show thesis by blast
qed

lemma small_same: "(small_server rs)\<lparr>sv_db := None, sv_keys := None\<rparr> = small_server rs"
  by (simp add: small_server_def)

lemma shop_handler:
  "handler quiet_env (get_request hs) empty_answer (small_server [shop_route])
     = outcome_of \<lparr>lb_routeId = Some ''r'', lb_tenantId = None\<rparr>
         (cache_stage quiet_env shop_route (get_request hs) None (Some ''h'') empty_answer (small_server [shop_route]))"
  using shop_matched [of hs]
  by (simp add: handler_def matched_def preflight_get guarded_def authenticateRequest_def denied_def rate_stage_def host_h
      small_same Let_def)

lemma shop_reaches: "length hs \<le> 10 \<Longrightarrow> declared_length hs = None \<Longrightarrow> reaches_handler (get_request hs) (small_server [shop_route])"
  using length_remdups_leq [of "map fst hs"] by (simp add: reaches_handler_def)

lemma cached_response_served_witness:
  "\<exists>s1 s2. cache_stage quiet_env shop_route (get_request []) None (Some ''h'') empty_answer s1
     = (cached_reply shop_response empty_answer, [], s2)"
proof -
  obtain r es s1 where e: "cache_stage quiet_env shop_route (get_request []) None (Some ''h'') empty_answer (small_server [shop_route])
      = (Replied r (Bytes ''a''), [Forwarded es, Stored shop_key shop_response 60], s1)"
    and m: "map_of (rt_cacheStores (sv_runtime s1)) ''r'' = Some (LocalCache [(shop_key, \<lparr>e_response = shop_response, expiresAt = expiry 5 60\<rparr>)])"
    by (rule shop_miss)
  have "map_of (rt_cacheStores (sv_runtime (small_server [shop_route]))) (route_id shop_route) = Some (LocalCache [])"
    by (simp add: buildRuntimeState_def createCacheStores_def)
  from cached_response_served [OF e _ _ this, of shop_key shop_response 60 _ "get_request []" quiet_env None "Some ''h''" empty_answer] m
  show ?thesis by (auto simp: shop_key_any expiry_60)
qed

text \<open>The same request through the whole pipeline, with an origin.\<close>

lemma shop_responds:
  assumes "length hs \<le> 10" "declared_length hs = None"
  obtains r es s' where "respond quiet_env ex 3 (get_request hs) (small_server [shop_route])
    = (Replied r (Bytes ''a''), [Forwarded es, Stored shop_key shop_response 60], s')"
    "rt_config (sv_runtime (oc_server (handler quiet_env (get_request hs) empty_answer (small_server [shop_route])))) = small_config [shop_route]"
proof (rule shop_miss [of hs])
  fix r es s1
  assume m: "cache_stage quiet_env shop_route (get_request hs) None (Some ''h'') empty_answer (small_server [shop_route])
      = (Replied r (Bytes ''a''), [Forwarded es, Stored shop_key shop_response 60], s1)"
    and c: "rt_config (sv_runtime s1) = small_config [shop_route]"
  note d = dispatch_handler [OF shop_reaches [OF assms], of quiet_env ex] shop_handler m
  show thesis by (rule that) (simp add: respond_def d, simp add: d c)
qed


lemma upstream_guarded_witness:
  "\<exists>route. matched (get_request []) (small_server [shop_route]) = Some route"
proof -
  obtain r es s' where e: "respond quiet_env (\<lambda>_. ([], [])) 3 (get_request []) (small_server [shop_route])
      = (Replied r (Bytes ''a''), [Forwarded es, Stored shop_key shop_response 60], s')"
    by (rule shop_responds [of "[]"]) (simp_all add: declared_length_def)
  from upstream_guarded [OF e] show ?thesis by blast
qed

lemma cache_writes_safe_witness:
  "\<exists>route. matched (get_request []) (small_server [shop_route]) = Some route \<and> cacheable_response route shop_response 60"
proof -
  obtain r es s' where e: "respond quiet_env (\<lambda>_. ([], [])) 3 (get_request []) (small_server [shop_route])
      = (Replied r (Bytes ''a''), [Forwarded es, Stored shop_key shop_response 60], s')"
    by (rule shop_responds [of "[]"]) (simp_all add: declared_length_def)
  from cache_writes_safe [OF e, of shop_key shop_response 60] show ?thesis by auto
qed

lemma early_refusals_lack_cors_witness:
  "\<exists>r b s'. respond quiet_env (\<lambda>_. ([], [])) 3 (get_request [(''content-length'', HText ''101'')]) (small_server []) = (Replied r b, [], s')
     \<and> reply_header ''access-control-allow-origin'' r = None"
proof -
  have "declared_length [(''content-length'', HText ''101'')] = Some 101"
    by (simp add: declared_length_def js_number_eval)
  then have "oc_handled (dispatch quiet_env (\<lambda>_. ([], [])) (get_request [(''content-length'', HText ''101'')]) (small_server []))
      = fail_with 413 ''payload_too_large'' empty_answer"
    by (simp add: dispatch_def enforceHeaderLimit_def enforceBodyLimit_def empty_answer_def fail_with_def send_error_def Let_def)
  then obtain r b acts s' where e: "respond quiet_env (\<lambda>_. ([], [])) 3 (get_request [(''content-length'', HText ''101'')]) (small_server [])
      = (Replied r b, acts, s')" by (auto simp: respond_def Let_def fail_with_def)
  from early_refusals_lack_cors [OF e] \<open>declared_length _ = Some 101\<close> e show ?thesis by simp
qed

end
