(* ===== verification/Reload.thy ===== *)
theory Reload
  imports Pipeline
begin

text \<open>
  Start and hot reload: the checks and the choice of clients of \<open>buildServer\<close>, \<open>reload\<close>
  (\<open>gateway/src/server.ts\<close>), and the trigger logic of \<open>config/watch.ts\<close>. Reading and parsing the file is a
  parameter: a trigger comes with what \<open>loadConfig\<close> returns or throws.
\<close>

section \<open>Start\<close>

definition apiKeyRoutesNeedingDb :: "gateway_config \<Rightarrow> string list" where
  "apiKeyRoutesNeedingDb config = map route_id (filter (\<lambda>route. auth route = AuthApiKey) (routes config))"

definition needsRedis :: "gateway_config \<Rightarrow> bool" where
  "needsRedis config \<longleftrightarrow> redis config \<noteq> None
     \<and> (list_ex (\<lambda>route. rateLimit route \<noteq> None \<or> (case cache route of Some c \<Rightarrow> cache_enabled c | None \<Rightarrow> False)) (routes config)
        \<or> apiKeyRoutesNeedingDb config \<noteq> [])"

definition opensDbPool :: "gateway_config \<Rightarrow> bool" where
  "opensDbPool config \<longleftrightarrow> db_url config \<noteq> None \<and> (apiKeyRoutesNeedingDb config \<noteq> [] \<or> admin_token config \<noteq> None)"

datatype config_error = SectionChanged | MissingDb "string list"

text \<open>\<open>tables\<close> is the migrated database, \<open>keys\<close> and \<open>r\<close> what Redis holds.\<close>

definition buildServer :: "database \<Rightarrow> key_cache \<Rightarrow> 'r \<Rightarrow> gateway_config \<Rightarrow> config_error + 'r server" where
  "buildServer tables keys r config =
     (if apiKeyRoutesNeedingDb config \<noteq> [] \<and> db_url config = None then Inl (MissingDb (apiKeyRoutesNeedingDb config))
      else Inr \<lparr>sv_boot = config, sv_generation = 0, sv_runtime = buildRuntimeState config (needsRedis config),
        sv_db = (if opensDbPool config then Some tables else None),
        sv_keys = (if needsRedis config then Some keys else None), sv_redis = r, sv_metrics = createMetrics,
        sv_registry = [], sv_usage = (if opensDbPool config then Some createUsageBuffer else None)\<rparr>)"

section \<open>Reload\<close>

text \<open>Sections are compared as JSON text, which is equality of the parsed sections.\<close>

definition assertHotReloadable :: "gateway_config \<Rightarrow> gateway_config \<Rightarrow> config_error option" where
  "assertHotReloadable old new =
     (if server old \<noteq> server new \<or> redis old \<noteq> redis new \<or> db_url old \<noteq> db_url new \<or> admin_token old \<noteq> admin_token new
      then Some SectionChanged
      else if apiKeyRoutesNeedingDb new \<noteq> [] \<and> db_url new = None then Some (MissingDb (apiKeyRoutesNeedingDb new))
      else None)"

text \<open>The Redis client, if any, is the one opened at start. The result names the balancers closed.\<close>

definition reload :: "gateway_config \<Rightarrow> 'r server \<Rightarrow> config_error + 'r server \<times> balancer list" where
  "reload new s =
     (case assertHotReloadable (rt_config (sv_runtime s)) new of
        Some e \<Rightarrow> Inl e
      | None \<Rightarrow> Inr (s\<lparr>sv_runtime := buildRuntimeState new (sv_keys s \<noteq> None), sv_generation := sv_generation s + 1\<rparr>,
                     map snd (rt_balancers (sv_runtime s))))"

text \<open>
  \<open>watchConfig\<close>: a trigger (SIGHUP or a file event) while a reload is settling is skipped; an error of
  the loader or of \<open>onReload\<close> goes to \<open>onError\<close> and frees the flag at once, a success when its promise settles.
\<close>

record 's watcher =
  w_reloading :: bool
  w_state :: 's
  w_errors :: nat

datatype watch_event = Trigger "config_error + gateway_config" | Settled

definition watch_step :: "(gateway_config \<Rightarrow> 's \<Rightarrow> config_error + 's) \<Rightarrow> 's watcher \<Rightarrow> watch_event \<Rightarrow> 's watcher" where
  "watch_step onReload w e =
     (case e of
        Settled \<Rightarrow> w\<lparr>w_reloading := False\<rparr>
      | Trigger loaded \<Rightarrow>
          if w_reloading w then w
          else (case loaded of
                  Inl _ \<Rightarrow> w\<lparr>w_errors := w_errors w + 1, w_reloading := False\<rparr>
                | Inr config \<Rightarrow>
                    (case onReload config (w_state w) of
                       Inl _ \<Rightarrow> w\<lparr>w_errors := w_errors w + 1, w_reloading := False\<rparr>
                     | Inr s \<Rightarrow> w\<lparr>w_state := s, w_reloading := True\<rparr>)))"

definition reload_state :: "gateway_config \<Rightarrow> 'r server \<Rightarrow> config_error + 'r server" where
  "reload_state new s = map_sum id fst (reload new s)"

text \<open>
  C25: a reload is all or nothing: after any triggers, every configuration that took effect has the
  server, Redis, database and admin sections of the start, the state in force is the complete one of
  the last accepted configuration, and a rejected or unreadable one changed nothing but the error count.
\<close>

theorem reload_atomic:
  assumes "buildServer tables keys r config = Inr s0"
    and "w = foldl (watch_step reload_state) \<lparr>w_reloading = False, w_state = s0, w_errors = 0\<rparr> es"
  shows "\<exists>c. (c = config \<or> Trigger (Inr c) \<in> set es) \<and> sv_runtime (w_state w) = buildRuntimeState c (needsRedis config)
    \<and> server c = server config \<and> redis c = redis config \<and> db_url c = db_url config \<and> admin_token c = admin_token config
    \<and> w_errors w + sv_generation (w_state w) \<le> length es
    \<and> w_state w = s0\<lparr>sv_runtime := sv_runtime (w_state w), sv_generation := sv_generation (w_state w)\<rparr>"
  using assms(2)
proof (induction es arbitrary: w rule: rev_induct)
  case Nil
  with assms(1) show ?case by (auto simp: buildServer_def split: if_splits)
next
  case (snoc e es)
  define v where "v = foldl (watch_step reload_state) \<lparr>w_reloading = False, w_state = s0, w_errors = 0\<rparr> es"
  from snoc.IH [OF v_def] obtain c where c: "c = config \<or> Trigger (Inr c) \<in> set es"
    "sv_runtime (w_state v) = buildRuntimeState c (needsRedis config)"
    "server c = server config" "redis c = redis config" "db_url c = db_url config" "admin_token c = admin_token config"
    "w_errors v + sv_generation (w_state v) \<le> length es"
    "w_state v = s0\<lparr>sv_runtime := sv_runtime (w_state v), sv_generation := sv_generation (w_state v)\<rparr>" by blast
  have keys: "(sv_keys (w_state v) \<noteq> None) = needsRedis config"
    using assms(1) by (subst c(8)) (auto simp: buildServer_def split: if_splits)
  have w: "w = watch_step reload_state v e" using snoc.prems by (simp add: v_def)
  show ?case
  proof (cases "w_state w = w_state v")
    case True
    moreover have "w_errors w \<le> w_errors v + 1"
      unfolding w watch_step_def by (auto split: watch_event.splits sum.splits)
    ultimately show ?thesis using c by (intro exI [of _ c]) auto
  next
    case False
    then obtain new s' where e: "e = Trigger (Inr new)" and rl: "reload_state new (w_state v) = Inr s'"
      and w': "w_state w = s'" "w_errors w = w_errors v"
      unfolding w watch_step_def by (auto split: watch_event.splits sum.splits if_splits)
    have rt: "rt_config (sv_runtime (w_state v)) = c" using c(2) by (simp add: buildRuntimeState_def)
    have ok: "assertHotReloadable c new = None"
      and s': "s' = (w_state v)\<lparr>sv_runtime := buildRuntimeState new (needsRedis config), sv_generation := sv_generation (w_state v) + 1\<rparr>"
      using rl keys unfolding reload_state_def reload_def rt by (auto split: option.splits)
    have "server new = server config \<and> redis new = redis config \<and> db_url new = db_url config \<and> admin_token new = admin_token config"
      using ok c(3-6) by (auto simp: assertHotReloadable_def split: if_splits)
    moreover have "s' = s0\<lparr>sv_runtime := sv_runtime s', sv_generation := sv_generation s'\<rparr>"
      unfolding s' by (subst c(8)) simp
    ultimately show ?thesis using e w' c(7) s' by (intro exI [of _ new]) auto
  qed
qed

text \<open>The flag never gets stuck: a trigger that finds it set is followed by the settling of the one before.\<close>

lemma watch_free: "\<not> w_reloading (watch_step f w Settled)"
  by (simp add: watch_step_def)

section \<open>Clients that only the start opens\<close>

text \<open>
  The pool and the Redis client are opened only at the start, for the routes configured then. A reload
  that adds the first API key route passes the checks, and every request with a token to that route is
  answered 500; one that adds the first rate limit gets in-process counters although Redis is configured.
\<close>

theorem reload_without_clients:
  assumes "buildServer tables keys r config = Inr s" "\<not> opensDbPool config" "\<not> needsRedis config"
    and "assertHotReloadable config new = None"
    and "auth route = AuthApiKey" "extractBearerToken (authorization_header hs) = Some token"
    and "limited \<in> set (routes new)" "rateLimit limited = Some c" "routes new = before @ limited # after"
    and "route_id limited \<notin> route_id ` set after"
  shows "\<exists>s' closed_balancers. reload new s = Inr (s', closed_balancers)
    \<and> (\<exists>au r'. authenticateRequest h jv now g st route hs (sv_db s') (sv_keys s') empty_answer = (au, r', None, None)
         \<and> \<not> ok au \<and> status (the (r_sent r')) = 500)
    \<and> map_of (rt_rateLimitStores (sv_runtime s')) (route_id limited) = Some (LocalStore (createMemoryStore (rl_algorithm c)))"
proof -
  have s: "sv_db s = None" "sv_keys s = None" "rt_config (sv_runtime s) = config"
    using assms(1-3) by (auto simp: buildServer_def split: if_splits)
  let ?s' = "s\<lparr>sv_runtime := buildRuntimeState new False, sv_generation := sv_generation s + 1\<rparr>"
  have rl: "reload new s = Inr (?s', map snd (rt_balancers (sv_runtime s)))"
    using assms(4) s by (simp add: reload_def)
  have au: "\<exists>au r'. authenticateRequest h jv now g st route hs (sv_db ?s') (sv_keys ?s') empty_answer = (au, r', None, None)
      \<and> \<not> ok au \<and> status (the (r_sent r')) = 500"
    using assms(5,6) s by (simp add: authenticateRequest_def denied_def)
  have absent: "map_of (foldl (\<lambda>stores route. case rateLimit route of None \<Rightarrow> stores
       | Some c \<Rightarrow> AList.update (route_id route) (if False then SharedStore (rl_algorithm c)
           else LocalStore (createMemoryStore (rl_algorithm c))) stores) st rs) k = map_of st k"
    if "k \<notin> route_id ` set rs" for st rs k
    using that by (induction rs arbitrary: st) (auto simp: update_conv' split: option.splits)
  have "map_of (rt_rateLimitStores (sv_runtime ?s')) (route_id limited) = Some (LocalStore (createMemoryStore (rl_algorithm c)))"
    using absent [OF assms(10)] assms(8)
    by (simp add: buildRuntimeState_def createRateLimitStores_def assms(9) update_conv')
  with rl au show ?thesis by blast
qed

section \<open>Witnesses\<close>

definition dormant_config :: "route_config list \<Rightarrow> gateway_config" where
  "dormant_config rs = (small_config rs)\<lparr>redis := Some \<lparr>redis_url = ''redis://r'', failOpen = True\<rparr>, db_url := Some ''pg://d''\<rparr>"

definition metered_route :: route_config where
  "metered_route = key_route\<lparr>rateLimit := Some \<lparr>rl_algorithm = FixedWindow, rl_keyBy = [KeyIp], rl_limit = 1, rl_windowSec = 60,
     rl_burst = None, rl_global = None\<rparr>\<rparr>"

lemma dormant_start:
  "buildServer small_db Map.empty () (dormant_config [bare_route ''r'']) = Inr \<lparr>sv_boot = dormant_config [bare_route ''r''],
     sv_generation = 0, sv_runtime = buildRuntimeState (dormant_config [bare_route ''r'']) False, sv_db = None, sv_keys = None,
     sv_redis = (), sv_metrics = createMetrics, sv_registry = [], sv_usage = None\<rparr>"
  "\<not> opensDbPool (dormant_config [bare_route ''r''])" "\<not> needsRedis (dormant_config [bare_route ''r''])"
  "assertHotReloadable (dormant_config [bare_route ''r'']) (dormant_config [metered_route]) = None"
  by (simp_all add: buildServer_def needsRedis_def opensDbPool_def dormant_config_def small_config_def apiKeyRoutesNeedingDb_def
      assertHotReloadable_def)

lemma reload_atomic_witness:
  "\<exists>w. w = foldl (watch_step reload_state) \<lparr>w_reloading = False, w_state = projr (buildServer small_db Map.empty ()
      (dormant_config [bare_route ''r''])), w_errors = 0\<rparr> [Trigger (Inl SectionChanged), Trigger (Inr (dormant_config [metered_route]))]
    \<and> server (rt_config (sv_runtime (w_state w))) = server (dormant_config [bare_route ''r''])"
proof -
  let ?s0 = "projr (buildServer small_db Map.empty () (dormant_config [bare_route ''r'']))"
  let ?es = "[Trigger (Inl SectionChanged), Trigger (Inr (dormant_config [metered_route]))]"
  have b: "buildServer small_db Map.empty () (dormant_config [bare_route ''r'']) = Inr ?s0" by (simp add: dormant_start)
  from reload_atomic [OF b refl, of ?es] obtain c
    where "sv_runtime (w_state (foldl (watch_step reload_state) \<lparr>w_reloading = False, w_state = ?s0, w_errors = 0\<rparr> ?es))
        = buildRuntimeState c (needsRedis (dormant_config [bare_route ''r'']))"
      "server c = server (dormant_config [bare_route ''r''])" by blast
  then show ?thesis by (intro exI [of _ "foldl (watch_step reload_state) \<lparr>w_reloading = False, w_state = ?s0, w_errors = 0\<rparr> ?es"])
      (simp add: buildRuntimeState_def)
qed

lemma reload_without_clients_witness:
  "\<exists>s' cl. reload (dormant_config [metered_route]) (projr (buildServer small_db Map.empty () (dormant_config [bare_route ''r''])))
      = Inr (s', cl) \<and> map_of (rt_rateLimitStores (sv_runtime s')) ''r'' = Some (LocalStore (createMemoryStore FixedWindow))"
proof -
  have m: "auth metered_route = AuthApiKey" "route_id metered_route = ''r''" "routes (dormant_config [metered_route]) = [metered_route]"
    "rateLimit metered_route = Some \<lparr>rl_algorithm = FixedWindow, rl_keyBy = [KeyIp], rl_limit = 1, rl_windowSec = 60,
       rl_burst = None, rl_global = None\<rparr>"
    by (simp_all add: metered_route_def dormant_config_def small_config_def)
  from reload_without_clients [OF dormant_start m(1) key_token _ m(4), of "[]" "[]"] m dormant_start(1) show ?thesis
    by simp blast
qed

end
