(* ===== verification/Runtime.thy ===== *)
theory Runtime
  imports Reload
begin

text \<open>
  What a runtime state is made of: for every configured route a balancer over its targets, a rate limit
  store of its algorithm if it is limited, and a cache if caching is on. The builder makes such states,
  and every request, however it ends, leaves the state of this form.
\<close>

section \<open>Well-formed runtime states\<close>

fun ms_algorithm :: "memory_store \<Rightarrow> algorithm_name" where
  "ms_algorithm (FwStore _) = FixedWindow"
| "ms_algorithm (TbStore _) = TokenBucket"
| "ms_algorithm (LbStore _) = LeakyBucket"
| "ms_algorithm (SwlStore _) = SlidingWindowLog"
| "ms_algorithm (SwcStore _) = SlidingWindowCounter"

fun backend_algorithm :: "rate_backend \<Rightarrow> algorithm_name" where
  "backend_algorithm (LocalStore ms) = ms_algorithm ms"
| "backend_algorithm (SharedStore a) = a"

definition urls :: "balancer \<Rightarrow> string list" where
  "urls b = map t_url (b_targets b)"

definition route_served :: "runtime \<Rightarrow> route_config \<Rightarrow> bool" where
  "route_served rt route \<longleftrightarrow>
     (\<forall>c. rateLimit route = Some c \<longrightarrow>
        map_option backend_algorithm (map_of (rt_rateLimitStores rt) (route_id route)) = Some (rl_algorithm c))
     \<and> (\<forall>c. cache route = Some c \<and> cache_enabled c \<longrightarrow> map_of (rt_cacheStores rt) (route_id route) \<noteq> None)
     \<and> map_option urls (map_of (rt_balancers rt) (route_id route)) = Some (targets (upstream route))"

definition runtime_wf :: "runtime \<Rightarrow> bool" where
  "runtime_wf rt \<longleftrightarrow> (\<forall>route \<in> set (routes (rt_config rt)). route_served rt route)"

section \<open>Building\<close>

lemma foldl_update_absent_key:
  "k \<notin> route_id ` set rs \<Longrightarrow>
     map_of (foldl (\<lambda>st r. case f r of None \<Rightarrow> st | Some v \<Rightarrow> AList.update (route_id r) v st) st rs) k = map_of st k"
  by (induction rs arbitrary: st) (auto simp: update_conv' split: option.splits)

lemma foldl_update_get:
  "distinct (map route_id rs) \<Longrightarrow> route \<in> set rs \<Longrightarrow> f route = Some v \<Longrightarrow>
     map_of (foldl (\<lambda>st r. case f r of None \<Rightarrow> st | Some v \<Rightarrow> AList.update (route_id r) v st) st rs) (route_id route) = Some v"
proof (induction rs arbitrary: st)
  case (Cons r rs)
  show ?case
  proof (cases "route = r")
    case True
    then have "route_id route \<notin> route_id ` set rs" using Cons.prems(1) by auto
    from foldl_update_absent_key [OF this, of f] True Cons.prems(3) show ?thesis by (simp add: update_conv')
  qed (use Cons in auto)
qed simp

lemma foldl_filter: "foldl g st (filter P rs) = foldl (\<lambda>st r. if P r then g st r else st) st rs"
  by (induction rs arbitrary: st) auto

lemma ms_algorithm_create [simp]: "ms_algorithm (createMemoryStore a) = a"
  by (cases a) simp_all

lemma urls_create [simp]: "urls (createBalancer route) = targets (upstream route)"
  by (simp add: urls_def createBalancer_def comp_def)

lemma createRateLimitStores_get:
  assumes "distinct (map route_id (routes config))" "route \<in> set (routes config)" "rateLimit route = Some c"
  shows "map_of (createRateLimitStores config shared) (route_id route)
    = Some (if shared then SharedStore (rl_algorithm c) else LocalStore (createMemoryStore (rl_algorithm c)))"
proof -
  let ?f = "\<lambda>r. map_option (\<lambda>c. if shared then SharedStore (rl_algorithm c) else LocalStore (createMemoryStore (rl_algorithm c))) (rateLimit r)"
  have "map_of (createRateLimitStores config shared) (route_id route)
      = map_of (foldl (\<lambda>st r. case ?f r of None \<Rightarrow> st | Some v \<Rightarrow> AList.update (route_id r) v st) [] (routes config)) (route_id route)"
    unfolding createRateLimitStores_def
    by (rule arg_cong [where f = "\<lambda>g. map_of (foldl g [] (routes config)) (route_id route)"])
      (intro ext, simp split: option.splits)
  with foldl_update_get [OF assms(1,2), of ?f] assms(3) show ?thesis by simp
qed

lemma buildRuntimeState_wf:
  assumes "distinct (map route_id (routes config))"
  shows "runtime_wf (buildRuntimeState config shared)"
  unfolding runtime_wf_def
proof
  fix route assume "route \<in> set (routes (rt_config (buildRuntimeState config shared)))"
  then have route: "route \<in> set (routes config)" by simp
  let ?get = "\<lambda>f st. map_of (foldl (\<lambda>st r. case f r of None \<Rightarrow> st | Some v \<Rightarrow> AList.update (route_id r) v st) st (routes config)) (route_id route)"
  note got = foldl_update_get [OF assms route]
  note rate = createRateLimitStores_get [OF assms route]
  have cached: "map_of (createCacheStores config shared) (route_id route) = Some (if shared then SharedCache else LocalCache [])"
    if "cache route = Some c" "cache_enabled c" for c
  proof -
    let ?f = "\<lambda>r. if (case cache r of Some c \<Rightarrow> cache_enabled c | None \<Rightarrow> False) then Some (if shared then SharedCache else LocalCache []) else None"
    have "map_of (createCacheStores config shared) (route_id route) = ?get ?f []"
      unfolding createCacheStores_def foldl_filter
      by (rule arg_cong [where f = "\<lambda>g. map_of (foldl g [] (routes config)) (route_id route)"]) (intro ext, simp)
    with got [of ?f] that show ?thesis by simp
  qed
  have bal: "map_of (rt_balancers (buildRuntimeState config shared)) (route_id route) = Some (createBalancer route)"
    using got [of "\<lambda>r. Some (createBalancer r)"] by (simp add: buildRuntimeState_def)
  show "route_served (buildRuntimeState config shared) route"
    using rate cached bal by (auto simp: route_served_def buildRuntimeState_def)
qed

section \<open>Changing one entry\<close>

lemma put_simps [simp]:
  "rt_config (put_rate rid x rt) = rt_config rt" "rt_config (put_cache rid y rt) = rt_config rt"
  "rt_config (put_balancer rid z rt) = rt_config rt"
  by (simp_all add: put_rate_def put_cache_def put_balancer_def)

lemma put_rate_wf:
  "runtime_wf rt \<Longrightarrow> map_of (rt_rateLimitStores rt) rid = Some x \<Longrightarrow> backend_algorithm y = backend_algorithm x
    \<Longrightarrow> runtime_wf (put_rate rid y rt)"
  by (fastforce simp: runtime_wf_def route_served_def put_rate_def update_conv')

lemma put_cache_wf: "runtime_wf rt \<Longrightarrow> runtime_wf (put_cache rid y rt)"
  by (auto simp: runtime_wf_def route_served_def put_cache_def update_conv')

lemma put_balancer_wf:
  "runtime_wf rt \<Longrightarrow> map_of (rt_balancers rt) rid = Some x \<Longrightarrow> urls y = urls x \<Longrightarrow> runtime_wf (put_balancer rid y rt)"
  by (fastforce simp: runtime_wf_def route_served_def put_balancer_def update_conv')

section \<open>The operations of a request\<close>

lemma ms_consume_algorithm [simp]: "ms_algorithm (fst (ms_consume ms k p now cost)) = ms_algorithm ms"
  by (cases ms) (auto simp: map_prod_def split: prod.splits)

lemma backend_consume_algorithm:
  "backend_algorithm (fst (fst (backend_consume ops st k p now cost))) = backend_algorithm (fst st)"
  by (cases st) (auto simp: backend_consume_def Let_def case_prod_beta split: rate_backend.splits)

lemma consume_all_algorithm:
  "backend_algorithm (fst (fst (consume_all (backend_consume ops) now st checks))) = backend_algorithm (fst st)"
proof (induction checks arbitrary: st)
  case (Cons check checks)
  then show ?case
    by (cases check) (simp add: Let_def case_prod_beta backend_consume_algorithm)
qed simp

lemma enforceRateLimit_algorithm:
  "enforceRateLimit (backend_consume ops) now st route ip ctx fo reply = (st', reply', v)
    \<Longrightarrow> backend_algorithm (fst st') = backend_algorithm (fst st)"
  using consume_all_algorithm [of ops now st]
  by (auto simp: enforceRateLimit_def Let_def case_prod_beta split: option.splits list.splits if_splits)

lemma update_breaker_urls [simp]: "map t_url (update_breaker url f ts) = map t_url ts"
  by (induction ts) auto

lemma report_urls [simp]: "urls (reportSuccess t b) = urls b" "urls (reportFailure now t b) = urls b"
  by (simp_all add: urls_def reportSuccess_def reportFailure_def)

lemma pick_loop_urls: "k \<le> length (b_targets b) \<Longrightarrow> urls (snd (pick_loop now k i b)) = urls b"
proof (induction k arbitrary: i b)
  case (Suc k)
  let ?j = "(b_cursor b + i) mod length (b_targets b)"
  have j: "?j < length (b_targets b)" using Suc.prems by (intro mod_less_divisor) auto
  define b' where "b' x = b\<lparr>b_targets := (b_targets b)[?j := (b_targets b ! ?j)\<lparr>t_breaker := x\<rparr>]\<rparr>" for x
  have same: "urls (b' x) = urls b" "length (b_targets (b' x)) = length (b_targets b)" for x
    using j by (simp_all add: b'_def urls_def map_update list_update_same_conv)
  have "urls (snd (pick_loop now k (Suc i) (b' x))) = urls b" "urls (snd (pick_loop now k (Suc i) b)) = urls b" for x
    using Suc.IH [of "b' x"] Suc.IH [of b] Suc.prems same by simp_all
  moreover have "urls (b' x\<lparr>b_cursor := n\<rparr>) = urls b" "urls (b\<lparr>b_cursor := n\<rparr>) = urls b" for x n
    using same(1) by (simp_all add: urls_def)
  ultimately show ?case
    by (simp add: Let_def case_prod_beta flip: b'_def split: option.split)
qed simp

lemma pickTarget_urls [simp]: "urls (snd (pickTarget now b)) = urls b"
  unfolding pickTarget_def by (rule pick_loop_urls) simp

definition waits_keep_urls :: "environment \<Rightarrow> bool" where
  "waits_keep_urls e \<longleftrightarrow> (\<forall>n b. urls (while_sending e n b) = urls b \<and> urls (while_sleeping e n b) = urls b)"

lemma attempt_loop_urls:
  "waits_keep_urls e \<Longrightarrow> urls (fst (snd (attempt_loop e rc k n le b))) = urls b"
proof (induction e rc k n le b rule: attempt_loop.induct)
  case (2 e rc k n le b)
  obtain p b1 where p: "pickTarget (pick_time e n) b = (p, b1)" by force
  have b1: "urls b1 = urls b" using pickTarget_urls [of "pick_time e n" b] p by simp
  have w: "urls (while_sending e n x) = urls x" "urls (while_sleeping e n x) = urls x" for x
    using "2.prems" by (simp_all add: waits_keep_urls_def)
  show ?case
    using 2 p b1 w by (auto simp: Let_def case_prod_beta split: option.splits sum.splits)
qed simp

lemma forwardWithRetry_urls:
  "waits_keep_urls e \<Longrightarrow> forwardWithRetry e route m buf b = (res, b', es) \<Longrightarrow> urls b' = urls b"
  using attempt_loop_urls [of e "retry route" "maxAttempts route m" 1 Undefined b]
  by (auto simp: forwardWithRetry_def split: option.splits if_splits)

lemma proxyWebSocket_urls:
  "\<forall>b. urls (ws_meanwhile e b) = urls b \<Longrightarrow> proxyWebSocket e route cfg reg hs path ip rid reply m b = (ans, m', b') \<Longrightarrow> urls b' = urls b"
  using pickTarget_urls [of "ws_pick_time e" b]
  by (auto simp: proxyWebSocket_def Let_def case_prod_beta split: if_splits option.splits connect_result.splits prod.splits)

section \<open>Every request keeps the state well formed\<close>

text \<open>What happens during the waits keeps the shape too: other requests, probes and reloads do.\<close>

definition env_wf :: "'r server_env \<Rightarrow> bool" where
  "env_wf env \<longleftrightarrow> waits_keep_urls (se_retry env) \<and> (\<forall>b. urls (ws_meanwhile (se_ws env) b) = urls b)
     \<and> (\<forall>n s. runtime_wf (sv_runtime s) \<longrightarrow> runtime_wf (sv_runtime (se_meanwhile env n s)))"

abbreviation server_wf :: "'r server \<Rightarrow> bool" where
  "server_wf s \<equiv> runtime_wf (sv_runtime s)"

lemma meanwhile_wf [simp]: "env_wf env \<Longrightarrow> server_wf s \<Longrightarrow> server_wf (se_meanwhile env n s)"
  by (simp add: env_wf_def)

lemma on_runtime_wf [intro]: "server_wf s \<Longrightarrow> runtime_wf (f (sv_runtime s)) \<Longrightarrow> server_wf (on_runtime g f s)"
  by (simp add: on_runtime_def)

lemma rate_stage_wf:
  assumes "env_wf env" "server_wf s" "rate_stage env route ip ctx reply s = (s', reply', v)"
  shows "server_wf s'"
proof (cases "rateLimit route = None \<or> map_of (rt_rateLimitStores (sv_runtime s)) (route_id route) = None")
  case True
  with assms(2,3) show ?thesis by (auto simp: rate_stage_def split: option.splits)
next
  case False
  then obtain store where st: "map_of (rt_rateLimitStores (sv_runtime s)) (route_id route) = Some store" by blast
  let ?fo = "case redis (rt_config (sv_runtime s)) of Some c \<Rightarrow> failOpen c | None \<Rightarrow> True"
  obtain store' r' rep w where e: "enforceRateLimit (backend_consume (se_redis env)) (se_now env) (store, sv_redis s) route ip ctx ?fo reply
      = ((store', r'), rep, w)" by (metis prod.exhaust)
  have alg: "backend_algorithm store' = backend_algorithm store" using enforceRateLimit_algorithm [OF e] by simp
  have "server_wf (on_runtime (sv_generation s) (put_rate (route_id route) store') (s\<lparr>sv_redis := r'\<rparr>))"
    using assms(2) put_rate_wf [OF assms(2) st alg] by (simp add: on_runtime_def)
  then have "server_wf (se_meanwhile env 1 (on_runtime (sv_generation s) (put_rate (route_id route) store') (s\<lparr>sv_redis := r'\<rparr>)))"
    using assms(1) by simp
  with assms(3) False st e show ?thesis by (auto simp: rate_stage_def Let_def split: option.splits)
qed

lemma ws_stage_wf:
  assumes "env_wf env" "server_wf s"
  shows "server_wf (snd (snd (ws_stage env route cfg req hs url reply s)))"
proof -
  let ?found = "map_of (rt_balancers (sv_runtime s)) (route_id route)"
  let ?b = "case ?found of Some b \<Rightarrow> b | None \<Rightarrow> (createBalancer route)\<lparr>b_targets := []\<rparr>"
  obtain ans m b' where p: "proxyWebSocket (se_ws env) route cfg (sv_registry s) (applyRequestTransform route hs)
      (rewritePath url route) (req_ip req) (hq_id req) reply (sv_metrics s) ?b = (ans, m, b')" by (metis prod.exhaust)
  have u: "urls b' = urls ?b" using assms(1) by (intro proxyWebSocket_urls [OF _ p]) (simp add: env_wf_def)
  have "server_wf (if ?found = None then s\<lparr>sv_metrics := m\<rparr>
      else on_runtime (sv_generation s) (put_balancer (route_id route) b') (s\<lparr>sv_metrics := m\<rparr>))"
    using assms(2) u put_balancer_wf [OF assms(2)] by (auto simp: on_runtime_def)
  then have "server_wf (se_meanwhile env 3 (if ?found = None then s\<lparr>sv_metrics := m\<rparr>
      else on_runtime (sv_generation s) (put_balancer (route_id route) b') (s\<lparr>sv_metrics := m\<rparr>)))"
    using assms(1) by simp
  then show ?thesis
    unfolding ws_stage_def Let_def p prod.case by (cases ans) (auto simp: case_prod_beta split: if_splits)
qed

lemma store_response_wf: "server_wf s \<Longrightarrow> server_wf (snd (store_response env route slot backend up body s))"
  by (auto simp: store_response_def Let_def case_prod_beta put_cache_wf split: sum.splits)

lemma fetch_stage_wf:
  assumes "env_wf env" "server_wf s"
  shows "server_wf (snd (snd (fetch_stage env route req slot reply s)))"
proof -
  define run where "run = (case map_of (rt_balancers (sv_runtime s)) (route_id route) of
      None \<Rightarrow> (Inl (case (if eligible route (req_method req) then body_error s req else None) of
                      Some e \<Rightarrow> Thrown e | None \<Rightarrow> Undefined), s, [])
    | Some b \<Rightarrow>
        (let (result, b', events) = forwardWithRetry (retry_env env route req) route (req_method req) (body_error s req) b
         in (result, on_runtime (sv_generation s) (put_balancer (route_id route) b') s, events)))"
  obtain result s0 events where run: "run = (result, s0, events)" by (metis prod.exhaust)
  have keep: "waits_keep_urls (retry_env env route req)"
    using assms(1) by (simp add: env_wf_def waits_keep_urls_def retry_env_def)
  have "server_wf s0"
    using run assms(2) forwardWithRetry_urls [OF keep] put_balancer_wf [OF assms(2)]
    unfolding run_def by (auto simp: Let_def split: option.splits prod.splits)
  then have s1: "server_wf (se_meanwhile env 3 s0)" using assms(1) by simp
  show ?thesis
    unfolding fetch_stage_def Let_def run_def [unfolded Let_def, symmetric] run prod.case
    using s1 by (auto simp: case_prod_beta store_response_wf split: sum.splits option.splits)
qed

lemma cache_stage_wf:
  assumes "env_wf env" "server_wf s"
  shows "server_wf (snd (snd (cache_stage env route req tenant host reply s)))"
proof -
  have c: "server_wf (se_meanwhile env 2 (on_runtime g (put_cache rid b) s))" for g rid b
    using assms by (simp add: on_runtime_def put_cache_wf)
  show ?thesis
    using assms c by (auto simp: cache_stage_def Let_def case_prod_beta fetch_stage_wf split: sum.splits option.splits)
qed

lemma guarded_wf:
  assumes "env_wf env" "server_wf s"
  shows "server_wf (oc_server (guarded env route host req ws reply s))"
proof -
  have a: "server_wf (se_meanwhile env 0 (s\<lparr>sv_db := db, sv_keys := ks\<rparr>))" for db ks using assms by simp
  show ?thesis
    using a rate_stage_wf [OF assms(1) a] assms(1)
    by (auto simp: guarded_def Let_def ws_stage_wf cache_stage_wf split: prod.splits option.splits bool.splits)
qed

lemma onResponse_runtime [simp]: "sv_runtime (onResponse l st el s) = sv_runtime s"
  by (auto simp: onResponse_def Let_def split: option.splits)

lemma dispatch_wf: "env_wf env \<Longrightarrow> server_wf s \<Longrightarrow> server_wf (oc_server (dispatch env ex req s))"
  by (auto simp: dispatch_def handler_def Let_def guarded_wf split: option.splits sum.splits)



end
