(* ===== verification/Admin.thy ===== *)
theory Admin
  imports Pipeline
begin

text \<open>
  The operator's API (\<open>gateway/src/admin/routes.ts\<close>): every endpoint, its validation failures, the
  errors of the database, and what it does to the tables, the key cache and the response caches. The
  validation library is a parameter: a call comes with \<open>parsed.data\<close>, or \<open>None\<close> when parsing failed.
\<close>

section \<open>Calls and replies\<close>

record plan_input =
  pi_name :: string
  pi_rateLimit :: number
  pi_windowSec :: number
  pi_burst :: number
  pi_quotaMonthly :: "number option"

record key_input =
  ki_name :: "string option"
  ki_scopes :: "string list option"
  ki_expiresAt :: "number option"

datatype admin_call =
    PostPlan "plan_input option"
  | GetPlans
  | PostTenant "(string \<times> string) option"
  | GetTenants
  | PostSuspend string
  | PostActivate string
  | GetKeys string
  | PostKey string "key_input option"
  | DeleteKey string
  | DeleteCache "(string \<times> string option) option"
  | GetUsage "string option" "number option option"

datatype admin_body =
    APlan plan_row | APlans "plan_row list" | ATenant tenant_row | ATenants "tenant_row list" | AKeys "key_summary list"
  | ACreated created_key | APurged string "string option" nat | AUsage usage_summary | AError | AEmpty

text \<open>
  The clock, fresh identifiers and secrets, the syntax of UUIDs, the order of text, the answers of Redis and
  the usage table. \<open>GetUsage t (Some None)\<close> is a \<open>sinceHours\<close> that is not a number.
\<close>

record 'r admin_env =
  ae_sha256 :: "string \<Rightarrow> string"
  ae_secret :: string
  ae_new_id :: string
  ae_now :: number
  ae_uuid :: "string \<Rightarrow> bool"
  ae_collation :: "string \<Rightarrow> number"
  ae_del_ok :: bool
  ae_redis :: "'r redis_ops"
  ae_usage :: "(number \<times> usage_record) list"
  ae_avg :: "number list \<Rightarrow> number option"
  ae_p99 :: "number list \<Rightarrow> number option"

definition listPlans :: "(string \<Rightarrow> number) \<Rightarrow> database \<Rightarrow> plan_row list" where
  "listPlans collation d = sort_key (\<lambda>p. collation (pl_name p)) (plans d)"

definition listTenants :: "database \<Rightarrow> tenant_row list" where
  "listTenants d = sort_key (\<lambda>t. - tn_created_at t) (tenants d)"

definition fits_int4 :: "number \<Rightarrow> bool" where
  "fits_int4 x \<longleftrightarrow> x \<le> 2147483647"

definition sent_json :: "nat \<Rightarrow> admin_body \<Rightarrow> reply \<Rightarrow> reply \<times> admin_body" where
  "sent_json st body r = (status_sent st r, body)"

definition notFound :: "reply \<Rightarrow> reply \<times> admin_body" where
  "notFound r = (send_error 404 ''not_found'' r, AError)"

definition sendValidationError :: "reply \<Rightarrow> reply \<times> admin_body" where
  "sendValidationError r = (send_error 400 ''invalid_request'' r, AError)"

text \<open>The error handler on a rejected query or command: no detail reaches the client.\<close>

definition internal_error :: "reply \<Rightarrow> reply \<times> admin_body" where
  "internal_error r = (send_error 500 ''internal_error'' r, AError)"

section \<open>The endpoints\<close>

definition post_plan :: "'r admin_env \<Rightarrow> plan_input option \<Rightarrow> reply \<Rightarrow> database \<Rightarrow> (reply \<times> admin_body) \<times> database" where
  "post_plan env parsed r d =
     (case parsed of
        None \<Rightarrow> (sendValidationError r, d)
      | Some p \<Rightarrow>
          if \<not> (fits_int4 (pi_rateLimit p) \<and> fits_int4 (pi_windowSec p) \<and> fits_int4 (pi_burst p)) then (internal_error r, d)
          else (case createPlan (ae_new_id env) (pi_name p) (pi_rateLimit p) (pi_windowSec p) (pi_burst p) (pi_quotaMonthly p) d of
                  Inl _ \<Rightarrow> (internal_error r, d)
                | Inr (d', plan) \<Rightarrow> (sent_json 201 (APlan plan) r, d')))"

definition post_tenant :: "'r admin_env \<Rightarrow> (string \<times> string) option \<Rightarrow> reply \<Rightarrow> database \<Rightarrow> (reply \<times> admin_body) \<times> database" where
  "post_tenant env parsed r d =
     (case parsed of
        None \<Rightarrow> (sendValidationError r, d)
      | Some (name, planId) \<Rightarrow>
          (case createTenant (ae_new_id env) (ae_now env) name planId d of
             Inl _ \<Rightarrow> (internal_error r, d)
           | Inr (d', tenant) \<Rightarrow> (sent_json 201 (ATenant tenant) r, d')))"

definition set_status :: "'r admin_env \<Rightarrow> string \<Rightarrow> string \<Rightarrow> reply \<Rightarrow> database \<Rightarrow> (reply \<times> admin_body) \<times> database" where
  "set_status env tenantId st r d =
     (if \<not> ae_uuid env tenantId then (internal_error r, d)
      else (case setTenantStatus tenantId st d of
              (d', None) \<Rightarrow> (notFound r, d')
            | (d', Some tenant) \<Rightarrow> (sent_json 200 (ATenant tenant) r, d')))"

definition get_keys :: "'r admin_env \<Rightarrow> string \<Rightarrow> reply \<Rightarrow> database \<Rightarrow> reply \<times> admin_body" where
  "get_keys env tenantId r d =
     (if \<not> ae_uuid env tenantId then internal_error r
      else case findTenantById tenantId d of
        None \<Rightarrow> notFound r
      | Some _ \<Rightarrow> sent_json 200 (AKeys (listApiKeysForTenant tenantId d)) r)"

definition post_key :: "'r admin_env \<Rightarrow> string \<Rightarrow> key_input option \<Rightarrow> reply \<Rightarrow> database \<Rightarrow> (reply \<times> admin_body) \<times> database" where
  "post_key env tenantId parsed r d =
     (if \<not> ae_uuid env tenantId then (internal_error r, d)
      else case findTenantById tenantId d of
        None \<Rightarrow> (notFound r, d)
      | Some _ \<Rightarrow>
          (case parsed of
             None \<Rightarrow> (sendValidationError r, d)
           | Some k \<Rightarrow>
               (case createApiKey (ae_sha256 env) (ae_secret env) (ae_new_id env) (ae_now env) tenantId (ki_name k) (ki_scopes k)
                       (ki_expiresAt k) d of
                  Inl _ \<Rightarrow> (internal_error r, d)
                | Inr (d', key) \<Rightarrow> (sent_json 201 (ACreated key) r, d'))))"

text \<open>The key cache is deleted after the statement; if Redis rejects, the revocation stands.\<close>

definition delete_key :: "'r admin_env \<Rightarrow> string \<Rightarrow> reply \<Rightarrow> database \<Rightarrow> key_cache option
    \<Rightarrow> (reply \<times> admin_body) \<times> database \<times> key_cache option" where
  "delete_key env keyId r d keys =
     (if \<not> ae_uuid env keyId then (internal_error r, d, keys)
      else (case revokeApiKey keyId (ae_now env) d of
              (d', None) \<Rightarrow> (notFound r, d', keys)
            | (d', Some hash) \<Rightarrow>
                (case keys of
                   None \<Rightarrow> (sent_json 204 AEmpty r, d', None)
                 | Some m \<Rightarrow>
                     if ae_del_ok env then (sent_json 204 AEmpty r, d', Some (m(apiKeyCacheKey hash := None)))
                     else (internal_error r, d', Some m))))"

text \<open>\<open>purgeCache\<close> of \<open>server.ts\<close>: \<open>None\<close> is \<open>undefined\<close>, \<open>Inl\<close> a rejected Redis command.\<close>

definition purgeCache :: "'r admin_env \<Rightarrow> string \<Rightarrow> string option \<Rightarrow> 'r server \<Rightarrow> (unit + nat) option \<times> 'r server" where
  "purgeCache env routeId path s =
     (let prefix = cacheKeyPrefix (ae_sha256 env) routeId path in
      case map_of (rt_cacheStores (sv_runtime s)) routeId of
        None \<Rightarrow> (None, s)
      | Some (LocalCache es) \<Rightarrow>
          (let (es', n) = mc_deleteByPrefix es (ae_now env) prefix
           in (Some (Inr n), s\<lparr>sv_runtime := put_cache routeId (LocalCache es') (sv_runtime s)\<rparr>))
      | Some SharedCache \<Rightarrow>
          (case rd_deleteByPrefix (ae_redis env) (sv_redis s) prefix of
             Inl e \<Rightarrow> (Some (Inl e), s)
           | Inr (r', n) \<Rightarrow> (Some (Inr n), s\<lparr>sv_redis := r'\<rparr>)))"

definition delete_cache :: "'r admin_env \<Rightarrow> (string \<times> string option) option \<Rightarrow> reply \<Rightarrow> 'r server \<Rightarrow> (reply \<times> admin_body) \<times> 'r server" where
  "delete_cache env parsed r s =
     (case parsed of
        None \<Rightarrow> (sendValidationError r, s)
      | Some (routeId, path) \<Rightarrow>
          (case purgeCache env routeId path s of
             (None, s') \<Rightarrow> (notFound r, s')
           | (Some (Inl _), s') \<Rightarrow> (internal_error r, s')
           | (Some (Inr n), s') \<Rightarrow> (sent_json 200 (APurged routeId path n) r, s')))"

definition get_usage :: "'r admin_env \<Rightarrow> string option \<Rightarrow> number option option \<Rightarrow> reply \<Rightarrow> reply \<times> admin_body" where
  "get_usage env tenantId sinceHours r =
     (let bad = (case tenantId of Some t \<Rightarrow> t \<noteq> [] \<and> \<not> ae_uuid env t | None \<Rightarrow> False) in
      if bad \<or> sinceHours = Some None then internal_error r
      else sent_json 200 (AUsage (getUsageSummary (ae_avg env) (ae_p99 env) (ae_now env) tenantId
             (case sinceHours of Some h \<Rightarrow> h | None \<Rightarrow> None) (ae_usage env))) r)"

text \<open>\<open>deps.db\<close> is the pool; the routes exist only when there is one.\<close>

definition admin_call_step :: "'r admin_env \<Rightarrow> admin_call \<Rightarrow> reply \<Rightarrow> database \<Rightarrow> 'r server \<Rightarrow> (reply \<times> admin_body) \<times> 'r server" where
  "admin_call_step env call r d s =
     (let save = (\<lambda>(res, d'). (res, s\<lparr>sv_db := Some d'\<rparr>)) in
      case call of
        PostPlan parsed \<Rightarrow> save (post_plan env parsed r d)
      | GetPlans \<Rightarrow> (sent_json 200 (APlans (listPlans (ae_collation env) d)) r, s)
      | PostTenant parsed \<Rightarrow> save (post_tenant env parsed r d)
      | GetTenants \<Rightarrow> (sent_json 200 (ATenants (listTenants d)) r, s)
      | PostSuspend i \<Rightarrow> save (set_status env i ''suspended'' r d)
      | PostActivate i \<Rightarrow> save (set_status env i ''active'' r d)
      | GetKeys i \<Rightarrow> (get_keys env i r d, s)
      | PostKey i parsed \<Rightarrow> save (post_key env i parsed r d)
      | DeleteKey i \<Rightarrow> (case delete_key env i r d (sv_keys s) of (res, d', keys') \<Rightarrow> (res, s\<lparr>sv_db := Some d', sv_keys := keys'\<rparr>))
      | DeleteCache parsed \<Rightarrow> delete_cache env parsed r s
      | GetUsage t h \<Rightarrow> (get_usage env t h r, s))"

text \<open>The routes behind the token hook.\<close>

definition registerAdminRoutes :: "'r admin_env \<Rightarrow> string \<Rightarrow> headers \<Rightarrow> admin_call \<Rightarrow> database \<Rightarrow> 'r server \<Rightarrow> (reply \<times> admin_body) \<times> 'r server" where
  "registerAdminRoutes env token hs call d s =
     (let r = requireAdminToken (ae_sha256 env) token hs empty_answer in
      if r_sent r \<noteq> None then ((r, AError), s) else admin_call_step env call r d s)"

section \<open>The command-line tools\<close>

text \<open>
  \<open>scripts/revoke-key.ts\<close>: \<open>None\<close> is an exception, otherwise whether a key was revoked. Its Redis client
  queues commands while offline, so a command either succeeds or raises.
\<close>

definition revoke_key_main :: "bool \<Rightarrow> number \<Rightarrow> string \<Rightarrow> database \<Rightarrow> key_cache option \<Rightarrow> bool option \<times> database \<times> key_cache option" where
  "revoke_key_main del_ok now keyId d keys =
     (case revokeApiKey keyId now d of
        (d', None) \<Rightarrow> (Some False, d', keys)
      | (d', Some hash) \<Rightarrow>
          (case keys of
             None \<Rightarrow> (Some True, d', None)
           | Some m \<Rightarrow> if del_ok then (Some True, d', Some (m(apiKeyCacheKey hash := None))) else (None, d', Some m)))"

text \<open>\<open>scripts/seed.ts\<close>.\<close>

definition ensurePlan :: "string \<Rightarrow> string \<Rightarrow> number \<Rightarrow> number \<Rightarrow> number \<Rightarrow> database \<Rightarrow> db_error + database \<times> plan_row" where
  "ensurePlan new_id name rate win bst d =
     (case findPlanByName name d of
        Some existing \<Rightarrow> Inr (d, existing)
      | None \<Rightarrow> createPlan new_id name rate win bst None d)"

definition seed_main :: "(string \<Rightarrow> string) \<Rightarrow> string \<Rightarrow> (nat \<Rightarrow> string) \<Rightarrow> number \<Rightarrow> database \<Rightarrow> db_error + database \<times> created_key" where
  "seed_main sha256 secret ids now d =
     (case ensurePlan (ids 0) ''free'' 100 60 20 d of
        Inl e \<Rightarrow> Inl e
      | Inr (d, free) \<Rightarrow>
          (case ensurePlan (ids 1) ''pro'' 1000 60 200 d of
             Inl e \<Rightarrow> Inl e
           | Inr (d, pro) \<Rightarrow>
               (case createTenant (ids 2) now ''demo-tenant'' (pl_id free) d of
                  Inl e \<Rightarrow> Inl e
                | Inr (d, tenant) \<Rightarrow> createApiKey sha256 secret (ids 3) now (tn_id tenant) (Some ''seed key'') None None d)))"

section \<open>Who may do what\<close>

lemma requireAdminToken_refuses:
  assumes "\<forall>t. sha256 t = sha256 token \<longrightarrow> t = token" "extractBearerToken (authorization_header hs) \<noteq> Some token"
  shows "requireAdminToken sha256 token hs r = send_error 401 ''unauthorized'' r"
  using assms by (auto simp: requireAdminToken_def authorization_header_def verifyAdminToken_def split: option.splits)

lemma map_absent:
  "js_find (\<lambda>t. tn_id t = i) (map (\<lambda>t. if tn_id t = i then t\<lparr>tn_status := st\<rparr> else t) ts) = None \<Longrightarrow>
     map (\<lambda>t. if tn_id t = i then t\<lparr>tn_status := st\<rparr> else t) ts = ts"
  by (induction ts) (simp_all del: js_find_None split: if_splits)

lemma set_absent_status:
  assumes "findTenantById i (fst (setTenantStatus i st d)) = None"
  shows "fst (setTenantStatus i st d) = d"
  using map_absent [of i st "tenants d"] assms by (simp add: setTenantStatus_def findTenantById_def Let_def del: js_find_None)

lemma revoke_absent: "snd (revokeApiKey i now d) = None \<Longrightarrow> fst (revokeApiKey i now d) = d"
proof -
  assume "snd (revokeApiKey i now d) = None"
  then have "\<forall>k \<in> set (api_keys d). \<not> (ak_id k = i \<and> ak_revoked_at k = None)" by (simp add: revokeApiKey_def Let_def)
  then have "map (\<lambda>k. if ak_id k = i \<and> ak_revoked_at k = None then k\<lparr>ak_revoked_at := Some now\<rparr> else k) (api_keys d) = api_keys d"
    by (intro map_idI) auto
  then show ?thesis by (simp add: revokeApiKey_def Let_def)
qed

definition failed :: "(reply \<times> admin_body) \<Rightarrow> bool" where
  "failed res \<longleftrightarrow> (\<exists>r. r_sent (fst res) = Some r \<and> 400 \<le> status r)"

lemma failed_simps [simp]:
  "failed (notFound r)" "failed (sendValidationError r)" "failed (internal_error r)" "failed (sent_json st b r) \<longleftrightarrow> 400 \<le> st"
  by (simp_all add: failed_def notFound_def sendValidationError_def internal_error_def sent_json_def)

lemma failed_unchanged:
  "post_plan env pp r d = (res, d') \<Longrightarrow> failed res \<Longrightarrow> d' = d"
  "post_tenant env pt r d = (res, d') \<Longrightarrow> failed res \<Longrightarrow> d' = d"
  "post_key env i pk r d = (res, d') \<Longrightarrow> failed res \<Longrightarrow> d' = d"
  by (auto simp: post_plan_def post_tenant_def post_key_def split: if_splits option.splits sum.splits prod.splits)

lemma failed_status: "set_status env i st r d = (res, d') \<Longrightarrow> failed res \<Longrightarrow> d' = d"
  using set_absent_status [of i st d]
  by (auto simp: set_status_def setTenantStatus_def Let_def split: if_splits option.splits prod.splits)

lemma failed_delete: "delete_key env i r d keys = (res, d', keys') \<Longrightarrow> failed res \<Longrightarrow> ae_del_ok env \<Longrightarrow> d' = d \<and> keys' = keys"
  using revoke_absent [of i "ae_now env" d]
  by (auto simp: delete_key_def split: if_splits option.splits prod.splits)

lemma failed_purge: "delete_cache env parsed r s = (res, s') \<Longrightarrow> failed res \<Longrightarrow> s' = s"
  by (auto simp: delete_cache_def purgeCache_def Let_def split: option.splits prod.splits sum.splits cache_backend.splits)

lemma failed_call:
  assumes "admin_call_step env call r d s = (res, s')" "failed res" "ae_del_ok env \<or> (\<forall>i. call \<noteq> DeleteKey i)" "sv_db s = Some d"
  shows "s' = s"
proof -
  have same: "s\<lparr>sv_db := Some d\<rparr> = s" "s\<lparr>sv_db := Some d, sv_keys := sv_keys s\<rparr> = s" using assms(4) by simp_all
  note eq = assms(1) [unfolded admin_call_step_def Let_def]
  show ?thesis
  proof (cases call)
    case (PostPlan pp)
    with eq assms(2) same show ?thesis by (auto split: prod.splits dest: failed_unchanged(1))
  next
    case (PostTenant pt)
    with eq assms(2) same show ?thesis by (auto split: prod.splits dest: failed_unchanged(2))
  next
    case (PostKey i pk)
    with eq assms(2) same show ?thesis by (auto split: prod.splits dest: failed_unchanged(3))
  next
    case (PostSuspend i)
    with eq assms(2) same show ?thesis by (auto split: prod.splits dest: failed_status)
  next
    case (PostActivate i)
    with eq assms(2) same show ?thesis by (auto split: prod.splits dest: failed_status)
  next
    case (DeleteKey i)
    with eq assms(2,3) same show ?thesis by (auto split: prod.splits dest: failed_delete)
  next
    case (DeleteCache parsed)
    with eq assms(2) failed_purge show ?thesis by simp
  qed (use eq in auto)
qed


section \<open>A key from creation to use\<close>

lemma bearer_header:
  assumes "token \<noteq> []" "CHR '' '' \<notin> set token"
  shows "extractBearerToken (authorization_header [(''authorization'', HText (''Bearer '' @ token))]) = Some token"
proof -
  have "js_lower ''Bearer'' = ''bearer''" by code_simp
  from extractBearerToken_roundtrip [OF this _ assms] show ?thesis by (simp add: authorization_header_def)
qed

lemma created_key_found:
  assumes "createApiKey h secret i now tenantId name scopes expires d = Inr (d', key)" "db_wf d"
    and "t \<in> set (tenants d)" "tn_id t = tenantId" "tn_status t = ''active''" "tn_plan_id t \<in> set (map pl_id (plans d))"
    and "\<forall>e. expires = Some e \<longrightarrow> later < e"
  shows "\<exists>a. findActiveApiKeyWithPlan (h (ck_raw key)) later d' = Some a \<and> act_tenantId a = tenantId
    \<and> act_scopes a = (case scopes of Some s \<Rightarrow> s | None \<Rightarrow> []) \<and> act_keyHash a = h (ck_raw key)"
proof -
  let ?g = "generateApiKey h secret"
  let ?row = "\<lparr>ak_id = i, ak_tenant_id = tenantId, ak_key_hash = key_hash ?g, ak_key_prefix = key_prefix ?g, ak_name = name,
    ak_scopes = (case scopes of Some s \<Rightarrow> s | None \<Rightarrow> []), ak_last_used_at = None, ak_expires_at = expires,
    ak_revoked_at = None, ak_created_at = now\<rparr>"
  have d': "d' = d\<lparr>api_keys := api_keys d @ [?row]\<rparr>" and fresh: "key_hash ?g \<notin> set (map ak_key_hash (api_keys d))"
    and raw: "h (ck_raw key) = key_hash ?g"
    using assms(1) by (auto simp: createApiKey_def generateApiKey_def hashApiKey_def Let_def split: if_splits)
  obtain p where p: "p \<in> set (plans d)" "pl_id p = tn_plan_id t" using assms(6) by auto
  have "?row \<in> set (api_keys d')" "ak_key_hash ?row = key_hash ?g" "t \<in> set (tenants d')" "tn_id t = ak_tenant_id ?row"
    "p \<in> set (plans d')" "pl_id p = tn_plan_id t" "active_row later ?row t"
    using d' assms(3-5,7) p by (auto simp: active_row_def split: option.splits)
  then have "(?row, t, p) \<in> set (joined_rows (key_hash ?g) later d')" unfolding joined_rows_iff by blast
  then obtain a where a: "findActiveApiKeyWithPlan (key_hash ?g) later d' = Some a"
    using findActive_None [of "key_hash ?g" later d'] by (cases "findActiveApiKeyWithPlan (key_hash ?g) later d'") auto
  from findActive_Some [OF a] obtain k where k: "k \<in> set (api_keys d')" "ak_key_hash k = key_hash ?g"
    "act_tenantId a = ak_tenant_id k" "act_scopes a = ak_scopes k" "act_keyHash a = key_hash ?g" by blast
  from k(1,2) fresh have "k = ?row" unfolding d' by (auto simp: image_iff)
  with a k raw show ?thesis by simp
qed

text \<open>
  C26: the key the operator is shown works: after \<open>POST /admin/tenants/:id/keys\<close> for an active tenant with a
  plan, a request that carries the raw key of the reply as its bearer token is accepted on every API key
  route, as that tenant and with the scopes asked for, until the key expires.
\<close>

theorem created_key_authenticates:
  assumes "registerAdminRoutes env token hs (PostKey tenantId (Some k)) d s = ((r, ACreated key), s')" "sv_db s' = Some d'" "db_wf d"
    and "t \<in> set (tenants d)" "tn_id t = tenantId" "tn_status t = ''active''" "tn_plan_id t \<in> set (map pl_id (plans d))"
    and "CHR '' '' \<notin> set (ae_secret env)" "\<forall>e. ki_expiresAt k = Some e \<longrightarrow> later < e" "auth route = AuthApiKey"
  shows "\<exists>au r'. authenticateRequest (ae_sha256 env) jv later g st route
      [(''authorization'', HText (''Bearer '' @ ck_raw key))] (Some d') None reply = (au, reply, r')
    \<and> ok au \<and> o_tenantId au = Some tenantId \<and> o_scopes au = (case ki_scopes k of Some sc \<Rightarrow> sc | None \<Rightarrow> [])"
proof -
  have c: "createApiKey (ae_sha256 env) (ae_secret env) (ae_new_id env) (ae_now env) tenantId (ki_name k) (ki_scopes k)
      (ki_expiresAt k) d = Inr (d', key)"
    using assms(1,2) by (auto simp: registerAdminRoutes_def admin_call_step_def post_key_def internal_error_def notFound_def
        sent_json_def Let_def split: if_splits option.splits sum.splits prod.splits)
  from created_key_found [OF c assms(3-7,9)] obtain a where a:
    "findActiveApiKeyWithPlan (ae_sha256 env (ck_raw key)) later d' = Some a" "act_tenantId a = tenantId"
    "act_scopes a = (case ki_scopes k of Some s \<Rightarrow> s | None \<Rightarrow> [])" "act_keyHash a = ae_sha256 env (ck_raw key)" by blast
  have "ck_raw key = KEY_PREFIX @ ae_secret env"
    using c by (auto simp: createApiKey_def generateApiKey_def Let_def split: if_splits)
  then have "ck_raw key \<noteq> []" "CHR '' '' \<notin> set (ck_raw key)" using assms(8) by (auto simp: KEY_PREFIX_def)
  note token = bearer_header [OF this]
  have "verifyApiKeyHash (ae_sha256 env) (ck_raw key) (act_keyHash a)"
    by (simp add: verifyApiKeyHash_def hashApiKey_def a(4) Let_def)
  with token a show ?thesis
    by (simp add: authenticateRequest_def assms(10) lookupApiKey_def cache_answer_def hashApiKey_def Let_def)
qed

section \<open>Purging\<close>

lemma purged_local:
  assumes "registerAdminRoutes env token hs (DeleteCache (Some (routeId, path))) d s = ((r, APurged rid p n), s')"
    and "map_of (rt_cacheStores (sv_runtime s)) routeId = Some (LocalCache es)"
  shows "map_of (rt_cacheStores (sv_runtime s')) routeId
      = Some (LocalCache (fst (mc_deleteByPrefix es (ae_now env) (cacheKeyPrefix (ae_sha256 env) routeId path))))
    \<and> (\<forall>other. other \<noteq> routeId \<longrightarrow> map_of (rt_cacheStores (sv_runtime s')) other = map_of (rt_cacheStores (sv_runtime s)) other)"
  using assms
  by (auto simp: registerAdminRoutes_def admin_call_step_def delete_cache_def purgeCache_def sent_json_def notFound_def
      internal_error_def put_cache_def update_conv' Let_def split: if_splits option.splits sum.splits prod.splits)

text \<open>
  C37: a purge empties what it names and nothing else: after \<open>DELETE /admin/cache?routeId=..&path=..\<close> on a route
  with an in-process cache, no request for that path (or, without a path, for that route) finds a cached
  response, whatever its query, tenant, host or headers; entries of other paths and routes stay.
\<close>

theorem purge_effective:
  assumes "registerAdminRoutes env token hs (DeleteCache (Some (routeId, path))) d s = ((r, APurged rid p n), s')"
    and "map_of (rt_cacheStores (sv_runtime s)) routeId = Some (LocalCache es)" "distinct (map fst es)"
    and "hex_output (ae_sha256 env)" "\<forall>q. path = Some q \<longrightarrow> no_collision (ae_sha256 env) (url_path url) q"
    and "route_id route = routeId"
  shows "\<exists>es'. map_of (rt_cacheStores (sv_runtime s')) routeId = Some (LocalCache es')
    \<and> mc_live es' later (buildCacheKey (ae_sha256 env) route verb url hs' tenant host)
        = (if \<forall>q. path = Some q \<longrightarrow> url_path url = q then None
           else mc_live es later (buildCacheKey (ae_sha256 env) route verb url hs' tenant host))
    \<and> (\<forall>other. other \<noteq> routeId \<longrightarrow> map_of (rt_cacheStores (sv_runtime s')) other = map_of (rt_cacheStores (sv_runtime s)) other)"
proof -
  let ?p = "cacheKeyPrefix (ae_sha256 env) routeId path"
  let ?k = "buildCacheKey (ae_sha256 env) route verb url hs' tenant host"
  have "mc_live (fst (mc_deleteByPrefix es (ae_now env) ?p)) later ?k = (if js_starts_with ?k ?p then None else mc_live es later ?k)"
    using mc.del_live assms(3) unfolding mc_wf_def by simp
  moreover have "js_starts_with ?k ?p \<longleftrightarrow> (\<forall>q. path = Some q \<longrightarrow> url_path url = q)"
    using key_has_prefix [OF assms(4,5)] assms(6) by simp
  ultimately show ?thesis using purged_local [OF assms(1,2)] by auto
qed

section \<open>A revocation that cannot be repeated\<close>

lemma revoke_twice: "revokeApiKey i now (fst (revokeApiKey i now d)) = (fst (revokeApiKey i now d), None)"
proof -
  have "js_find (\<lambda>k. ak_id k = i \<and> ak_revoked_at k = None)
      (map (\<lambda>k. if ak_id k = i \<and> ak_revoked_at k = None then k\<lparr>ak_revoked_at := Some now\<rparr> else k) ks) = None" for ks
    by (induction ks) (simp_all del: js_find_None)
  then have "snd (revokeApiKey i now (fst (revokeApiKey i now d))) = None" by (simp add: revokeApiKey_def Let_def del: js_find_None)
  with revoke_absent [OF this] show ?thesis by (intro prod_eqI) simp_all
qed

text \<open>
  If Redis fails after the statement of a revocation, the operator sees a 500 and can do nothing: the
  second attempt is a 404, because the key is already revoked in the database, and never reaches the
  cache; the cached record goes on being accepted until it expires.
\<close>

theorem revocation_not_retriable:
  assumes "ae_uuid env i" "\<not> ae_del_ok env" "sv_keys s = Some m" "revokeApiKey i (ae_now env) d = (d', Some hash)"
    and "admin_call_step env (DeleteKey i) r d s = (first, s1)" "sv_db s1 = Some d1"
    and "admin_call_step (env\<lparr>ae_del_ok := True\<rparr>) (DeleteKey i) r d1 s1 = (second, s2)"
  shows "first = internal_error r \<and> second = notFound r \<and> sv_keys s2 = Some m
    \<and> (\<forall>now. cache_answer (sv_keys s2) True now hash = cache_answer (Some m) True now hash)"
proof -
  have one: "first = internal_error r" "s1 = s\<lparr>sv_db := Some d', sv_keys := Some m\<rparr>"
    using assms(1-5) by (auto simp: admin_call_step_def delete_key_def)
  then have d1: "d1 = d'" using assms(6) by simp
  have "d' = fst (revokeApiKey i (ae_now env) d)" using assms(4) by simp
  then have "revokeApiKey i (ae_now env) d1 = (d', None)" unfolding d1 by (simp only: revoke_twice)
  then have "second = notFound r" "sv_keys s2 = Some m"
    using assms(1,7) one by (auto simp: admin_call_step_def delete_key_def)
  with one show ?thesis by simp
qed

section \<open>Witnesses\<close>

text \<open>An injective colon-free function stands for the hash; Redis is failing.\<close>

definition office :: "unit admin_env" where
  "office = \<lparr>ae_sha256 = encodeURIComponent, ae_secret = ''s3'', ae_new_id = ''n'', ae_now = 5, ae_uuid = \<lambda>_. True,
     ae_collation = \<lambda>_. 0, ae_del_ok = False, ae_redis = se_redis quiet_env, ae_usage = [], ae_avg = \<lambda>_. None, ae_p99 = \<lambda>_. None\<rparr>"

abbreviation operator_headers :: headers where
  "operator_headers \<equiv> [(''authorization'', HText (''Bearer '' @ ''tok''))]"

lemma office_simps [simp]:
  "ae_sha256 office = encodeURIComponent" "ae_secret office = ''s3''" "ae_new_id office = ''n''" "ae_now office = 5"
  "ae_uuid office i" "\<not> ae_del_ok office"
  by (simp_all add: office_def)

lemma operator_admitted: "registerAdminRoutes office ''tok'' operator_headers call d s = admin_call_step office call empty_answer d s"
proof -
  have "extractBearerToken (authorization_header operator_headers) = Some ''tok''" by (rule bearer_header) simp_all
  then show ?thesis
    by (simp add: registerAdminRoutes_def requireAdminToken_def authorization_header_def verifyAdminToken_def empty_answer_def)
qed


lemma created_key_authenticates_witness:
  "\<exists>au r'. authenticateRequest encodeURIComponent (\<lambda>_ _ _ _. None) 9 True True key_route
      [(''authorization'', HText (''Bearer '' @ ''ag_live_s3''))]
      (sv_db (snd (registerAdminRoutes office ''tok'' operator_headers
        (PostKey ''t'' (Some \<lparr>ki_name = None, ki_scopes = Some [''read''], ki_expiresAt = None\<rparr>)) small_db (small_server []))))
      None empty_answer = (au, empty_answer, r') \<and> ok au \<and> o_scopes au = [''read'']"
proof -
  let ?k = "\<lparr>ki_name = None, ki_scopes = Some [''read''], ki_expiresAt = None\<rparr>"
  let ?key = "\<lparr>ck_raw = ''ag_live_s3'', ck_id = ''n'', ck_prefix = take 12 ''ag_live_s3''\<rparr>"
  have "encodeURIComponent ''ag_live_s3'' \<noteq> ''00ff''" by code_simp
  then obtain d' where c: "createApiKey encodeURIComponent ''s3'' ''n'' 5 ''t'' None (Some [''read'']) None small_db = Inr (d', ?key)"
    by (simp add: createApiKey_def generateApiKey_def hashApiKey_def KEY_PREFIX_def Let_def)
  then have e: "registerAdminRoutes office ''tok'' operator_headers (PostKey ''t'' (Some ?k)) small_db (small_server [])
      = ((status_sent 201 empty_answer, ACreated ?key), (small_server [])\<lparr>sv_db := Some d'\<rparr>)"
    unfolding operator_admitted by (simp add: admin_call_step_def post_key_def findTenantById_def sent_json_def)
  have d: "sv_db ((small_server [])\<lparr>sv_db := Some d'\<rparr>) = Some d'" by simp
  from created_key_authenticates [OF e d, of "hd (tenants small_db)" 9 key_route "\<lambda>_ _ _ _. None" True True empty_answer]
  show ?thesis
    unfolding e by (simp add: db_wf_def) blast
qed

definition stocked :: "unit server" where
  "stocked = (small_server [shop_route])\<lparr>sv_runtime := put_cache ''r'' (LocalCache [(buildCacheKey encodeURIComponent shop_route ''GET'' ''/i'' []
     None None, \<lparr>e_response = shop_response, expiresAt = 60005\<rparr>)]) (buildRuntimeState (small_config [shop_route]) False)\<rparr>"

lemma purge_effective_witness:
  "\<exists>(s' :: unit server) es'. map_of (rt_cacheStores (sv_runtime s')) ''r'' = Some (LocalCache es')
     \<and> mc_live es' 9 (buildCacheKey encodeURIComponent shop_route ''GET'' ''/i?x'' [] None None) = None"
proof -
  let ?es = "[(buildCacheKey encodeURIComponent shop_route ''GET'' ''/i'' [] None None, \<lparr>e_response = shop_response, expiresAt = 60005\<rparr>)]"
  have m: "map_of (rt_cacheStores (sv_runtime stocked)) ''r'' = Some (LocalCache ?es)"
    by (simp add: stocked_def put_cache_def update_conv')
  obtain es' n where del: "mc_deleteByPrefix ?es 5 (cacheKeyPrefix encodeURIComponent ''r'' (Some ''/i'')) = (es', n)"
    by (metis prod.exhaust)
  have e: "registerAdminRoutes office ''tok'' operator_headers (DeleteCache (Some (''r'', Some ''/i''))) small_db stocked
      = ((status_sent 200 empty_answer, APurged ''r'' (Some ''/i'') n),
         stocked\<lparr>sv_runtime := put_cache ''r'' (LocalCache es') (sv_runtime stocked)\<rparr>)"
    unfolding operator_admitted by (simp add: admin_call_step_def delete_cache_def purgeCache_def m del sent_json_def Let_def)
  have p: "url_path ''/i?x'' = ''/i''" by code_simp
  let ?s = "stocked\<lparr>sv_runtime := put_cache ''r'' (LocalCache es') (sv_runtime stocked)\<rparr>"
  from purge_effective [OF e m, where route = shop_route and url = "''/i?x''" and verb = "''GET''" and hs' = "[]" and tenant = None
      and host = None and later = 9] p
  have "\<exists>es'. map_of (rt_cacheStores (sv_runtime ?s)) ''r'' = Some (LocalCache es')
      \<and> mc_live es' 9 (buildCacheKey encodeURIComponent shop_route ''GET'' ''/i?x'' [] None None) = None"
    by (auto simp: encode_hash)
  then show ?thesis by blast
qed

lemma revocation_not_retriable_witness:
  "\<exists>s1 d1. fst (admin_call_step office (DeleteKey ''k'') empty_answer small_db ((small_server [])\<lparr>sv_keys := Some Map.empty\<rparr>)) = internal_error empty_answer
     \<and> fst (admin_call_step (office\<lparr>ae_del_ok := True\<rparr>) (DeleteKey ''k'') empty_answer d1 s1) = notFound empty_answer"
proof -
  obtain d' where rv: "revokeApiKey ''k'' 5 small_db = (d', Some ''00ff'')"
    by (rule that [of "fst (revokeApiKey ''k'' 5 small_db)"]) (simp add: revokeApiKey_def Let_def)
  let ?s = "(small_server [])\<lparr>sv_keys := Some Map.empty\<rparr>"
  obtain first s1 where one: "admin_call_step office (DeleteKey ''k'') empty_answer small_db ?s = (first, s1)"
    by (metis prod.exhaust)
  then have db: "sv_db s1 = Some d'" by (auto simp: admin_call_step_def delete_key_def rv)
  obtain second s2 where two: "admin_call_step (office\<lparr>ae_del_ok := True\<rparr>) (DeleteKey ''k'') empty_answer d' s1 = (second, s2)"
    by (metis prod.exhaust)
  have "revokeApiKey ''k'' (ae_now office) small_db = (d', Some ''00ff'')" using rv by simp
  from revocation_not_retriable [OF _ _ _ this one db two, of Map.empty] one two show ?thesis
    by (intro exI [of _ s1] exI [of _ d']) simp
qed

end
