(* ===== verification/Redis.thy ===== *)
theory Redis
  imports Http "HOL-Library.Product_Lexorder" "HOL-Library.List_Lexorder" "HOL-Library.Char_ord"
begin

text \<open>
  The Redis server the gateway talks to. It is a parameter: a record of the commands that the Lua scripts
  and the response cache use, on whatever state the server keeps. \<open>behaves\<close> states what its documentation
  says of them; everything proved of the stores is proved for any server that behaves so. \<open>rt\<close> is the
  server's clock, fixed during a script.
\<close>

section \<open>The commands\<close>

text \<open>
  What the response cache stores: the text that \<open>JSON.stringify\<close> makes of a \<open>SerializedResponse\<close>, which
  \<open>JSON.parse\<close> gives back.
\<close>

record serialized_response =
  sr_statusCode :: nat
  sr_headers :: headers
  sr_body :: string

text \<open>A command changes the server's state and answers, or raises; \<open>rbind\<close> runs two in sequence.\<close>

type_synonym ('d, 'a) redis = "'d \<Rightarrow> 'd \<times> (unit + 'a)"

definition rreturn :: "'a \<Rightarrow> ('d, 'a) redis" where
  "rreturn a = (\<lambda>db. (db, Inr a))"

definition rbind :: "('d, 'a) redis \<Rightarrow> ('a \<Rightarrow> ('d, 'b) redis) \<Rightarrow> ('d, 'b) redis" where
  "rbind m f = (\<lambda>db. case m db of (db', Inl e) \<Rightarrow> (db', Inl e) | (db', Inr a) \<Rightarrow> f a db')"

text \<open>
  Field values and scores as numbers: Redis prints a Lua number with 17 digits, from which the script
  reads the same number again.
\<close>

record 'd redis_client =
  hmget :: "number \<Rightarrow> string \<Rightarrow> string list \<Rightarrow> ('d, number option list) redis"
  hset :: "number \<Rightarrow> string \<Rightarrow> (string \<times> number) list \<Rightarrow> ('d, unit) redis"
  pexpire :: "number \<Rightarrow> string \<Rightarrow> number \<Rightarrow> ('d, unit) redis"
  zremrangebyscore :: "number \<Rightarrow> string \<Rightarrow> number \<Rightarrow> ('d, unit) redis"
  zrange :: "number \<Rightarrow> string \<Rightarrow> ('d, (number \<times> string) list) redis"
  zadd :: "number \<Rightarrow> string \<Rightarrow> number \<Rightarrow> string \<Rightarrow> ('d, unit) redis"
  incr :: "number \<Rightarrow> string \<Rightarrow> ('d, nat) redis"
  redis_del :: "number \<Rightarrow> string list \<Rightarrow> ('d, nat) redis"
  redis_get :: "number \<Rightarrow> string \<Rightarrow> ('d, serialized_response option) redis"
  set_ex :: "number \<Rightarrow> string \<Rightarrow> serialized_response \<Rightarrow> number \<Rightarrow> ('d, unit) redis"

section \<open>The keyspace of the documentation\<close>

text \<open>
  Keys with a value of one type and an optional time to live; a key is gone once the clock has passed its
  expiry. A sorted set has its members by score and then by name, a counter is the string that \<open>INCR\<close>
  keeps. A command on a key of another type is a \<open>WRONGTYPE\<close> error; what a script did before an error
  stays done.
\<close>

datatype redis_value =
    RHash "string \<rightharpoonup> number"
  | RZset "(number \<times> string) list"
  | RCounter nat
  | RJson serialized_response

record redis_entry =
  re_value :: redis_value
  re_expires :: "number option"

type_synonym redis_db = "string \<rightharpoonup> redis_entry"

definition live :: "redis_db \<Rightarrow> number \<Rightarrow> string \<Rightarrow> redis_entry option" where
  "live db rt k =
     (case db k of
        None \<Rightarrow> None
      | Some e \<Rightarrow> (case re_expires e of Some x \<Rightarrow> if x < rt then None else Some e | None \<Rightarrow> Some e))"

lemma live_absent [simp]: "db k = None \<Longrightarrow> live db rt k = None"
  by (simp add: live_def)

lemma live_present: "db k = Some \<lparr>re_value = v, re_expires = Some x\<rparr> \<Longrightarrow>
    live db rt k = (if x < rt then None else Some \<lparr>re_value = v, re_expires = Some x\<rparr>)"
  by (simp add: live_def)

lemma live_upd [simp]: "live (db(k \<mapsto> e)) rt k' =
    (if k' = k then (case re_expires e of Some x \<Rightarrow> if x < rt then None else Some e | None \<Rightarrow> Some e) else live db rt k')"
  by (simp add: live_def)

lemma live_del [simp]: "live (db(k := None)) rt k' = (if k' = k then None else live db rt k')"
  by (simp add: live_def)

lemma live_cong: "db k = db' k \<Longrightarrow> live db rt k = live db' rt k"
  by (simp add: live_def)

lemma live_later: "live db rt k = None \<Longrightarrow> rt \<le> rt' \<Longrightarrow> live db rt' k = None"
  by (auto simp: live_def split: option.splits if_splits)

definition HMGET :: "number \<Rightarrow> string \<Rightarrow> string list \<Rightarrow> (redis_db, number option list) redis" where
  "HMGET rt k fs = (\<lambda>db.
     case live db rt k of
       None \<Rightarrow> (db, Inr (map (\<lambda>_. None) fs))
     | Some e \<Rightarrow> (case re_value e of RHash h \<Rightarrow> (db, Inr (map h fs)) | _ \<Rightarrow> (db, Inl ())))"

definition HSET :: "number \<Rightarrow> string \<Rightarrow> (string \<times> number) list \<Rightarrow> (redis_db, unit) redis" where
  "HSET rt k fvs = (\<lambda>db.
     let put = (\<lambda>h. fold (\<lambda>(f, v) h. h(f \<mapsto> v)) fvs h) in
     case live db rt k of
       None \<Rightarrow> (db(k \<mapsto> \<lparr>re_value = RHash (put Map.empty), re_expires = None\<rparr>), Inr ())
     | Some e \<Rightarrow> (case re_value e of RHash h \<Rightarrow> (db(k \<mapsto> e\<lparr>re_value := RHash (put h)\<rparr>), Inr ()) | _ \<Rightarrow> (db, Inl ())))"

text \<open>
  The milliseconds are printed with 17 digits: from \<open>10^17\<close> on, and for a fraction, the text is not an
  integer and the command fails.
\<close>

definition PEXPIRE :: "number \<Rightarrow> string \<Rightarrow> number \<Rightarrow> (redis_db, unit) redis" where
  "PEXPIRE rt k ms = (\<lambda>db.
     if of_int \<lfloor>ms\<rfloor> \<noteq> ms \<or> 10 ^ 17 \<le> \<bar>ms\<bar> then (db, Inl ())
     else (case live db rt k of
         None \<Rightarrow> (db, Inr ())
       | Some e \<Rightarrow> (db(k \<mapsto> e\<lparr>re_expires := Some (rt + ms)\<rparr>), Inr ())))"

text \<open>A sorted set without members does not exist.\<close>

definition ZREMRANGEBYSCORE :: "number \<Rightarrow> string \<Rightarrow> number \<Rightarrow> (redis_db, unit) redis" where
  "ZREMRANGEBYSCORE rt k hi = (\<lambda>db.
     case live db rt k of
       None \<Rightarrow> (db, Inr ())
     | Some e \<Rightarrow> (case re_value e of
           RZset z \<Rightarrow> (let z' = filter (\<lambda>(score, m). hi < score) z
                       in (if z' = [] then db(k := None) else db(k \<mapsto> e\<lparr>re_value := RZset z'\<rparr>), Inr ()))
         | _ \<Rightarrow> (db, Inl ())))"

definition ZRANGE :: "number \<Rightarrow> string \<Rightarrow> (redis_db, (number \<times> string) list) redis" where
  "ZRANGE rt k = (\<lambda>db.
     case live db rt k of
       None \<Rightarrow> (db, Inr [])
     | Some e \<Rightarrow> (case re_value e of RZset z \<Rightarrow> (db, Inr z) | _ \<Rightarrow> (db, Inl ())))"

definition ZADD :: "number \<Rightarrow> string \<Rightarrow> number \<Rightarrow> string \<Rightarrow> (redis_db, unit) redis" where
  "ZADD rt k score m = (\<lambda>db.
     case live db rt k of
       None \<Rightarrow> (db(k \<mapsto> \<lparr>re_value = RZset [(score, m)], re_expires = None\<rparr>), Inr ())
     | Some e \<Rightarrow> (case re_value e of
           RZset z \<Rightarrow> (db(k \<mapsto> e\<lparr>re_value := RZset (insort (score, m) (filter (\<lambda>(_, m'). m' \<noteq> m) z))\<rparr>), Inr ())
         | _ \<Rightarrow> (db, Inl ())))"

definition INCR :: "number \<Rightarrow> string \<Rightarrow> (redis_db, nat) redis" where
  "INCR rt k = (\<lambda>db.
     case live db rt k of
       None \<Rightarrow> (db(k \<mapsto> \<lparr>re_value = RCounter 1, re_expires = None\<rparr>), Inr 1)
     | Some e \<Rightarrow> (case re_value e of
           RCounter n \<Rightarrow> (db(k \<mapsto> e\<lparr>re_value := RCounter (n + 1)\<rparr>), Inr (n + 1))
         | _ \<Rightarrow> (db, Inl ())))"

definition DEL :: "number \<Rightarrow> string list \<Rightarrow> (redis_db, nat) redis" where
  "DEL rt ks = (\<lambda>db. (\<lambda>k. if k \<in> set ks then None else db k,
     Inr (length (filter (\<lambda>k. live db rt k \<noteq> None) (remdups ks)))))"

text \<open>\<open>GET\<close>, and \<open>SET key value EX seconds\<close>, which refuses seconds that are not a positive integer.\<close>

definition GET :: "number \<Rightarrow> string \<Rightarrow> (redis_db, serialized_response option) redis" where
  "GET rt k = (\<lambda>db.
     case live db rt k of
       None \<Rightarrow> (db, Inr None)
     | Some e \<Rightarrow> (case re_value e of RJson v \<Rightarrow> (db, Inr (Some v)) | _ \<Rightarrow> (db, Inl ())))"

definition SET_EX :: "number \<Rightarrow> string \<Rightarrow> serialized_response \<Rightarrow> number \<Rightarrow> (redis_db, unit) redis" where
  "SET_EX rt k v seconds = (\<lambda>db.
     if of_int \<lfloor>seconds\<rfloor> \<noteq> seconds \<or> seconds \<le> 0 then (db, Inl ())
     else (db(k \<mapsto> \<lparr>re_value = RJson v, re_expires = Some (rt + seconds * 1000)\<rparr>), Inr ()))"

lemmas redis_run = rbind_def rreturn_def HMGET_def HSET_def PEXPIRE_def ZREMRANGEBYSCORE_def ZRANGE_def ZADD_def INCR_def

definition documented :: "redis_db redis_client" where
  "documented = \<lparr>hmget = HMGET, hset = HSET, pexpire = PEXPIRE, zremrangebyscore = ZREMRANGEBYSCORE, zrange = ZRANGE,
     zadd = ZADD, incr = INCR, redis_del = DEL, redis_get = GET, set_ex = SET_EX\<rparr>"

lemma documented_simps [simp]:
  "hmget documented = HMGET" "hset documented = HSET" "pexpire documented = PEXPIRE"
  "zremrangebyscore documented = ZREMRANGEBYSCORE" "zrange documented = ZRANGE" "zadd documented = ZADD"
  "incr documented = INCR" "redis_del documented = DEL" "redis_get documented = GET" "set_ex documented = SET_EX"
  by (simp_all add: documented_def)

section \<open>A server that behaves as documented\<close>

text \<open>\<open>view\<close> reads the keyspace out of the server's state; a command does there what is documented.\<close>

definition serves :: "('d \<Rightarrow> redis_db) \<Rightarrow> ('d, 'a) redis \<Rightarrow> (redis_db, 'a) redis \<Rightarrow> bool" where
  "serves view m m' \<longleftrightarrow> (\<forall>d. m' (view d) = (view (fst (m d)), snd (m d)))"

definition behaves :: "'d redis_client \<Rightarrow> ('d \<Rightarrow> redis_db) \<Rightarrow> bool" where
  "behaves R view \<longleftrightarrow>
     (\<forall>rt k fs. serves view (hmget R rt k fs) (HMGET rt k fs))
     \<and> (\<forall>rt k fvs. serves view (hset R rt k fvs) (HSET rt k fvs))
     \<and> (\<forall>rt k ms. serves view (pexpire R rt k ms) (PEXPIRE rt k ms))
     \<and> (\<forall>rt k hi. serves view (zremrangebyscore R rt k hi) (ZREMRANGEBYSCORE rt k hi))
     \<and> (\<forall>rt k. serves view (zrange R rt k) (ZRANGE rt k))
     \<and> (\<forall>rt k x m. serves view (zadd R rt k x m) (ZADD rt k x m))
     \<and> (\<forall>rt k. serves view (incr R rt k) (INCR rt k))
     \<and> (\<forall>rt ks. serves view (redis_del R rt ks) (DEL rt ks))
     \<and> (\<forall>rt k. serves view (redis_get R rt k) (GET rt k))
     \<and> (\<forall>rt k v n. serves view (set_ex R rt k v n) (SET_EX rt k v n))"

lemma behaves_documented [simp]: "behaves documented id" "behaves documented (\<lambda>db. db)"
  by (simp_all add: behaves_def serves_def)

lemma serves_return: "serves view (rreturn a) (rreturn a)"
  by (simp add: serves_def rreturn_def)

lemma serves_bind:
  "serves view m m' \<Longrightarrow> (\<And>a. serves view (f a) (f' a)) \<Longrightarrow> serves view (rbind m f) (rbind m' f')"
  unfolding serves_def rbind_def by (auto split: prod.split sum.split)

lemma serves_let: "(\<And>x. serves view (f x) (f' x)) \<Longrightarrow> serves view (Let a f) (Let a f')"
  by (simp add: Let_def)

lemma serves_prod: "(\<And>a b. serves view (f a b) (f' a b)) \<Longrightarrow> serves view (case_prod f x) (case_prod f' x)"
  by (cases x) simp

lemma serves_if: "serves view m m' \<Longrightarrow> serves view n n' \<Longrightarrow> serves view (if P then m else n) (if P then m' else n')"
  by simp

lemmas serves_intros = serves_let serves_prod serves_if serves_bind serves_return

lemma servesD: "serves view m m' \<Longrightarrow> m' (view d) = (view (fst (m d)), snd (m d))"
  by (simp add: serves_def)

locale redis_server =
  fixes R :: "'d redis_client" and view :: "'d \<Rightarrow> redis_db"
  assumes as_documented: "behaves R view"
begin

lemma serves_command:
  "serves view (hmget R rt k fs) (HMGET rt k fs)" "serves view (hset R rt k fvs) (HSET rt k fvs)"
  "serves view (pexpire R rt k x) (PEXPIRE rt k x)" "serves view (zremrangebyscore R rt k x) (ZREMRANGEBYSCORE rt k x)"
  "serves view (zrange R rt k) (ZRANGE rt k)" "serves view (zadd R rt k x m) (ZADD rt k x m)"
  "serves view (incr R rt k) (INCR rt k)" "serves view (redis_del R rt ks) (DEL rt ks)"
  "serves view (redis_get R rt k) (GET rt k)" "serves view (set_ex R rt k v x) (SET_EX rt k v x)"
  using as_documented by (simp_all add: behaves_def)

end

interpretation keyspace: redis_server documented id
  by unfold_locales simp

end
