(* ===== verification/RedisScripts.thy ===== *)
theory RedisScripts
  imports Redis MemoryStore JsParse
begin

text \<open>
  The shared rate limit store: the Lua scripts of \<open>ratelimit/lua\<close> and \<open>stores/redisStore.ts\<close>, which
  registers one of them as a Redis command and calls it. Lua numbers are binary64 like JavaScript's; the
  arguments are safe integers, which pass through their decimal text unchanged. \<open>rt\<close> is the clock of
  the Redis server, \<open>now\<close> that of the calling instance.
\<close>

section \<open>Numbers in Lua\<close>

text \<open>A decimal numeral, and what \<open>..\<close> makes of a number: \<open>%.14g\<close>, a plain numeral below \<open>10^14\<close>.\<close>

fun decimal :: "nat \<Rightarrow> string" where
  "decimal n = (if n < 10 then [char_of (n + 48)] else decimal (n div 10) @ [char_of (n mod 10 + 48)])"

declare decimal.simps [simp del]

definition lua_text :: "(number \<Rightarrow> string) \<Rightarrow> number \<Rightarrow> string" where
  "lua_text g14 x = (if x = of_nat (nat \<lfloor>x\<rfloor>) \<and> x < 10 ^ 14 then decimal (nat \<lfloor>x\<rfloor>) else g14 x)"

text \<open>\<open>tonumber(string.match(s, ':(%d+):%d+$'))\<close>.\<close>

definition all_digits :: "string \<Rightarrow> bool" where
  "all_digits s \<longleftrightarrow> s \<noteq> [] \<and> list_all (\<lambda>c. digit_value 10 c \<noteq> None) s"

definition member_weight :: "string \<Rightarrow> number option" where
  "member_weight s =
     (case rev (js_split (CHR '':'') s) of
        q # c # _ # _ \<Rightarrow>
          if all_digits q \<and> all_digits c then Some (round64 (of_nat (digits_value 10 (fst (span_digits 10 c))))) else None
      | _ \<Rightarrow> None)"

text \<open>What a script returns: Redis truncates each number to an integer.\<close>

definition lua_int :: "number \<Rightarrow> number" where
  "lua_int x = (if x < 0 then of_int \<lceil>x\<rceil> else of_int \<lfloor>x\<rfloor>)"

type_synonym 'd script = "number \<Rightarrow> string \<Rightarrow> number \<Rightarrow> number \<Rightarrow> number \<Rightarrow> number \<Rightarrow> number \<Rightarrow> ('d, number \<times> number \<times> number) redis"

definition script_reply :: "bool \<Rightarrow> number \<Rightarrow> number \<Rightarrow> ('d, number \<times> number \<times> number) redis" where
  "script_reply is_allowed rem retry = rreturn (if is_allowed then 1 else 0, lua_int rem, lua_int retry)"

section \<open>The scripts\<close>

text \<open>Arithmetic on \<open>nil\<close> raises; the only script in which it could is the one of the token bucket.\<close>

definition raised :: "('d, 'a) redis" where
  "raised = (\<lambda>db. (db, Inl ()))"

definition fixedWindow_lua :: "'d redis_client \<Rightarrow> 'd script" where
  "fixedWindow_lua R rt key lmt w cap now cost =
     (let windowStart = js_mul (js_floor (js_div now w)) w in
      rbind (hmget R rt key [''windowStart'', ''count'']) (\<lambda>raw.
      (let count = (case raw ! 1 of Some c \<Rightarrow> c | None \<Rightarrow> 0);
           count = (if raw ! 0 \<noteq> Some windowStart then 0 else count);
           projected = js_add count cost;
           is_allowed = (projected \<le> lmt);
           count = (if is_allowed then projected else count);
           retryAfter = (if is_allowed then 0 else js_sub (js_add windowStart w) now)
       in rbind (hset R rt key [(''windowStart'', windowStart), (''count'', count)]) (\<lambda>_.
          rbind (pexpire R rt key w) (\<lambda>_.
          script_reply is_allowed (max 0 (js_sub lmt count)) retryAfter)))))"

definition tokenBucket_lua :: "'d redis_client \<Rightarrow> 'd script" where
  "tokenBucket_lua R rt key lmt w cap now cost =
     (let refillPerMs = js_div lmt w in
      rbind (hmget R rt key [''tokens'', ''ts'']) (\<lambda>raw.
      if raw ! 0 \<noteq> None \<and> raw ! 1 = None then raised
      else (let tokens = (case raw ! 0 of Some t \<Rightarrow> t | None \<Rightarrow> cap);
           lastRefillMs = (case raw ! 0 of Some t \<Rightarrow> (case raw ! 1 of Some l \<Rightarrow> l | None \<Rightarrow> now) | None \<Rightarrow> now);
           elapsed = max 0 (js_sub now lastRefillMs);
           available = min cap (js_add tokens (js_mul elapsed refillPerMs));
           is_allowed = (cost \<le> available);
           remainingTokens = (if is_allowed then js_sub available cost else available);
           retryAfter = (if is_allowed then 0 else js_ceil (js_div (js_sub cost available) refillPerMs))
       in rbind (hset R rt key [(''tokens'', remainingTokens), (''ts'', now)]) (\<lambda>_.
          rbind (pexpire R rt key (js_add (js_ceil (js_div cap refillPerMs)) 1000)) (\<lambda>_.
          script_reply is_allowed (js_floor remainingTokens) retryAfter)))))"

definition leakyBucket_lua :: "'d redis_client \<Rightarrow> 'd script" where
  "leakyBucket_lua R rt key lmt w cap now cost =
     (let leakPerMs = js_div lmt w in
      rbind (hmget R rt key [''level'', ''ts'']) (\<lambda>raw.
      (let level = (case raw ! 0 of Some l \<Rightarrow> l | None \<Rightarrow> 0);
           lastLeakMs = (case raw ! 1 of Some l \<Rightarrow> l | None \<Rightarrow> now);
           elapsed = max 0 (js_sub now lastLeakMs);
           level = max 0 (js_sub level (js_mul elapsed leakPerMs));
           is_allowed = (js_add level cost \<le> cap);
           level = (if is_allowed then js_add level cost else level);
           retryAfter = (if is_allowed then 0 else js_ceil (js_div (js_sub (js_add level cost) cap) leakPerMs))
       in rbind (hset R rt key [(''level'', level), (''ts'', now)]) (\<lambda>_.
          rbind (pexpire R rt key (js_add (js_ceil (js_div cap leakPerMs)) 1000)) (\<lambda>_.
          script_reply is_allowed (max 0 (js_floor (js_sub cap level))) retryAfter)))))"

definition slidingWindowCounter_lua :: "'d redis_client \<Rightarrow> 'd script" where
  "slidingWindowCounter_lua R rt key lmt w cap now cost =
     (let windowStart = js_mul (js_floor (js_div now w)) w in
      rbind (hmget R rt key [''windowStart'', ''currentCount'', ''previousCount'']) (\<lambda>raw.
      (let currentCount = (case raw ! 1 of Some c \<Rightarrow> c | None \<Rightarrow> 0);
           previousCount = (case raw ! 2 of Some c \<Rightarrow> c | None \<Rightarrow> 0);
           (previousCount, currentCount) =
             (if raw ! 0 \<noteq> Some windowStart
              then (if raw ! 0 = Some (js_sub windowStart w) then currentCount else 0, 0)
              else (previousCount, currentCount));
           elapsedInWindow = js_sub now windowStart;
           overlap = max 0 (js_div (js_sub w elapsedInWindow) w);
           estimate = js_add (js_mul previousCount overlap) currentCount;
           is_allowed = (js_add estimate cost \<le> lmt);
           currentCount = (if is_allowed then js_add currentCount cost else currentCount);
           estimate = (if is_allowed then js_add (js_mul previousCount overlap) currentCount else estimate)
       in rbind (hset R rt key [(''windowStart'', windowStart), (''currentCount'', currentCount),
                              (''previousCount'', previousCount)]) (\<lambda>_.
          rbind (pexpire R rt key (js_mul w 2)) (\<lambda>_.
          script_reply is_allowed (max 0 (js_floor (js_sub lmt estimate)))
            (if is_allowed then 0 else js_ceil (js_div (js_sub (js_add estimate cost) lmt) (js_div lmt w))))))))"

definition slidingWindowLog_lua :: "'d redis_client \<Rightarrow> (number \<Rightarrow> string) \<Rightarrow> 'd script" where
  "slidingWindowLog_lua R g14 rt key lmt w cap now cost =
     (let windowStart = js_sub now w in
      rbind (zremrangebyscore R rt key windowStart) (\<lambda>_.
      rbind (zrange R rt key) (\<lambda>entries.
      (let currentCount = foldl (\<lambda>acc (score, m). js_add acc (case member_weight m of Some x \<Rightarrow> x | None \<Rightarrow> 1)) 0 entries;
           oldestTs = (case entries of [] \<Rightarrow> None | (score, m) # _ \<Rightarrow> Some score);
           is_allowed = (js_add currentCount cost \<le> lmt);
           retryAfter = (if is_allowed then 0
             else js_sub (js_add (case oldestTs of Some t \<Rightarrow> t | None \<Rightarrow> now) w) now)
       in if is_allowed
          then (let seqKey = key @ '':seq'' in
                rbind (incr R rt seqKey) (\<lambda>seq.
                rbind (pexpire R rt seqKey w) (\<lambda>_.
                rbind (zadd R rt key now
                  (lua_text g14 now @ '':'' @ lua_text g14 cost @ '':'' @ lua_text g14 (of_nat seq))) (\<lambda>_.
                rbind (pexpire R rt key w) (\<lambda>_.
                script_reply is_allowed (max 0 (js_sub lmt (js_add currentCount cost))) retryAfter)))))
          else script_reply is_allowed (max 0 (js_sub lmt currentCount)) retryAfter))))"

section \<open>createRedisStore\<close>

text \<open>\<open>COMMAND_NAME\<close> and the script each command is defined with.\<close>

fun COMMAND_NAME :: "algorithm_name \<Rightarrow> string" where
  "COMMAND_NAME FixedWindow = ''rateLimitFixedWindow''"
| "COMMAND_NAME TokenBucket = ''rateLimitTokenBucket''"
| "COMMAND_NAME LeakyBucket = ''rateLimitLeakyBucket''"
| "COMMAND_NAME SlidingWindowLog = ''rateLimitSlidingWindowLog''"
| "COMMAND_NAME SlidingWindowCounter = ''rateLimitSlidingWindowCounter''"

fun loadLua :: "'d redis_client \<Rightarrow> (number \<Rightarrow> string) \<Rightarrow> algorithm_name \<Rightarrow> 'd script" where
  "loadLua R g14 FixedWindow = fixedWindow_lua R"
| "loadLua R g14 TokenBucket = tokenBucket_lua R"
| "loadLua R g14 LeakyBucket = leakyBucket_lua R"
| "loadLua R g14 SlidingWindowLog = slidingWindowLog_lua R g14"
| "loadLua R g14 SlidingWindowCounter = slidingWindowCounter_lua R"

text \<open>
  The client's commands: \<open>createRedisStore\<close> adds its own if the client has none of that name, so all
  stores on one client share them.
\<close>

definition createRedisStore ::
  "'d redis_client \<Rightarrow> (number \<Rightarrow> string) \<Rightarrow> algorithm_name \<Rightarrow> (string \<rightharpoonup> 'd script) \<Rightarrow> (string \<rightharpoonup> 'd script)" where
  "createRedisStore R g14 a commands =
     (if commands (COMMAND_NAME a) = None then commands(COMMAND_NAME a \<mapsto> loadLua R g14 a) else commands)"

text \<open>\<open>consume\<close>, on a client with the command: a rejected command is an exception of the caller.\<close>

definition rs_consume :: "'d script \<Rightarrow> number \<Rightarrow> 'd \<Rightarrow> string \<Rightarrow> policy \<Rightarrow> number \<Rightarrow> number \<Rightarrow> 'd \<times> (unit + rate_result)" where
  "rs_consume command rt db key p now cost =
     rbind (command rt key (limit p) (windowMs p) (capacity p) now cost)
       (\<lambda>(is_allowed, rem, retry).
          rreturn \<lparr>allowed = (is_allowed = 1), res_limit = limit p, remaining = rem, retryAfterMs = retry\<rparr>) db"

definition rs_reset :: "'d redis_client \<Rightarrow> algorithm_name \<Rightarrow> number \<Rightarrow> 'd \<Rightarrow> string \<Rightarrow> 'd" where
  "rs_reset R a rt db key =
     fst (redis_del R rt (if a = SlidingWindowLog then [key, key @ '':seq''] else [key]) db)"

section \<open>The store on a server that behaves as documented\<close>

context redis_server begin

lemma serves_reply: "serves view (script_reply a x y) (script_reply a x y)"
  unfolding script_reply_def by (rule serves_return)

lemma serves_raised: "serves view raised raised"
  by (simp add: serves_def raised_def)

lemmas serves_steps = serves_intros serves_command serves_reply serves_raised

lemma serves_script: "serves view (loadLua R g14 a rt k l w c now cost) (loadLua documented g14 a rt k l w c now cost)"
proof (cases a)
  case FixedWindow
  show ?thesis unfolding FixedWindow loadLua.simps fixedWindow_lua_def documented_simps by (intro serves_steps)
next
  case TokenBucket
  show ?thesis unfolding TokenBucket loadLua.simps tokenBucket_lua_def documented_simps by (intro serves_steps)
next
  case LeakyBucket
  show ?thesis unfolding LeakyBucket loadLua.simps leakyBucket_lua_def documented_simps by (intro serves_steps)
next
  case SlidingWindowLog
  show ?thesis unfolding SlidingWindowLog loadLua.simps slidingWindowLog_lua_def documented_simps by (intro serves_steps)
next
  case SlidingWindowCounter
  show ?thesis unfolding SlidingWindowCounter loadLua.simps slidingWindowCounter_lua_def documented_simps by (intro serves_steps)
qed

lemma consume_served:
  "rs_consume (loadLua documented g14 a) rt (view d) k p now cost =
     (let (d', r) = rs_consume (loadLua R g14 a) rt d k p now cost in (view d', r))"
proof -
  have "serves view (\<lambda>d. rs_consume (loadLua R g14 a) rt d k p now cost) (\<lambda>d. rs_consume (loadLua documented g14 a) rt d k p now cost)"
    unfolding rs_consume_def by (intro serves_script serves_intros)
  from servesD [OF this] show ?thesis by (simp add: case_prod_beta)
qed

lemma reset_served: "rs_reset documented a rt (view d) k = view (rs_reset R a rt d k)"
  using servesD [OF serves_command(8)] by (simp add: rs_reset_def)

end

end
