(* ===== verification/RedisStore.thy ===== *)
theory RedisStore
  imports RedisScripts
begin

text \<open>
  The Lua scripts compute what the TypeScript algorithms compute. The locale \<open>redis_algorithm\<close> is the
  simulation between a key's part of the Redis keyspace and the algorithm's state in a memory store;
  inside it, any interleaving of calls on any keys is answered alike. \<open>hash_algorithm\<close> gives the
  simulation for the four scripts that keep a hash: what the time to live forgets, the algorithm has
  forgotten too. The sliding window log, which keeps a sorted set and a counter, has its own.
\<close>

section \<open>Integers\<close>

lemma round64_Ints: "x \<in> \<int> \<Longrightarrow> round64 x \<in> \<int>"
proof -
  assume "x \<in> \<int>"
  then obtain i where i: "x = of_int i" by (auto elim: Ints_cases)
  show ?thesis
  proof (cases "\<bar>i\<bar> \<le> 2 ^ 53")
    case True
    then show ?thesis by (simp add: i round64_int)
  next
    case False
    then have "(2::rat) ^ 53 \<le> \<bar>x\<bar>" unfolding i by (metis linear of_int_abs of_int_le_iff of_int_numeral of_int_power)
    moreover have "x \<noteq> 0" using False i by auto
    ultimately have "2 powi 53 < (2::rat) powi (expo64 x + 1)" using expo64_bounds [of x] by (simp add: power_int_def)
    then have "\<not> expo64 x + 1 \<le> 53" using power_int_increasing [of "expo64 x + 1" 53 "2::rat"] by auto
    then have "(2::rat) powi (expo64 x - 52) = of_int (2 ^ nat (expo64 x - 52))" by (intro powi_of_int) simp
    then show ?thesis by (simp add: round64_def Let_def)
  qed
qed

lemma js_Ints [intro, simp]:
  "a \<in> \<int> \<Longrightarrow> b \<in> \<int> \<Longrightarrow> js_add a b \<in> \<int>" "a \<in> \<int> \<Longrightarrow> b \<in> \<int> \<Longrightarrow> js_sub a b \<in> \<int>"
  "a \<in> \<int> \<Longrightarrow> b \<in> \<int> \<Longrightarrow> js_mul a b \<in> \<int>" "js_floor c \<in> \<int>" "js_ceil c \<in> \<int>"
  "a \<in> \<int> \<Longrightarrow> b \<in> \<int> \<Longrightarrow> max a b \<in> \<int>"
  by (simp_all add: js_add_def js_sub_def js_mul_def js_floor_def js_ceil_def round64_Ints max_def)

lemma lua_int_Ints [simp]: "x \<in> \<int> \<Longrightarrow> lua_int x = x"
  by (auto simp: lua_int_def elim: Ints_cases)

lemma safe_int_Ints [simp, intro]: "safe_int x \<Longrightarrow> x \<in> \<int>"
  by (auto elim: safe_intE)

lemma PEXPIRE_ok:
  assumes "ms \<in> \<int>" "\<bar>ms\<bar> < 10 ^ 17"
  shows "PEXPIRE rt k ms db = (case live db rt k of None \<Rightarrow> (db, Inr ())
    | Some e \<Rightarrow> (db(k \<mapsto> e\<lparr>re_expires := Some (rt + ms)\<rparr>), Inr ()))"
  using assms by (auto simp: PEXPIRE_def elim!: Ints_cases)

section \<open>The simulation\<close>

datatype shared_call =
    SharedConsume (call_time: number) (redis_time: number) (on_key: string) number
  | SharedReset (call_time: number) (redis_time: number) (on_key: string)

text \<open>
  A store with the Redis clock of each call, one policy per key; each \<open>consume\<close> answers with its key,
  time, cost and result.
\<close>

type_synonym shared_answer = "string \<times> number \<times> number \<times> (unit + rate_result)"

fun shared_run ::
  "(number \<Rightarrow> 'm \<Rightarrow> string \<Rightarrow> policy \<Rightarrow> number \<Rightarrow> number \<Rightarrow> 'm \<times> (unit + rate_result)) \<Rightarrow> (number \<Rightarrow> 'm \<Rightarrow> string \<Rightarrow> 'm)
    \<Rightarrow> (string \<Rightarrow> policy) \<Rightarrow> 'm \<Rightarrow> shared_call list \<Rightarrow> shared_answer list" where
  "shared_run con rst pol m [] = []"
| "shared_run con rst pol m (SharedConsume now rt k cost # cs) =
     (let (m', r) = con rt m k (pol k) now cost in (k, now, cost, r) # shared_run con rst pol m' cs)"
| "shared_run con rst pol m (SharedReset now rt k # cs) = shared_run con rst pol (rst rt m k) cs"

text \<open>What is compared of the answers; the memory store never fails.\<close>

definition observe :: "(rate_result \<Rightarrow> rate_result) \<Rightarrow> shared_answer list \<Rightarrow> shared_answer list" where
  "observe obs as = map (\<lambda>(k, now, cost, r). (k, now, cost, case r of Inl e \<Rightarrow> Inl e | Inr a \<Rightarrow> Inr (obs a))) as"

lemma observe_Cons [simp]:
  "observe obs [] = []"
  "observe obs ((k, now, cost, Inr r) # as) = (k, now, cost, Inr (obs r)) # observe obs as"
  by (simp_all add: observe_def)

definition memory_consume ::
  "'s algorithm \<Rightarrow> number \<Rightarrow> 's states \<Rightarrow> string \<Rightarrow> policy \<Rightarrow> number \<Rightarrow> number \<Rightarrow> 's states \<times> (unit + rate_result)" where
  "memory_consume alg rt st k p now cost = (let (st', r) = from_consume alg st k p now cost in (st', Inr r))"

lemma memory_consume_eq:
  "(case memory_consume alg rt st k p now cost of (m, r) \<Rightarrow> f m r) =
     f (st(k \<mapsto> fst (alg (st k) p now cost))) (Inr (snd (alg (st k) p now cost)))"
  by (simp add: memory_consume_def from_consume_def case_prod_beta)

text \<open>
  The callers' clock and Redis' clock both move on, and Redis' clock not faster than the callers': what
  Redis expires after \<open>ttl\<close> milliseconds is at least \<open>ttl\<close> milliseconds old for the callers.
\<close>

fun valid_calls :: "number \<Rightarrow> number \<Rightarrow> shared_call list \<Rightarrow> bool" where
  "valid_calls t rt [] \<longleftrightarrow> True"
| "valid_calls t rt (c # cs) \<longleftrightarrow>
     t \<le> call_time c \<and> rt \<le> redis_time c \<and> redis_time c - rt \<le> call_time c - t \<and> safe_int (call_time c)
     \<and> (case c of SharedConsume now rt' k cost \<Rightarrow> safe_int cost \<and> cost < 10 ^ 14 | _ \<Rightarrow> True)
     \<and> valid_calls (call_time c) (redis_time c) cs"

text \<open>No key is the sequence counter of another.\<close>

definition apart :: "string set \<Rightarrow> bool" where
  "apart K \<longleftrightarrow> (\<forall>k \<in> K. k @ '':seq'' \<notin> K)"

definition ready_policy :: "policy \<Rightarrow> bool" where
  "ready_policy p \<longleftrightarrow> valid_policy p \<and> precise_policy p"

text \<open>
  \<open>sim p k n t rt db s\<close>: after at most \<open>n\<close> calls, the last at \<open>t\<close> and Redis time \<open>rt\<close>, the keyspace holds
  for \<open>k\<close> what the algorithm would hold as \<open>s\<close>. \<open>obs\<close> is the part of a result that is compared.
\<close>

locale redis_algorithm =
  fixes alg :: "'s algorithm"
    and command :: "redis_db script"
    and rst :: "number \<Rightarrow> redis_db \<Rightarrow> string \<Rightarrow> redis_db"
    and sim :: "policy \<Rightarrow> string \<Rightarrow> nat \<Rightarrow> number \<Rightarrow> number \<Rightarrow> redis_db \<Rightarrow> 's option \<Rightarrow> bool"
    and obs :: "rate_result \<Rightarrow> rate_result"
  assumes sim_new: "db k = None \<Longrightarrow> db (k @ '':seq'') = None \<Longrightarrow> sim p k n t rt db None"
    and sim_later: "\<lbrakk>sim p k n t rt db s; n \<le> n'; t \<le> t'; rt \<le> rt'; rt' - rt \<le> t' - t\<rbrakk> \<Longrightarrow> sim p k n' t' rt' db s"
    and sim_cong: "\<lbrakk>sim p k n t rt db s; db' k = db k; db' (k @ '':seq'') = db (k @ '':seq'')\<rbrakk> \<Longrightarrow> sim p k n t rt db' s"
    and sim_step: "\<lbrakk>sim p k n now rt db s; ready_policy p; safe_int now; safe_int cost; cost < 10 ^ 14; n + 1 < 10 ^ 14\<rbrakk>
      \<Longrightarrow> \<exists>db' r. rs_consume command rt db k p now cost = (db', Inr r) \<and> obs r = obs (snd (alg s p now cost))
        \<and> sim p k (n + 1) now rt db' (Some (fst (alg s p now cost)))
        \<and> (\<forall>k'. k' \<noteq> k \<and> k' \<noteq> k @ '':seq'' \<longrightarrow> db' k' = db k')"
    and sim_reset: "sim p k n now rt db s \<Longrightarrow> sim p k n now rt (rst rt db k) None"
    and reset_frame: "k' \<noteq> k \<Longrightarrow> k' \<noteq> k @ '':seq'' \<Longrightarrow> rst rt db k k' = db k'"
begin

lemma run_alike:
  assumes "\<And>k. k \<in> K \<Longrightarrow> ready_policy (pol k)" "apart K"
    and "valid_calls t rt cs" "on_key ` set cs \<subseteq> K" "n + length cs < 10 ^ 14"
    and "\<And>k. k \<in> K \<Longrightarrow> sim (pol k) k n t rt db (st k)"
  shows "observe obs (shared_run (rs_consume command) rst pol db cs)
    = observe obs
        (shared_run (memory_consume alg) (\<lambda>_. from_reset) pol st cs)"
  using assms(3-)
proof (induction cs arbitrary: n t rt db st)
  case (Cons c cs)
  let ?k = "on_key c"
  have k: "?k \<in> K" using Cons.prems by simp
  have now: "sim (pol k) k n (call_time c) (redis_time c) db (st k)" if "k \<in> K" for k
    by (rule sim_later [OF Cons.prems(4) [OF that]]) (use Cons.prems in auto)
  have other: "k \<noteq> ?k @ '':seq''" "k @ '':seq'' \<noteq> ?k" if "k \<in> K" for k
    using that k assms(2) by (auto simp: apart_def)
  have rest: "valid_calls (call_time c) (redis_time c) cs" "on_key ` set cs \<subseteq> K" "n + 1 + length cs < 10 ^ 14"
    using Cons.prems by auto
  show ?case
  proof (cases c)
    case (SharedConsume u ru key cost)
    then have [simp]: "call_time c = u" "redis_time c = ru" "?k = key" by simp_all
    obtain db' r where step: "rs_consume command ru db key (pol key) u cost = (db', Inr r)"
      "obs r = obs (snd (alg (st key) (pol key) u cost))"
      "sim (pol key) key (n + 1) u ru db' (Some (fst (alg (st key) (pol key) u cost)))"
      and frame: "\<And>k'. k' \<noteq> key \<Longrightarrow> k' \<noteq> key @ '':seq'' \<Longrightarrow> db' k' = db k'"
      using sim_step [OF now [OF k, simplified] assms(1), of cost] k Cons.prems SharedConsume by auto
    have sims: "sim (pol k) k (n + 1) u ru db' ((st(key \<mapsto> fst (alg (st key) (pol key) u cost))) k)" if "k \<in> K" for k
    proof (cases "k = key")
      case False
      then show ?thesis
        using sim_cong [OF sim_later [OF now [OF that], where n' = "n + 1"]] frame other [OF that] by auto
    qed (use step in simp)
    have "observe obs (shared_run (rs_consume command) rst pol db' cs)
      = observe obs
          (shared_run (memory_consume alg) (\<lambda>_. from_reset) pol
             (st(key \<mapsto> fst (alg (st key) (pol key) u cost))) cs)"
      by (rule Cons.IH [OF _ _ _ sims]) (use rest in simp_all)
    then show ?thesis using SharedConsume step by (simp add: memory_consume_eq)
  next
    case (SharedReset u ru key)
    then have [simp]: "call_time c = u" "redis_time c = ru" "?k = key" by simp_all
    have sims: "sim (pol k) k (n + 1) u ru (rst ru db key) (from_reset st key k)" if "k \<in> K" for k
    proof (cases "k = key")
      case True
      then show ?thesis using sim_later [OF sim_reset [OF now [OF that]]] by (auto simp: from_reset_def)
    next
      case False
      then show ?thesis
        using sim_cong [OF sim_later [OF now [OF that], where n' = "n + 1"]] reset_frame other [OF that]
        by (auto simp: from_reset_def)
    qed
    have "observe obs (shared_run (rs_consume command) rst pol (rst ru db key) cs)
      = observe obs
          (shared_run (memory_consume alg) (\<lambda>_. from_reset) pol (from_reset st key) cs)"
      by (rule Cons.IH [OF _ _ _ sims]) (use rest in simp_all)
    then show ?thesis using SharedReset by simp
  qed
qed simp

lemma fresh_run_alike:
  assumes "\<And>k. k \<in> K \<Longrightarrow> ready_policy (pol k)" "apart K" "on_key ` set cs \<subseteq> K"
    and "valid_calls t rt cs" "length cs < 10 ^ 14"
  shows "observe obs (shared_run (rs_consume command) rst pol Map.empty cs)
    = observe obs (shared_run (memory_consume alg) (\<lambda>_. from_reset) pol Map.empty cs)"
  by (rule run_alike [OF assms(1,2,4,3), where n = 0]) (use assms(5) in \<open>simp_all add: sim_new\<close>)

end

section \<open>The scripts that keep a hash\<close>

text \<open>
  The hash written at \<open>tw\<close> (Redis time \<open>rw\<close>) holds the state and expires after \<open>ttl p\<close>; from then on the
  algorithm treats the state as none at all.
\<close>

definition hash_sim ::
  "'s algorithm \<Rightarrow> (policy \<Rightarrow> 's \<Rightarrow> bool) \<Rightarrow> ('s \<Rightarrow> string \<rightharpoonup> number) \<Rightarrow> (policy \<Rightarrow> number)
    \<Rightarrow> policy \<Rightarrow> string \<Rightarrow> nat \<Rightarrow> number \<Rightarrow> number \<Rightarrow> redis_db \<Rightarrow> 's option \<Rightarrow> bool" where
  "hash_sim alg ainv enc ttl p k n t rt db s \<longleftrightarrow> pred_option (ainv p) s \<and>
     (case s of
        None \<Rightarrow> live db rt k = None
      | Some s0 \<Rightarrow> (\<exists>tw rw. tw \<le> t \<and> rw \<le> rt \<and> rt - rw \<le> t - tw
          \<and> db k = Some \<lparr>re_value = RHash (enc s0), re_expires = Some (rw + ttl p)\<rparr>
          \<and> (\<forall>now cost. safe_int now \<longrightarrow> safe_int cost \<longrightarrow> tw + ttl p < now \<longrightarrow> alg (Some s0) p now cost = alg None p now cost)))"

definition del_key :: "number \<Rightarrow> redis_db \<Rightarrow> string \<Rightarrow> redis_db" where
  "del_key rt db k = fst (DEL rt [k] db)"

lemma del_key_apply [simp]: "del_key rt db k k' = (if k' = k then None else db k')"
  by (simp add: del_key_def DEL_def)

locale hash_algorithm = rate_algorithm alg inv cap
  for alg :: "'s algorithm" and inv cap +
  fixes command :: "redis_db script"
    and enc :: "'s \<Rightarrow> string \<rightharpoonup> number"
    and ttl :: "policy \<Rightarrow> number"
    and obs :: "rate_result \<Rightarrow> rate_result"
  assumes command_step: "\<lbrakk>ready_policy p; safe_int now; safe_int cost; pred_option (inv p) s;
      case live db rt k of None \<Rightarrow> s = None | Some e \<Rightarrow> s \<noteq> None \<and> re_value e = RHash (enc (the s))\<rbrakk>
    \<Longrightarrow> \<exists>r. rs_consume command rt db k p now cost =
          (db(k \<mapsto> \<lparr>re_value = RHash (enc (fst (alg s p now cost))), re_expires = Some (rt + ttl p)\<rparr>), Inr r)
        \<and> obs r = obs (snd (alg s p now cost))"
    and forgotten: "\<lbrakk>ready_policy p; safe_int t; safe_int cost; pred_option (inv p) s; t + ttl p < now; safe_int now; safe_int c\<rbrakk>
    \<Longrightarrow> alg (Some (fst (alg s p t cost))) p now c = alg None p now c"
begin

lemma hash_redis_algorithm: "redis_algorithm alg command del_key (hash_sim alg inv enc ttl) obs"
proof unfold_locales
  fix p k n n' t t' rt rt' s and db db' :: redis_db
  show "hash_sim alg inv enc ttl p k n' t' rt' db s"
    if "hash_sim alg inv enc ttl p k n t rt db s" "n \<le> n'" "t \<le> t'" "rt \<le> rt'" "rt' - rt \<le> t' - t"
  proof (cases s)
    case (Some s0)
    with that(1) obtain tw rw where "tw \<le> t" "rw \<le> rt" "rt - rw \<le> t - tw"
      and w: "db k = Some \<lparr>re_value = RHash (enc s0), re_expires = Some (rw + ttl p)\<rparr>"
        "\<forall>now cost. safe_int now \<longrightarrow> safe_int cost \<longrightarrow> tw + ttl p < now \<longrightarrow> alg (Some s0) p now cost = alg None p now cost"
        "inv p s0"
      by (auto simp: hash_sim_def)
    moreover from this that(3-) have "tw \<le> t'" "rw \<le> rt'" "rt' - rw \<le> t' - tw" by linarith+
    ultimately show ?thesis
      unfolding hash_sim_def Some option.case by (intro conjI exI [of _ tw] exI [of _ rw]) simp_all
  qed (use that live_later in \<open>auto simp: hash_sim_def\<close>)
  show "hash_sim alg inv enc ttl p k n t rt db' s"
    if "hash_sim alg inv enc ttl p k n t rt db s" "db' k = db k" "db' (k @ '':seq'') = db (k @ '':seq'')"
    using that live_cong [of db' k db rt] by (simp add: hash_sim_def split: option.splits)
next
  fix p k n now rt s cost and db :: redis_db
  assume sim: "hash_sim alg inv enc ttl p k n now rt db s"
    and a: "ready_policy p" "safe_int now" "safe_int cost"
  let ?seen = "if live db rt k = None then None else s"
  have inv: "pred_option (inv p) s" using sim by (simp add: hash_sim_def)
  have same: "alg ?seen p now cost = alg s p now cost"
    and seen: "case live db rt k of None \<Rightarrow> ?seen = None | Some e \<Rightarrow> ?seen \<noteq> None \<and> re_value e = RHash (enc (the ?seen))"
    using sim a by (auto simp: hash_sim_def live_present split: option.splits if_splits)
  have inv': "pred_option (inv p) ?seen" using inv by simp
  obtain r where r: "rs_consume command rt db k p now cost =
      (db(k \<mapsto> \<lparr>re_value = RHash (enc (fst (alg s p now cost))), re_expires = Some (rt + ttl p)\<rparr>), Inr r)"
    "obs r = obs (snd (alg s p now cost))"
    using command_step [OF a inv' seen] unfolding same by blast
  have "inv p (fst (alg s p now cost))"
    using alg_inv [OF _ a(2,3) inv] a(1) by (metis prod.collapse ready_policy_def)
  then have "hash_sim alg inv enc ttl p k (n + 1) now rt
      (db(k \<mapsto> \<lparr>re_value = RHash (enc (fst (alg s p now cost))), re_expires = Some (rt + ttl p)\<rparr>))
      (Some (fst (alg s p now cost)))"
    using forgotten [OF a inv] by (auto simp: hash_sim_def)
  with r show "\<exists>db' r. rs_consume command rt db k p now cost = (db', Inr r) \<and> obs r = obs (snd (alg s p now cost))
      \<and> hash_sim alg inv enc ttl p k (n + 1) now rt db' (Some (fst (alg s p now cost)))
      \<and> (\<forall>k'. k' \<noteq> k \<and> k' \<noteq> k @ '':seq'' \<longrightarrow> db' k' = db k')"
    by auto
qed (auto simp: hash_sim_def live_def)

end

text \<open>The two halves of such a script: reading the hash, and writing it with its time to live.\<close>

definition hash_at :: "redis_db \<Rightarrow> number \<Rightarrow> string \<Rightarrow> (string \<rightharpoonup> number) \<Rightarrow> bool" where
  "hash_at db rt k h \<longleftrightarrow> (case live db rt k of None \<Rightarrow> h = Map.empty | Some e \<Rightarrow> re_value e = RHash h)"

lemma read_hash: "hash_at db rt k h \<Longrightarrow> rbind (HMGET rt k fs) F db = F (map h fs) db"
  by (auto simp: hash_at_def rbind_def HMGET_def split: option.splits)

lemma write_hash:
  assumes "hash_at db rt k h" "ms \<in> \<int>" "0 \<le> ms" "ms < 10 ^ 17"
  shows "rbind (HSET rt k fvs) (\<lambda>_. rbind (PEXPIRE rt k ms) (\<lambda>_. G)) db =
    G (db(k \<mapsto> \<lparr>re_value = RHash (fold (\<lambda>(f, v) h. h(f \<mapsto> v)) fvs h), re_expires = Some (rt + ms)\<rparr>))"
proof (cases "live db rt k")
  case None
  with assms show ?thesis by (simp add: rbind_def HSET_def PEXPIRE_ok hash_at_def)
next
  case (Some e)
  then have "case re_expires e of Some x \<Rightarrow> \<not> x < rt | None \<Rightarrow> True"
    by (auto simp: live_def split: option.splits if_splits)
  with Some assms show ?thesis
    by (cases e) (auto simp: rbind_def HSET_def PEXPIRE_ok hash_at_def split: option.splits)
qed

lemma rs_consume_reply:
  assumes "command rt k (limit p) (windowMs p) (capacity p) now cost db = script_reply (allowed r) rem (retryAfterMs r) db'"
    and "res_limit r = limit p" "rem \<in> \<int>" "retryAfterMs r \<in> \<int>"
  shows "rs_consume command rt db k p now cost = (db', Inr (r\<lparr>remaining := rem\<rparr>))"
  using assms by (cases r) (simp add: rs_consume_def rbind_def script_reply_def rreturn_def)

lemma hash_at_enc:
  "case live db rt k of None \<Rightarrow> s = None | Some e \<Rightarrow> s \<noteq> None \<and> re_value e = RHash (enc (the s))
     \<Longrightarrow> hash_at db rt k (case s of None \<Rightarrow> Map.empty | Some s0 \<Rightarrow> enc s0)"
  by (auto simp: hash_at_def split: option.splits)

lemma ready_policyD:
  assumes "ready_policy p"
  shows "valid_policy p" "precise_policy p" "windowMs p \<in> \<int>" "0 \<le> windowMs p" "windowMs p < 10 ^ 17"
    "limit p \<in> \<int>" "capacity p \<in> \<int>"
  using assms by (auto simp: ready_policy_def valid_policyD less_imp_le) (auto simp: valid_policy_def safe_int_def)

subsection \<open>fixedWindow\<close>

definition enc_fw :: "fixed_window_state \<Rightarrow> string \<rightharpoonup> number" where
  "enc_fw s = [''windowStart'' \<mapsto> fw_windowStart s, ''count'' \<mapsto> fw_count s]"

interpretation fw_redis: hash_algorithm fixedWindow fw_inv limit "fixedWindow_lua documented" enc_fw windowMs id
proof unfold_locales
  fix p now cost s k rt and db :: redis_db
  assume a: "ready_policy p" "safe_int now" "safe_int cost" "pred_option (fw_inv p) s"
    and l: "case live db rt k of None \<Rightarrow> s = None | Some e \<Rightarrow> s \<noteq> None \<and> re_value e = RHash (enc_fw (the s))"
  note h = hash_at_enc [where enc = enc_fw, OF l]
  obtain s' r where r: "fixedWindow s p now cost = (s', r)" by force
  have i: "windowMs p \<in> \<int>" "limit p \<in> \<int>" "now \<in> \<int>" "cost \<in> \<int>" using a by (auto simp: ready_policyD)
  have c: "(case s of Some s \<Rightarrow> if P s then fw_count s else 0 | None \<Rightarrow> 0) \<in> \<int>" for P
    using a(4) by (auto simp: fw_inv_def split: option.splits)
  have "fixedWindow_lua documented rt k (limit p) (windowMs p) (capacity p) now cost db =
      script_reply (allowed r) (remaining r) (retryAfterMs r)
        (db(k \<mapsto> \<lparr>re_value = RHash (enc_fw s'), re_expires = Some (rt + windowMs p)\<rparr>))"
    using r by (cases s) (auto simp: fixedWindow_lua_def documented_simps fixedWindow_def Let_def read_hash [OF h]
        write_hash [OF h ready_policyD(3-5) [OF a(1)]] enc_fw_def fun_upd_twist)
  moreover have "res_limit r = limit p" "remaining r \<in> \<int>" "retryAfterMs r \<in> \<int>"
    using r i c by (auto simp: fixedWindow_def Let_def)
  ultimately show "\<exists>r. rs_consume (fixedWindow_lua documented) rt db k p now cost =
        (db(k \<mapsto> \<lparr>re_value = RHash (enc_fw (fst (fixedWindow s p now cost))), re_expires = Some (rt + windowMs p)\<rparr>), Inr r)
      \<and> id r = id (snd (fixedWindow s p now cost))"
    using rs_consume_reply [of "fixedWindow_lua documented" rt k p now cost db r "remaining r"] r by simp
next
  fix p t cost s now c
  assume a: "ready_policy p" "safe_int t" "safe_int cost" "pred_option (fw_inv p) s" "t + windowMs p < now" "safe_int now" "safe_int c"
  then have v: "valid_policy p" by (simp add: ready_policyD)
  obtain s' r where r: "fixedWindow s p t cost = (s', r)" by force
  have inv: "fw_inv p s'" using fw.alg_inv [OF v a(2-4) r] .
  have "window_begin p (window_of p t) \<noteq> window_begin p (window_of p now)"
    using window_begin_le [OF v a(2)] window_begin_le [OF v a(6)] a(5) by auto
  with r a v inv show "fixedWindow (Some (fst (fixedWindow s p t cost))) p now c = fixedWindow None p now c"
    by (auto simp: fixedWindow_exact fw_current_def Let_def)
qed

subsection \<open>slidingWindowCounter\<close>

definition enc_swc :: "sliding_window_counter_state \<Rightarrow> string \<rightharpoonup> number" where
  "enc_swc s = [''windowStart'' \<mapsto> swc_windowStart s, ''currentCount'' \<mapsto> swc_currentCount s,
                ''previousCount'' \<mapsto> swc_previousCount s]"

text \<open>
  The script adds the cost to the counter before it rounds the estimate, the TypeScript after: the
  remaining quota they report can differ in the last bit, and is left out.
\<close>

definition but_remaining :: "rate_result \<Rightarrow> rate_result" where
  "but_remaining r = r\<lparr>remaining := 0\<rparr>"

definition two_windows :: "policy \<Rightarrow> number" where
  "two_windows p = js_mul (windowMs p) 2"

lemma two_windows:
  assumes "valid_policy p"
  shows "two_windows p = windowMs p * 2" "two_windows p \<in> \<int>" "0 \<le> two_windows p" "two_windows p < 10 ^ 17"
proof -
  obtain i where i: "windowMs p = of_int i" "0 \<le> i" "i \<le> 2 ^ 52" using assms by (meson safe_intE valid_policyD)
  then have "round64 (of_int (i * 2)) = of_int (i * 2)" by (intro round64_int) auto
  then show eq: "two_windows p = windowMs p * 2" by (simp add: two_windows_def js_mul_def i)
  have "i * 2 \<le> 2 ^ 53" using i by simp
  then have "of_int (i * 2) \<le> (of_int (2 ^ 53) :: rat)" by (simp only: of_int_le_iff)
  then show "two_windows p \<in> \<int>" "0 \<le> two_windows p" "two_windows p < 10 ^ 17" using i by (auto simp: eq)
qed

interpretation swc_redis: hash_algorithm slidingWindowCounter swc_inv limit "slidingWindowCounter_lua documented" enc_swc two_windows but_remaining
proof unfold_locales
  fix p now cost s k rt and db :: redis_db
  assume a: "ready_policy p" "safe_int now" "safe_int cost" "pred_option (swc_inv p) s"
    and l: "case live db rt k of None \<Rightarrow> s = None | Some e \<Rightarrow> s \<noteq> None \<and> re_value e = RHash (enc_swc (the s))"
  note h = hash_at_enc [where enc = enc_swc, OF l]
  note ttl = two_windows [OF ready_policyD(1) [OF a(1)]]
  obtain s' r where r: "slidingWindowCounter s p now cost = (s', r)" by force
  let ?ws = "js_mul (js_floor (js_div now (windowMs p))) (windowMs p)"
  let ?h = "case s of None \<Rightarrow> Map.empty | Some s0 \<Rightarrow> enc_swc s0"
  obtain prev cur where cf: "carryForward s ?ws (windowMs p) = (prev, cur)" by force
  have counts: "(if ?h ''windowStart'' \<noteq> Some ?ws
      then (if ?h ''windowStart'' = Some (js_sub ?ws (windowMs p)) then (case ?h ''currentCount'' of Some c \<Rightarrow> c | None \<Rightarrow> 0) else 0, 0)
      else (case ?h ''previousCount'' of Some c \<Rightarrow> c | None \<Rightarrow> 0, case ?h ''currentCount'' of Some c \<Rightarrow> c | None \<Rightarrow> 0)) = (prev, cur)"
    using cf by (cases s) (auto simp: carryForward_def enc_swc_def split: if_splits)
  have put: "fold (\<lambda>(f, v) h. h(f \<mapsto> v)) [(''windowStart'', a), (''currentCount'', b), (''previousCount'', c)] ?h
      = enc_swc \<lparr>swc_windowStart = a, swc_previousCount = c, swc_currentCount = b\<rparr>" for a b c
    by (cases s) (auto simp: enc_swc_def)
  let ?o = "max 0 (js_div (js_sub (windowMs p) (js_sub now ?ws)) (windowMs p))"
  let ?e = "js_add (js_mul prev ?o) cur"
  let ?ok = "js_add ?e cost \<le> limit p"
  define rem where "rem = max 0 (js_floor (js_sub (limit p) (if ?ok then js_add (js_mul prev ?o) (js_add cur cost) else ?e)))"
  have "slidingWindowCounter_lua documented rt k (limit p) (windowMs p) (capacity p) now cost db =
      script_reply ?ok rem (if ?ok then 0 else js_ceil (js_div (js_sub (js_add ?e cost) (limit p)) (js_div (limit p) (windowMs p))))
        (db(k \<mapsto> \<lparr>re_value = RHash (enc_swc \<lparr>swc_windowStart = ?ws, swc_previousCount = prev,
            swc_currentCount = (if ?ok then js_add cur cost else cur)\<rparr>), re_expires = Some (rt + two_windows p)\<rparr>))"
    unfolding slidingWindowCounter_lua_def documented_simps Let_def read_hash [OF h] list.map nth_Cons_0 nth_Cons_Suc One_nat_def numeral_2_eq_2
      counts case_prod_conv two_windows_def [symmetric] write_hash [OF h ttl(2-4)] put rem_def
    by (cases ?ok) simp_all
  then have "slidingWindowCounter_lua documented rt k (limit p) (windowMs p) (capacity p) now cost db =
      script_reply (allowed r) rem (retryAfterMs r)
        (db(k \<mapsto> \<lparr>re_value = RHash (enc_swc s'), re_expires = Some (rt + two_windows p)\<rparr>))"
    using r cf by (auto simp: slidingWindowCounter_def Let_def)
  moreover have "rem \<in> \<int>" by (simp add: rem_def)
  moreover have "res_limit r = limit p" "retryAfterMs r \<in> \<int>"
    using r by (auto simp: slidingWindowCounter_def Let_def split: prod.splits)
  ultimately show "\<exists>r. rs_consume (slidingWindowCounter_lua documented) rt db k p now cost =
        (db(k \<mapsto> \<lparr>re_value = RHash (enc_swc (fst (slidingWindowCounter s p now cost))), re_expires = Some (rt + two_windows p)\<rparr>), Inr r)
      \<and> but_remaining r = but_remaining (snd (slidingWindowCounter s p now cost))"
    using rs_consume_reply [of "slidingWindowCounter_lua documented" rt k p now cost db r rem] r by (simp add: but_remaining_def)
next
  fix p t cost s now c
  assume a: "ready_policy p" "safe_int t" "safe_int cost" "pred_option (swc_inv p) s" "t + two_windows p < now"
    "safe_int now" "safe_int c"
  then have v: "valid_policy p" by (simp add: ready_policyD)
  let ?b = "\<lambda>t. window_begin p (window_of p t)"
  have start: "swc_windowStart (fst (slidingWindowCounter s p t cost)) = ?b t"
    by (simp add: slidingWindowCounter_eq [OF v a(2)] Let_def case_prod_beta)
  have "?b now = window_begin p (window_of p now - 1) + windowMs p" using window_begin_next [OF v, of "window_of p now - 1"] by simp
  then have "?b t \<noteq> ?b now" "?b t \<noteq> window_begin p (window_of p now - 1)"
    using window_begin_le [OF v a(2)] window_begin_le [OF v a(6)] a(5) valid_policyD(4) [OF v]
    unfolding two_windows(1) [OF v] by auto
  with start v have "swc_counts p (Some (fst (slidingWindowCounter s p t cost))) now = swc_counts p None now"
    by (auto simp: swc_counts_def)
  then show "slidingWindowCounter (Some (fst (slidingWindowCounter s p t cost))) p now c = slidingWindowCounter None p now c"
    by (simp add: slidingWindowCounter_eq [OF v a(6)] swc_estimate_def)
qed

subsection \<open>tokenBucket and leakyBucket\<close>

text \<open>The buckets are kept until they must be full (empty) again, and a second longer.\<close>

definition bucket_ttl :: "policy \<Rightarrow> number" where
  "bucket_ttl p = js_add (js_ceil (js_div (capacity p) (rate_per_ms p))) 1000"

lemma bucket_ttl:
  assumes "ready_policy p"
  shows "bucket_ttl p = js_ceil (js_div (capacity p) (rate_per_ms p)) + 1000"
    "bucket_ttl p \<in> \<int>" "0 \<le> bucket_ttl p" "bucket_ttl p < 10 ^ 17"
proof -
  note v = ready_policyD(1) [OF assms]
  let ?d = "js_div (capacity p) (rate_per_ms p)"
  have R: "0 < rate_per_ms p" using v by (rule rate_per_ms_pos)
  have "capacity p * (15 / 2 * u64) \<le> rate_per_ms p * (1 - u64)"
    using precise_rate [OF v ready_policyD(2) [OF assms]] by (simp add: mult.commute mult.left_commute)
  also have "\<dots> \<le> rate_per_ms p" using R by (simp add: mult_left_le u64_def)
  finally have "capacity p / rate_per_ms p \<le> 2 ^ 51" using R by (simp add: u64_def field_simps)
  then have "?d \<le> 2 ^ 51" unfolding js_div_def by (rule js.rnd_le) simp
  then have "\<lceil>?d\<rceil> \<le> 2 ^ 51" by (simp add: ceiling_le_iff)
  moreover have d0: "0 \<le> ?d" unfolding js_div_def using R valid_policyD(6) [OF v] by (intro js.rnd_nonneg) simp
  then have "0 \<le> \<lceil>?d\<rceil>" by simp
  ultimately have i: "0 \<le> \<lceil>?d\<rceil> + 1000" "\<lceil>?d\<rceil> + 1000 \<le> 2 ^ 52" by simp_all
  then have "round64 (of_int (\<lceil>?d\<rceil> + 1000)) = of_int (\<lceil>?d\<rceil> + 1000)" by (intro round64_int) simp
  then show eq: "bucket_ttl p = js_ceil ?d + 1000" by (simp add: bucket_ttl_def js_add_def js_ceil_def)
  have "(of_int (\<lceil>?d\<rceil> + 1000) :: rat) \<le> of_int (2 ^ 52)" using i by (simp only: of_int_le_iff)
  then show "bucket_ttl p \<in> \<int>" "0 \<le> bucket_ttl p" "bucket_ttl p < 10 ^ 17"
    using d0 by (auto simp: eq js_ceil_def)
qed

lemma ttl_refills:
  assumes "ready_policy p" "bucket_ttl p < e"
  shows "capacity p \<le> js_mul e (rate_per_ms p)"
proof -
  note v = ready_policyD(1) [OF assms(1)]
  let ?n = "js_ceil (js_div (capacity p) (rate_per_ms p)) + 1"
  have "capacity p * (1 - u64) \<le> capacity p" using valid_policyD(6) [OF v] by (simp add: mult_left_le u64_def)
  moreover have "0 \<le> u64 * capacity p" using valid_policyD(6) [OF v] by simp
  ultimately have "capacity p \<le> js_mul ?n (rate_per_ms p)"
    using valid_policyD(6) [OF v] by (intro waiting_earns [OF v ready_policyD(2) [OF assms(1)]]) linarith+
  also have "\<dots> \<le> js_mul e (rate_per_ms p)"
    using assms bucket_ttl(1) [OF assms(1)] rate_per_ms_pos [OF v]
    unfolding js_mul_def by (intro round64_mono mult_right_mono) auto
  finally show ?thesis .
qed

definition enc_tb :: "token_bucket_state \<Rightarrow> string \<rightharpoonup> number" where
  "enc_tb s = [''tokens'' \<mapsto> tb_tokens s, ''ts'' \<mapsto> tb_lastRefillMs s]"

interpretation tb_redis: hash_algorithm tokenBucket tb_inv capacity "tokenBucket_lua documented" enc_tb bucket_ttl id
proof unfold_locales
  fix p now cost s k rt and db :: redis_db
  assume a: "ready_policy p" "safe_int now" "safe_int cost" "pred_option (tb_inv p) s"
    and l: "case live db rt k of None \<Rightarrow> s = None | Some e \<Rightarrow> s \<noteq> None \<and> re_value e = RHash (enc_tb (the s))"
  note h = hash_at_enc [where enc = enc_tb, OF l] and ttl = bucket_ttl [OF a(1)]
  obtain s' r where r: "tokenBucket s p now cost = (s', r)" by force
  then have out: "s' = fst (tokenBucket s p now cost)" "r = snd (tokenBucket s p now cost)" by simp_all
  let ?h = "case s of None \<Rightarrow> Map.empty | Some s0 \<Rightarrow> enc_tb s0"
  have stored: "(case ?h ''tokens'' of Some t \<Rightarrow> t | None \<Rightarrow> capacity p) = (case s of Some s \<Rightarrow> tb_tokens s | None \<Rightarrow> capacity p)"
    "(case ?h ''tokens'' of Some t \<Rightarrow> (case ?h ''ts'' of Some l \<Rightarrow> l | None \<Rightarrow> now) | None \<Rightarrow> now) = (case s of Some s \<Rightarrow> tb_lastRefillMs s | None \<Rightarrow> now)"
    and ts: "(?h ''tokens'' \<noteq> None \<and> ?h ''ts'' = None) = False"
    and put: "fold (\<lambda>(f, v) h. h(f \<mapsto> v)) [(''tokens'', a), (''ts'', b)] ?h = enc_tb \<lparr>tb_tokens = a, tb_lastRefillMs = b\<rparr>" for a b
    by (cases s; auto simp: enc_tb_def)+
  have "tokenBucket_lua documented rt k (limit p) (windowMs p) (capacity p) now cost db =
      script_reply (allowed r) (remaining r) (retryAfterMs r)
        (db(k \<mapsto> \<lparr>re_value = RHash (enc_tb s'), re_expires = Some (rt + bucket_ttl p)\<rparr>))"
    unfolding tokenBucket_lua_def documented_simps Let_def read_hash [OF h] list.map nth_Cons_0 nth_Cons_Suc One_nat_def ts if_False stored
      rate_per_ms_def [symmetric] bucket_ttl_def [symmetric] elapsed_since_def write_hash [OF h ttl(2-4)] put
      out tokenBucket_def fst_conv snd_conv rate_result.select_convs ..
  moreover have "res_limit r = limit p" "remaining r \<in> \<int>" "retryAfterMs r \<in> \<int>"
    using r by (auto simp: tokenBucket_def Let_def)
  ultimately show "\<exists>r. rs_consume (tokenBucket_lua documented) rt db k p now cost =
        (db(k \<mapsto> \<lparr>re_value = RHash (enc_tb (fst (tokenBucket s p now cost))), re_expires = Some (rt + bucket_ttl p)\<rparr>), Inr r)
      \<and> id r = id (snd (tokenBucket s p now cost))"
    using rs_consume_reply [of "tokenBucket_lua documented" rt k p now cost db r "remaining r"] r by simp
next
  fix p t cost s now c
  assume a: "ready_policy p" "safe_int t" "safe_int cost" "pred_option (tb_inv p) s" "t + bucket_ttl p < now"
    "safe_int now" "safe_int c"
  note v = ready_policyD(1) [OF a(1)]
  obtain s' r where r: "tokenBucket s p t cost = (s', r)" by force
  have inv: "tb_inv p s'" using tb.alg_inv [OF v a(2-4) r] .
  have last: "tb_lastRefillMs s' = t" using r by (auto simp: tokenBucket_def Let_def)
  have "bucket_ttl p < elapsed_since t now" using a by simp
  then have "capacity p \<le> tb_tokens s' + js_mul (elapsed_since t now) (rate_per_ms p)"
    using ttl_refills [OF a(1)] inv by (fastforce simp: tb_inv_def)
  then have "capacity p \<le> js_add (tb_tokens s') (js_mul (elapsed_since t now) (rate_per_ms p))"
    unfolding js_add_def using v by (intro js.rnd_ge) (simp_all add: valid_policyD)
  then have "tb_available p (Some s') now = tb_available p None now" by (simp add: tb_available_def last)
  then show "tokenBucket (Some (fst (tokenBucket s p t cost))) p now c = tokenBucket None p now c"
    by (simp add: tokenBucket_eq [OF v a(6)] r)
qed

definition enc_lb :: "leaky_bucket_state \<Rightarrow> string \<rightharpoonup> number" where
  "enc_lb s = [''level'' \<mapsto> lb_level s, ''ts'' \<mapsto> lb_lastLeakMs s]"

interpretation lb_redis: hash_algorithm leakyBucket lb_inv capacity "leakyBucket_lua documented" enc_lb bucket_ttl id
proof unfold_locales
  fix p now cost s k rt and db :: redis_db
  assume a: "ready_policy p" "safe_int now" "safe_int cost" "pred_option (lb_inv p) s"
    and l: "case live db rt k of None \<Rightarrow> s = None | Some e \<Rightarrow> s \<noteq> None \<and> re_value e = RHash (enc_lb (the s))"
  note h = hash_at_enc [where enc = enc_lb, OF l] and ttl = bucket_ttl [OF a(1)]
  obtain s' r where r: "leakyBucket s p now cost = (s', r)" by force
  then have out: "s' = fst (leakyBucket s p now cost)" "r = snd (leakyBucket s p now cost)" by simp_all
  let ?h = "case s of None \<Rightarrow> Map.empty | Some s0 \<Rightarrow> enc_lb s0"
  have stored: "(case ?h ''level'' of Some t \<Rightarrow> t | None \<Rightarrow> 0) = (case s of Some s \<Rightarrow> lb_level s | None \<Rightarrow> 0)"
    "(case ?h ''ts'' of Some l \<Rightarrow> l | None \<Rightarrow> now) = (case s of Some s \<Rightarrow> lb_lastLeakMs s | None \<Rightarrow> now)"
    and put: "fold (\<lambda>(f, v) h. h(f \<mapsto> v)) [(''level'', a), (''ts'', b)] ?h = enc_lb \<lparr>lb_level = a, lb_lastLeakMs = b\<rparr>" for a b
    by (cases s; auto simp: enc_lb_def)+
  have "leakyBucket_lua documented rt k (limit p) (windowMs p) (capacity p) now cost db =
      script_reply (allowed r) (remaining r) (retryAfterMs r)
        (db(k \<mapsto> \<lparr>re_value = RHash (enc_lb s'), re_expires = Some (rt + bucket_ttl p)\<rparr>))"
    unfolding leakyBucket_lua_def documented_simps Let_def read_hash [OF h] list.map nth_Cons_0 nth_Cons_Suc One_nat_def stored
      rate_per_ms_def [symmetric] bucket_ttl_def [symmetric] elapsed_since_def write_hash [OF h ttl(2-4)] put
      out leakyBucket_def fst_conv snd_conv rate_result.select_convs
    by (simp only: if_False cong: if_cong)
  moreover have "res_limit r = limit p" "remaining r \<in> \<int>" "retryAfterMs r \<in> \<int>"
    using r by (auto simp: leakyBucket_def Let_def)
  ultimately show "\<exists>r. rs_consume (leakyBucket_lua documented) rt db k p now cost =
        (db(k \<mapsto> \<lparr>re_value = RHash (enc_lb (fst (leakyBucket s p now cost))), re_expires = Some (rt + bucket_ttl p)\<rparr>), Inr r)
      \<and> id r = id (snd (leakyBucket s p now cost))"
    using rs_consume_reply [of "leakyBucket_lua documented" rt k p now cost db r "remaining r"] r by simp
next
  fix p t cost s now c
  assume a: "ready_policy p" "safe_int t" "safe_int cost" "pred_option (lb_inv p) s" "t + bucket_ttl p < now"
    "safe_int now" "safe_int c"
  note v = ready_policyD(1) [OF a(1)]
  obtain s' r where r: "leakyBucket s p t cost = (s', r)" by force
  have inv: "lb_inv p s'" using lb.alg_inv [OF v a(2-4) r] .
  have last: "lb_lastLeakMs s' = t" using r by (auto simp: leakyBucket_def Let_def)
  have "bucket_ttl p < elapsed_since t now" using a by simp
  then have "lb_level s' - js_mul (elapsed_since t now) (rate_per_ms p) \<le> 0"
    using ttl_refills [OF a(1)] inv by (fastforce simp: lb_inv_def)
  then have "js_sub (lb_level s') (js_mul (elapsed_since t now) (rate_per_ms p)) \<le> 0"
    unfolding js_sub_def by (rule js.rnd_nonpos)
  then have "lb_drained p (Some s') now = lb_drained p None now" by (simp add: lb_drained_def last)
  then show "leakyBucket (Some (fst (leakyBucket s p t cost))) p now c = leakyBucket None p now c"
    by (simp add: leakyBucket_eq [OF a(6)] r)
qed

end
