(* ===== verification/RedisLog.thy ===== *)
theory RedisLog
  imports RedisStore "HOL-Library.Multiset"
begin

text \<open>
  The sliding window log in Redis: a sorted set of members \<open>"<time>:<cost>:<seq>"\<close> and the counter that
  makes them distinct. The set holds the entries of the TypeScript log, in the order of their times.
\<close>

section \<open>Members\<close>

lemma decimal_Cons: "10 \<le> n \<Longrightarrow> decimal n = decimal (n div 10) @ [char_of (n mod 10 + 48)]" "n < 10 \<Longrightarrow> decimal n = [char_of (n + 48)]"
  by (simp_all add: decimal.simps [of n])

lemma digit_value_char: "d < 10 \<Longrightarrow> digit_value 10 (char_of (d + 48)) = Some d"
  by (simp add: digit_value_def Let_def take_bit_eq_mod)

lemma decimal_digits: "all_digits (decimal n)" "digits_value 10 (map (\<lambda>c. the (digit_value 10 c)) (decimal n)) = n"
proof (induction n rule: less_induct)
  case (less n)
  {
    case 1
    then show ?case
      using less(1) [of "n div 10"] digit_value_char [of "n mod 10"] digit_value_char [of n]
      by (cases "n < 10") (auto simp: decimal_Cons all_digits_def not_less)
  next
    case 2
    then show ?case
      using less(2) [of "n div 10"] digit_value_char [of "n mod 10"] digit_value_char [of n]
      by (cases "n < 10") (auto simp: decimal_Cons digits_value_def not_less)
  }
qed

lemma digits_no_colon: "all_digits s \<Longrightarrow> CHR '':'' \<notin> set s"
  by (auto simp: all_digits_def list_all_iff digit_value_def)

lemma span_all_digits: "all_digits s \<Longrightarrow> span_digits 10 s = (map (\<lambda>c. the (digit_value 10 c)) s, [])"
  by (intro span_digits_all) (auto simp: all_digits_def list_all_iff)

lemma decimal_inj: "decimal m = decimal n \<longleftrightarrow> m = n"
  by (metis decimal_digits(2))

lemma js_split_append_all: "js_split c (xs @ c # ys) = js_split c xs @ js_split c ys"
proof (induction xs)
  case (Cons x xs)
  then show ?case by (cases "js_split c xs") auto
qed simp

definition member :: "(number \<Rightarrow> string) \<Rightarrow> number \<Rightarrow> number \<Rightarrow> nat \<Rightarrow> string" where
  "member g14 t c q = lua_text g14 t @ '':'' @ lua_text g14 c @ '':'' @ lua_text g14 (of_nat q)"

lemma lua_text_nat: "n < 10 ^ 14 \<Longrightarrow> lua_text g14 (of_nat n) = decimal n"
  by (simp add: lua_text_def)

lemma safe_nat:
  assumes "safe_int c" "c < 10 ^ 14"
  obtains i where "c = of_nat i" "i < 10 ^ 14"
proof -
  obtain i where "c = of_int i" "0 \<le> i" using assms(1) by (auto elim: safe_intE)
  then have "c = of_nat (nat i)" by simp
  moreover from this assms(2) have "nat i < 10 ^ 14" by (metis of_nat_less_iff of_nat_numeral of_nat_power)
  ultimately show thesis by (rule that)
qed

lemma member_split:
  assumes "safe_int c" "c < 10 ^ 14" "q < 10 ^ 14"
  obtains i where "c = of_nat i" "js_split (CHR '':'') (member g14 t c q) = js_split (CHR '':'') (lua_text g14 t) @ [decimal i, decimal q]"
proof -
  obtain i where i: "c = of_nat i" "i < 10 ^ 14" using safe_nat [OF assms(1,2)] .
  have "js_split (CHR '':'') (member g14 t c q) = js_split (CHR '':'') (lua_text g14 t) @ [decimal i, decimal q]"
    using i assms(3) digits_no_colon [OF decimal_digits(1)]
    by (simp add: member_def lua_text_nat js_split_append_all)
  with i(1) show thesis by (rule that)
qed

lemma member_weight_member:
  assumes "safe_int c" "c < 10 ^ 14" "q < 10 ^ 14"
  shows "member_weight (member g14 t c q) = Some c"
proof -
  obtain i where i: "c = of_nat i" "js_split (CHR '':'') (member g14 t c q) = js_split (CHR '':'') (lua_text g14 t) @ [decimal i, decimal q]"
    using member_split [OF assms] .
  obtain p ps where "rev (js_split (CHR '':'') (lua_text g14 t)) = p # ps"
    by (metis js_split_nonempty neq_Nil_conv rev_is_Nil_conv)
  with i assms(1) show ?thesis
    by (simp add: member_weight_def decimal_digits span_all_digits)
qed

lemma member_inj:
  assumes "safe_int c" "c < 10 ^ 14" "q < 10 ^ 14" "safe_int c'" "c' < 10 ^ 14" "q' < 10 ^ 14"
    and "member g14 t c q = member g14 t' c' q'"
  shows "q = q'"
  using member_split [OF assms(1-3), of g14 t] member_split [OF assms(4-6), of g14 t'] assms(7)
  by (metis decimal_inj last.simps last_appendR list.distinct(1))

section \<open>The sorted set and the log\<close>

text \<open>What the script reads off a sorted set: times and weights.\<close>

definition decode :: "(number \<times> string) list \<Rightarrow> (number \<times> number) list" where
  "decode z = map (\<lambda>(t, m). (t, case member_weight m of Some x \<Rightarrow> x | None \<Rightarrow> 1)) z"

lemma decode_simps [simp]:
  "decode [] = []" "decode (e # z) = (fst e, case member_weight (snd e) of Some x \<Rightarrow> x | None \<Rightarrow> 1) # decode z"
  by (simp_all add: decode_def case_prod_beta)

lemma decode_filter: "decode (filter (\<lambda>(t, m). P t) z) = filter (\<lambda>(t, c). P t) (decode z)"
  by (induction z) auto

lemma decode_times: "map fst (decode z) = map fst z"
  by (induction z) auto

lemma decode_insort: "mset (decode (insort e z)) = add_mset (hd (decode [e])) (mset (decode z))"
  by (simp add: decode_def case_prod_beta)

lemma total_cost_mset: "mset es = mset fs \<Longrightarrow> total_cost es = total_cost fs"
  unfolding total_cost_def by (metis mset_map sum_mset_sum_list)

lemma sorted_times:
  assumes "mset es = mset fs" "sorted (map fst es)" "sorted (map fst fs)"
  shows "map fst es = map fst fs"
  using assms by (metis mset_map properties_for_sort)

lemma sorted_scores: "sorted z \<Longrightarrow> sorted (map fst (z :: (number \<times> string) list))"
  by (induction z) (auto simp: less_eq_prod_def)

text \<open>
  Every member was made by the script, with a number up to \<open>m\<close>.
\<close>

definition members_upto :: "(number \<Rightarrow> string) \<Rightarrow> nat \<Rightarrow> (number \<times> string) list \<Rightarrow> bool" where
  "members_upto g14 m z \<longleftrightarrow> (\<forall>e \<in> set z. \<exists>t c q. snd e = member g14 t c q \<and> q \<le> m \<and> safe_int c \<and> c < 10 ^ 14)"

lemma members_upto_insort:
  assumes "members_upto g14 m z" "safe_int c" "c < 10 ^ 14"
  shows "members_upto g14 (m + 1) (insort (t, member g14 t c (m + 1)) z)"
  unfolding members_upto_def
proof
  fix e
  assume "e \<in> set (insort (t, member g14 t c (m + 1)) z)"
  then consider "e = (t, member g14 t c (m + 1))" | "e \<in> set z" by (auto simp: set_insort_key)
  then show "\<exists>t c q. snd e = member g14 t c q \<and> q \<le> m + 1 \<and> safe_int c \<and> c < 10 ^ 14"
  proof cases
    case 1
    with assms(2,3) show ?thesis by (intro exI [of _ t] exI [of _ c] exI [of _ "m + 1"]) simp
  next
    case 2
    with assms(1) show ?thesis unfolding members_upto_def by (meson trans_le_add1)
  qed
qed

lemma new_member:
  assumes "members_upto g14 m z" "m + 1 < 10 ^ 14" "safe_int c" "c < 10 ^ 14"
  shows "filter (\<lambda>(_, m'). m' \<noteq> member g14 t c (m + 1)) z = z"
proof -
  have "snd e \<noteq> member g14 t c (m + 1)" if "e \<in> set z" for e
  proof
    assume e: "snd e = member g14 t c (m + 1)"
    from that assms(1) obtain u d q where q: "snd e = member g14 u d q" "q \<le> m" "safe_int d" "d < 10 ^ 14"
      by (auto simp: members_upto_def)
    have "member g14 u d q = member g14 t c (m + 1)" using q(1) e by simp
    from member_inj [OF q(3,4) _ assms(3,4,2) this] have "q = m + 1" using q(2) assms(2) by simp
    with q(2) show False by simp
  qed
  then show ?thesis by (intro filter_True ballI) (simp add: case_prod_beta)
qed

definition log_entries :: "sliding_window_log_state option \<Rightarrow> (number \<times> number) list" where
  "log_entries s = (case s of None \<Rightarrow> [] | Some s \<Rightarrow> swl_entries s)"

text \<open>
  The log was last extended at \<open>tw\<close> (Redis time \<open>rw\<close>), by member \<open>m\<close>; the set and the counter expire
  together.
\<close>

definition stored_log :: "(number \<Rightarrow> string) \<Rightarrow> policy \<Rightarrow> string \<Rightarrow> nat \<Rightarrow> number \<Rightarrow> number \<Rightarrow> redis_db \<Rightarrow> (number \<times> string) list
    \<Rightarrow> number \<Rightarrow> number \<Rightarrow> nat \<Rightarrow> bool" where
  "stored_log g14 p k n t rt db z tw rw m \<longleftrightarrow>
     tw \<le> t \<and> rw \<le> rt \<and> rt - rw \<le> t - tw \<and> m \<le> n
     \<and> db k = Some \<lparr>re_value = RZset z, re_expires = Some (rw + windowMs p)\<rparr>
     \<and> db (k @ '':seq'') = Some \<lparr>re_value = RCounter m, re_expires = Some (rw + windowMs p)\<rparr>
     \<and> sorted z \<and> members_upto g14 m z \<and> (\<forall>e \<in> set z. fst e \<le> tw)"

definition log_sim :: "(number \<Rightarrow> string) \<Rightarrow> policy \<Rightarrow> string \<Rightarrow> nat \<Rightarrow> number \<Rightarrow> number \<Rightarrow> redis_db
    \<Rightarrow> sliding_window_log_state option \<Rightarrow> bool" where
  "log_sim g14 p k n t rt db s \<longleftrightarrow>
     pred_option (swl_inv p) s \<and> sorted (map fst (log_entries s))
     \<and> (\<forall>e \<in> set (log_entries s). fst e \<le> t)
     \<and> (\<forall>e. live db rt (k @ '':seq'') = Some e \<longrightarrow> (\<exists>m \<le> n. re_value e = RCounter m))
     \<and> (live db rt k = None \<and> log_entries s = []
        \<or> (\<exists>z tw rw m. stored_log g14 p k n t rt db z tw rw m \<and> mset (decode z) = mset (log_entries s)))"

lemma swl_alive_entries: "swl_alive p s now = filter (\<lambda>(t, c). now - windowMs p < t) (log_entries s)"
  by (cases s) (simp_all add: swl_alive_def log_entries_def)

text \<open>Trimming and reading: the alive part of the log, which is nothing once the key has expired.\<close>

lemma trimmed:
  assumes "log_sim g14 p k n now rt db s" "valid_policy p" "safe_int now"
  obtains db1 z where
    "\<And>F. rbind (ZREMRANGEBYSCORE rt k (js_sub now (windowMs p))) (\<lambda>_. rbind (ZRANGE rt k) F) db = F z db1"
    "\<And>k'. k' \<noteq> k \<Longrightarrow> db1 k' = db k'"
    "mset (decode z) = mset (swl_alive p s now)" "sorted z"
    "z = [] \<and> live db1 rt k = None \<or> z \<noteq> [] \<and> live db1 rt k \<noteq> None \<and> (\<exists>tw rw m. stored_log g14 p k n now rt db1 z tw rw m)"
proof (cases "live db rt k")
  case None
  have "swl_alive p s now = []"
  proof (cases "log_entries s = []")
    case False
    then obtain z tw rw m where st: "stored_log g14 p k n now rt db z tw rw m" and z: "mset (decode z) = mset (log_entries s)"
      using assms(1) by (auto simp: log_sim_def)
    then have "now - windowMs p > tw" using None by (auto simp: stored_log_def live_present split: if_splits)
    moreover have "fst e \<le> tw" if "e \<in> set (log_entries s)" for e
    proof -
      have "e \<in> set (decode z)" using that z by (metis set_mset_mset)
      then have "fst e \<in> set (map fst z)" using decode_times by (metis image_eqI list.set_map)
      then show ?thesis using st by (auto simp: stored_log_def)
    qed
    ultimately show ?thesis by (fastforce simp: swl_alive_entries filter_empty_conv)
  qed (simp add: swl_alive_entries)
  with None show thesis
    by (intro that [of "[]" db]) (simp_all add: rbind_def ZREMRANGEBYSCORE_def ZRANGE_def)
next
  case (Some e)
  then obtain z tw rw m where st: "stored_log g14 p k n now rt db z tw rw m" and z: "mset (decode z) = mset (log_entries s)"
    using assms(1) by (auto simp: log_sim_def)
  let ?z = "filter (\<lambda>(t, m). now - windowMs p < t) z"
  let ?db = "if ?z = [] then db(k := None) else db(k \<mapsto> \<lparr>re_value = RZset ?z, re_expires = Some (rw + windowMs p)\<rparr>)"
  have e: "e = \<lparr>re_value = RZset z, re_expires = Some (rw + windowMs p)\<rparr>" "\<not> rw + windowMs p < rt"
    using Some st by (auto simp: stored_log_def live_present split: if_splits)
  have w: "js_sub now (windowMs p) = now - windowMs p" using assms by (simp add: valid_policyD)
  have "mset (decode ?z) = mset (swl_alive p s now)"
    unfolding decode_filter swl_alive_entries using z by (metis mset_filter)
  moreover have "sorted ?z" using st by (simp add: stored_log_def sorted_wrt_filter)
  moreover have "stored_log g14 p k n now rt ?db ?z tw rw m" if "?z \<noteq> []"
    using st that by (auto simp: stored_log_def members_upto_def sorted_wrt_filter)
  ultimately show thesis
    using Some e by (intro that [of ?z ?db])
      (auto simp: rbind_def ZREMRANGEBYSCORE_def ZRANGE_def w Let_def)
qed

lemma slidingWindowLog_eq:
  assumes "valid_policy p" "safe_int now" "pred_option (swl_inv p) s"
  shows "slidingWindowLog s p now cost =
    (let alive = swl_alive p s now; cur = total_cost alive; ok = (js_add cur cost \<le> limit p)
     in (\<lparr>swl_entries = (if ok then alive @ [(now, cost)] else alive)\<rparr>,
         \<lparr>allowed = ok, res_limit = limit p, remaining = max 0 (js_sub (limit p) (if ok then js_add cur cost else cur)),
          retryAfterMs = (if ok then 0 else js_sub (js_add (case alive of [] \<Rightarrow> now | (ts, c) # _ \<Rightarrow> ts) (windowMs p)) now)\<rparr>))"
proof -
  note A = swl_alive_safe [OF assms(1,3), of now]
  have "filter (\<lambda>(ts, c). js_sub now (windowMs p) < ts) (case s of Some s \<Rightarrow> swl_entries s | None \<Rightarrow> []) = swl_alive p s now"
    using assms by (simp add: swl_alive_def valid_policyD)
  moreover have "foldl (\<lambda>acc (ts, c). js_add acc c) 0 (swl_alive p s now) = total_cost (swl_alive p s now)"
    using log_sum [OF A(1), of 0 "limit p"] A(2) valid_policyD(1) [OF assms(1)] by simp
  ultimately show ?thesis unfolding slidingWindowLog_def by (simp add: Let_def)
qed

text \<open>The script counts over the decoded set; the order does not matter, the times are those of the log.\<close>

lemma counted:
  assumes "valid_policy p" "pred_option (swl_inv p) s" "mset (decode z) = mset (swl_alive p s now)"
  shows "foldl (\<lambda>acc (score, m). js_add acc (case member_weight m of Some x \<Rightarrow> x | None \<Rightarrow> 1)) 0 z = total_cost (swl_alive p s now)"
proof -
  note A = swl_alive_safe [OF assms(1,2), of now]
  have "foldl (\<lambda>acc (score, m). js_add acc (case member_weight m of Some x \<Rightarrow> x | None \<Rightarrow> 1)) a z
      = foldl (\<lambda>acc (ts, c). js_add acc c) a (decode z)" for a
    by (induction z arbitrary: a) auto
  moreover have "\<forall>(t, c) \<in> set (decode z). safe_int t \<and> safe_int c" using A(1) assms(3) by (metis set_mset_mset)
  ultimately show ?thesis
    using log_sum [of "decode z" 0 "limit p"] A(2) total_cost_mset [OF assms(3)] valid_policyD(1) [OF assms(1)] by simp
qed

lemma oldest:
  assumes "mset (decode z) = mset alive" "sorted z" "sorted (map fst alive)"
  shows "(case (case z of [] \<Rightarrow> None | (score, m) # _ \<Rightarrow> Some score) of Some t \<Rightarrow> t | None \<Rightarrow> now)
    = (case alive of [] \<Rightarrow> now | (ts, c) # _ \<Rightarrow> ts)"
proof -
  have "map fst z = map fst alive"
    using sorted_times [OF assms(1) _ assms(3)] sorted_scores [OF assms(2)] by (simp add: decode_times)
  then show ?thesis by (cases z; cases alive) auto
qed

lemma next_seq:
  assumes "\<forall>e. live db rt k = Some e \<longrightarrow> (\<exists>m \<le> n. re_value e = RCounter m)" "ms \<in> \<int>" "0 \<le> ms" "ms < 10 ^ 17"
  obtains m where "m \<le> n"
    "\<And>F. rbind (INCR rt k) (\<lambda>seq. rbind (PEXPIRE rt k ms) (\<lambda>_. F seq)) db
       = F (m + 1) (db(k \<mapsto> \<lparr>re_value = RCounter (m + 1), re_expires = Some (rt + ms)\<rparr>))"
    "\<And>e. live db rt k = Some e \<Longrightarrow> re_value e = RCounter m"
proof (cases "live db rt k")
  case None
  with assms show thesis by (intro that [of 0]) (auto simp: rbind_def INCR_def PEXPIRE_ok)
next
  case (Some e)
  then have "case re_expires e of Some x \<Rightarrow> \<not> x < rt | None \<Rightarrow> True"
    by (auto simp: live_def split: option.splits if_splits)
  moreover obtain m where "m \<le> n" "re_value e = RCounter m" using assms(1) Some by blast
  ultimately show thesis
    using Some assms by (intro that [of m]; cases e) (auto simp: rbind_def INCR_def PEXPIRE_ok split: option.splits)
qed

lemma add_member:
  assumes "z = [] \<and> live db rt k = None \<or> z \<noteq> [] \<and> (\<exists>x. db k = Some \<lparr>re_value = RZset z, re_expires = Some x\<rparr> \<and> \<not> x < rt)"
    and "filter (\<lambda>(_, m'). m' \<noteq> m) z = z" "ms \<in> \<int>" "0 \<le> ms" "ms < 10 ^ 17"
  shows "rbind (ZADD rt k t m) (\<lambda>_. rbind (PEXPIRE rt k ms) (\<lambda>_. G)) db
    = G (db(k \<mapsto> \<lparr>re_value = RZset (insort (t, m) z), re_expires = Some (rt + ms)\<rparr>))"
  using assms by (auto simp: rbind_def ZADD_def PEXPIRE_ok live_present split: option.splits)

lemma log_step:
  assumes sim: "log_sim g14 p k n now rt db s" and p: "ready_policy p"
    and a: "safe_int now" "safe_int cost" "cost < 10 ^ 14" "n + 1 < 10 ^ 14"
  shows "\<exists>db' r. rs_consume (slidingWindowLog_lua documented g14) rt db k p now cost = (db', Inr r)
    \<and> r = snd (slidingWindowLog s p now cost) \<and> log_sim g14 p k (n + 1) now rt db' (Some (fst (slidingWindowLog s p now cost)))
    \<and> (\<forall>k'. k' \<noteq> k \<and> k' \<noteq> k @ '':seq'' \<longrightarrow> db' k' = db k')"
proof -
  note v = ready_policyD(1) [OF p] and w = ready_policyD(3-5) [OF p]
  have inv: "pred_option (swl_inv p) s" using sim by (simp add: log_sim_def)
  obtain db1 z where run: "\<And>F :: _ \<Rightarrow> (redis_db, number \<times> number \<times> number) redis. rbind (ZREMRANGEBYSCORE rt k (js_sub now (windowMs p))) (\<lambda>_. rbind (ZRANGE rt k) F) db = F z db1"
    and frame: "\<And>k'. k' \<noteq> k \<Longrightarrow> db1 k' = db k'" and z: "mset (decode z) = mset (swl_alive p s now)" "sorted z"
    and at_k: "z = [] \<and> live db1 rt k = None \<or> z \<noteq> [] \<and> live db1 rt k \<noteq> None \<and> (\<exists>tw rw m. stored_log g14 p k n now rt db1 z tw rw m)"
    by (rule trimmed [OF sim v a(1)]) (rule that)
  let ?alive = "swl_alive p s now" and ?r = "snd (slidingWindowLog s p now cost)"
  let ?cur = "total_cost ?alive"
  note eq = slidingWindowLog_eq [OF v a(1) inv, of cost, unfolded Let_def]
  have sorted_alive: "sorted (map fst ?alive)" and upto: "\<forall>e \<in> set ?alive. fst e \<le> now"
    using sim by (auto simp: log_sim_def swl_alive_entries sorted_filter)
  have inv': "swl_inv p (fst (slidingWindowLog s p now cost))"
    using swl.alg_inv [OF v a(1,2) inv] by (metis prod.collapse)
  have ints: "?cur \<in> \<int>" "cost \<in> \<int>" "now \<in> \<int>" "limit p \<in> \<int>" "(case ?alive of [] \<Rightarrow> now | (ts, c) # _ \<Rightarrow> ts) \<in> \<int>"
    using swl_alive_safe [OF v inv, of now] a ready_policyD(6) [OF p] by (auto split: list.splits)
  have reply: "res_limit ?r = limit p" "remaining ?r \<in> \<int>" "retryAfterMs ?r \<in> \<int>"
    using ints w(1) by (auto simp: eq)
  have seq: "\<forall>e. live db1 rt (k @ '':seq'') = Some e \<longrightarrow> (\<exists>m \<le> n. re_value e = RCounter m)"
    using sim frame [of "k @ '':seq''"] live_cong [of db1 "k @ '':seq''" db] by (simp add: log_sim_def)
  show ?thesis
  proof (cases "js_add ?cur cost \<le> limit p")
    case False
    have "slidingWindowLog_lua documented g14 rt k (limit p) (windowMs p) (capacity p) now cost db
        = script_reply (allowed ?r) (remaining ?r) (retryAfterMs ?r) db1"
      unfolding slidingWindowLog_lua_def documented_simps Let_def run counted [OF v inv z(1)] oldest [OF z sorted_alive]
      using False by (simp add: eq)
    from rs_consume_reply [where command = "slidingWindowLog_lua documented g14", OF this reply]
    have "rs_consume (slidingWindowLog_lua documented g14) rt db k p now cost = (db1, Inr ?r)" by simp
    moreover have "log_sim g14 p k (n + 1) now rt db1 (Some (fst (slidingWindowLog s p now cost)))"
    proof -
      have "live db1 rt k = None \<and> ?alive = []
          \<or> (\<exists>z tw rw m. stored_log g14 p k (n + 1) now rt db1 z tw rw m \<and> mset (decode z) = mset ?alive)"
        using at_k z(1) by (fastforce simp: stored_log_def)
      then show ?thesis
        using inv' sorted_alive upto seq False unfolding log_sim_def
        by (simp add: eq log_entries_def) (metis le_SucI)
    qed
    ultimately show ?thesis using frame by blast
  next
    case True
    obtain m where m: "m \<le> n"
      and incr: "\<And>F :: _ \<Rightarrow> (redis_db, number \<times> number \<times> number) redis. rbind (INCR rt (k @ '':seq'')) (\<lambda>q. rbind (PEXPIRE rt (k @ '':seq'') (windowMs p)) (\<lambda>_. F q)) db1
        = F (m + 1) (db1(k @ '':seq'' \<mapsto> \<lparr>re_value = RCounter (m + 1), re_expires = Some (rt + windowMs p)\<rparr>))"
      and counter: "\<And>e. live db1 rt (k @ '':seq'') = Some e \<Longrightarrow> re_value e = RCounter m"
      by (rule next_seq [OF seq w]) (rule that)
    let ?db2 = "db1(k @ '':seq'' \<mapsto> \<lparr>re_value = RCounter (m + 1), re_expires = Some (rt + windowMs p)\<rparr>)"
    let ?m = "member g14 now cost (m + 1)"
    have m14: "m + 1 < 10 ^ 14" using m a(4) by simp
    have members: "members_upto g14 m z" and times: "\<forall>e \<in> set z. fst e \<le> now"
      and stored: "z = [] \<and> live ?db2 rt k = None
        \<or> z \<noteq> [] \<and> (\<exists>x. ?db2 k = Some \<lparr>re_value = RZset z, re_expires = Some x\<rparr> \<and> \<not> x < rt)"
      using at_k counter by (fastforce simp: stored_log_def members_upto_def live_present split: if_splits)+
    have old: "filter (\<lambda>(_, m'). m' \<noteq> ?m) z = z" using new_member [OF members m14 a(2,3)] .
    let ?db3 = "?db2(k \<mapsto> \<lparr>re_value = RZset (insort (now, ?m) z), re_expires = Some (rt + windowMs p)\<rparr>)"
    have "slidingWindowLog_lua documented g14 rt k (limit p) (windowMs p) (capacity p) now cost db
        = script_reply (allowed ?r) (remaining ?r) (retryAfterMs ?r) ?db3"
      unfolding slidingWindowLog_lua_def documented_simps Let_def run counted [OF v inv z(1)] oldest [OF z sorted_alive]
        eqTrueI [OF True] if_True incr member_def [symmetric] add_member [OF stored old w]
      by (simp add: eq True)
    from rs_consume_reply [where command = "slidingWindowLog_lua documented g14", OF this reply]
    have "rs_consume (slidingWindowLog_lua documented g14) rt db k p now cost = (?db3, Inr ?r)" by simp
    moreover have "log_sim g14 p k (n + 1) now rt ?db3 (Some (fst (slidingWindowLog s p now cost)))"
    proof -
      have "stored_log g14 p k (n + 1) now rt ?db3 (insort (now, ?m) z) now rt (m + 1)"
        using m z(2) members_upto_insort [OF members a(2,3)] times
        by (auto simp: stored_log_def sorted_insort set_insort_key)
      moreover have "mset (decode (insort (now, ?m) z)) = mset (?alive @ [(now, cost)])"
        using z(1) by (simp add: decode_insort member_weight_member [OF a(2,3) m14, simplified])
      ultimately have "\<exists>z tw rw m'. stored_log g14 p k (n + 1) now rt ?db3 z tw rw m' \<and> mset (decode z) = mset (?alive @ [(now, cost)])"
        by blast
      moreover have "\<exists>m' \<le> n + 1. re_value e = RCounter m'" if "live ?db3 rt (k @ '':seq'') = Some e" for e
        using that m by (auto split: if_splits)
      ultimately show ?thesis
        using inv' sorted_alive upto True unfolding log_sim_def
        by (simp add: eq log_entries_def sorted_append)
    qed
    ultimately show ?thesis using frame by auto
  qed
qed

section \<open>The store\<close>

interpretation swl_redis: redis_algorithm slidingWindowLog "slidingWindowLog_lua documented g14" "rs_reset documented SlidingWindowLog" "log_sim g14" id
  for g14 :: "number \<Rightarrow> string"
proof unfold_locales
  fix p k n n' t t' rt rt' s and db db' :: redis_db
  show "log_sim g14 p k n' t' rt' db s"
    if a: "log_sim g14 p k n t rt db s" "n \<le> n'" "t \<le> t'" "rt \<le> rt'" "rt' - rt \<le> t' - t"
  proof -
    have "stored_log g14 p k n' t' rt' db z tw rw m" if "stored_log g14 p k n t rt db z tw rw m" for z tw rw m
      using that a(2-) by (auto simp: stored_log_def)
    moreover have "\<exists>m \<le> n'. re_value e = RCounter m" if "live db rt' (k @ '':seq'') = Some e" for e
    proof -
      have "live db rt (k @ '':seq'') = Some e" using that a(4) by (auto simp: live_def split: option.splits if_splits)
      then show ?thesis using a(1,2) by (auto simp: log_sim_def intro: order_trans)
    qed
    moreover have "live db rt k = None \<Longrightarrow> live db rt' k = None" using live_later a(4) by blast
    ultimately show ?thesis using a(1,3) unfolding log_sim_def by (meson order_trans)
  qed
  show "log_sim g14 p k n t rt db' s"
    if "log_sim g14 p k n t rt db s" "db' k = db k" "db' (k @ '':seq'') = db (k @ '':seq'')"
    using that live_cong [of db' k db rt] live_cong [of db' "k @ '':seq''" db rt] by (simp add: log_sim_def stored_log_def)
next
  fix p k n now rt s cost and db :: redis_db
  show "\<exists>db' r. rs_consume (slidingWindowLog_lua documented g14) rt db k p now cost = (db', Inr r)
      \<and> id r = id (snd (slidingWindowLog s p now cost))
      \<and> log_sim g14 p k (n + 1) now rt db' (Some (fst (slidingWindowLog s p now cost)))
      \<and> (\<forall>k'. k' \<noteq> k \<and> k' \<noteq> k @ '':seq'' \<longrightarrow> db' k' = db k')"
    if "log_sim g14 p k n now rt db s" "ready_policy p" "safe_int now" "safe_int cost" "cost < 10 ^ 14" "n + 1 < 10 ^ 14"
    using log_step [OF that] by auto
qed (auto simp: log_sim_def rs_reset_def DEL_def log_entries_def live_def)

text \<open>The simulations of the five stores, by name.\<close>

lemma reset_hash: "a \<noteq> SlidingWindowLog \<Longrightarrow> rs_reset documented a = del_key"
  by (intro ext) (simp add: rs_reset_def del_key_def)

lemmas redis_algorithms = fw_redis.hash_redis_algorithm tb_redis.hash_redis_algorithm lb_redis.hash_redis_algorithm
  swc_redis.hash_redis_algorithm

text \<open>A command of the client: \<open>createRedisStore\<close> on a client that has none yet.\<close>

definition command_of :: "'d redis_client \<Rightarrow> (number \<Rightarrow> string) \<Rightarrow> algorithm_name \<Rightarrow> 'd script" where
  "command_of R g14 a = the (createRedisStore R g14 a Map.empty (COMMAND_NAME a))"

text \<open>The part of the answers compared: all of them, but for the remaining quota of the sliding window counter.\<close>

definition compared :: "algorithm_name \<Rightarrow> rate_result \<Rightarrow> rate_result" where
  "compared a = (if a = SlidingWindowCounter then but_remaining else id)"

definition ms_call :: "number \<Rightarrow> memory_store \<Rightarrow> string \<Rightarrow> policy \<Rightarrow> number \<Rightarrow> number \<Rightarrow> memory_store \<times> (unit + rate_result)" where
  "ms_call rt m k p now cost = (let (m', r) = ms_consume m k p now cost in (m', Inr r))"

lemma command_of_eq: "command_of R g14 a = loadLua R g14 a"
  by (simp add: command_of_def createRedisStore_def)

text \<open>On a server that behaves as documented a run answers as on the keyspace it holds.\<close>

abbreviation redis_run_of :: "'d redis_client \<Rightarrow> (number \<Rightarrow> string) \<Rightarrow> algorithm_name \<Rightarrow> (string \<Rightarrow> policy) \<Rightarrow> 'd
    \<Rightarrow> shared_call list \<Rightarrow> shared_answer list" where
  "redis_run_of R g14 a \<equiv> shared_run (rs_consume (command_of R g14 a)) (rs_reset R a)"


context redis_server begin

lemma run_served: "redis_run_of R g14 a pol d cs = redis_run_of documented g14 a pol (view d) cs"
proof (induction cs arbitrary: d)
  case (Cons c cs)
  then show ?case by (cases c) (simp_all add: command_of_eq consume_served reset_served case_prod_beta Let_def)
qed simp

end

lemmas behaves_run = redis_server.run_served [OF redis_server.intro]

lemma shared_run_wrapped:
  assumes "\<And>rt st k p now cost. con rt (W st) k p now cost = map_prod W id (memory_consume alg rt st k p now cost)"
    and "\<And>rt st k. rst rt (W st) k = W (from_reset st k)"
  shows "shared_run con rst pol (W st) cs = shared_run (memory_consume alg) (\<lambda>_. from_reset) pol st cs"
proof (induction cs arbitrary: st)
  case (Cons c cs)
  then show ?case
    by (cases c) (simp_all add: assms map_prod_def case_prod_beta)
qed simp

lemma memory_run:
  "shared_run ms_call (\<lambda>_. ms_reset) pol (FwStore st1) cs = shared_run (memory_consume fixedWindow) (\<lambda>_. from_reset) pol st1 cs"
  "shared_run ms_call (\<lambda>_. ms_reset) pol (TbStore st2) cs = shared_run (memory_consume tokenBucket) (\<lambda>_. from_reset) pol st2 cs"
  "shared_run ms_call (\<lambda>_. ms_reset) pol (LbStore st3) cs = shared_run (memory_consume leakyBucket) (\<lambda>_. from_reset) pol st3 cs"
  "shared_run ms_call (\<lambda>_. ms_reset) pol (SwlStore st4) cs = shared_run (memory_consume slidingWindowLog) (\<lambda>_. from_reset) pol st4 cs"
  "shared_run ms_call (\<lambda>_. ms_reset) pol (SwcStore st5) cs = shared_run (memory_consume slidingWindowCounter) (\<lambda>_. from_reset) pol st5 cs"
  by (rule shared_run_wrapped; simp add: ms_call_def memory_consume_def from_consume_def case_prod_beta)+

lemma redis_alike:
  assumes "\<And>k. k \<in> K \<Longrightarrow> ready_policy (pol k)" "apart K" "on_key ` set cs \<subseteq> K"
    and "valid_calls t rt cs" "length cs < 10 ^ 14"
  shows "observe (compared a) (redis_run_of documented g14 a pol Map.empty cs)
    = observe (compared a) (shared_run ms_call (\<lambda>_. ms_reset) pol (createMemoryStore a) cs)"
proof -
  note run = redis_algorithm.fresh_run_alike [OF _ assms]
  show ?thesis
    using redis_algorithms [THEN run] run [OF swl_redis.redis_algorithm_axioms]
    by (cases a) (simp_all add: compared_def command_of_eq memory_run reset_hash)
qed

text \<open>
  C6: the Redis store answers as the in-process store does. On a server that behaves as documented and
  starts empty, for every algorithm and every interleaving of calls and resets on any keys, with the
  policy of each key fixed and Redis' clock not faster than the callers', the scripts give the same
  decisions, limits and retry delays, and, except for the sliding window counter, the same remaining
  quota; none of them fails.
\<close>

theorem redisStore_equivalent:
  assumes "behaves R view" "view d = Map.empty"
    and "\<And>k. k \<in> K \<Longrightarrow> ready_policy (pol k)" "apart K" "on_key ` set cs \<subseteq> K"
    and "valid_calls t rt cs" "length cs < 10 ^ 14"
  shows "observe (compared a) (shared_run (rs_consume (command_of R g14 a)) (rs_reset R a) pol d cs)
    = observe (compared a) (shared_run ms_call (\<lambda>_. ms_reset) pol (createMemoryStore a) cs)"
  unfolding behaves_run [OF assms(1)] assms(2) using assms(3-) by (rule redis_alike)

text \<open>What a key is granted, over all the instances that share the store.\<close>

definition granted_to :: "string \<Rightarrow> shared_answer list \<Rightarrow> (number \<times> number) list" where
  "granted_to k as = List.map_filter (\<lambda>(k', now, cost, r).
     case r of Inr a \<Rightarrow> if k' = k \<and> allowed a then Some (now, cost) else None | Inl e \<Rightarrow> None) as"

definition requests_on :: "string \<Rightarrow> shared_call list \<Rightarrow> (number \<times> number) list" where
  "requests_on k cs = List.map_filter (\<lambda>c. case c of SharedConsume now rt k' cost \<Rightarrow> if k' = k then Some (now, cost) else None
     | SharedReset now rt k' \<Rightarrow> None) cs"

lemma granted_observed: "granted_to k (observe id as) = granted_to k as"
  unfolding observe_def granted_to_def by (induction as) (auto simp: List.map_filter_simps split: sum.splits)

lemma granted_in_memory:
  assumes "\<forall>c \<in> set cs. \<forall>now rt. c \<noteq> SharedReset now rt k"
  shows "granted_to k (shared_run (memory_consume alg) (\<lambda>_. from_reset) pol st cs) = admitted alg (pol k) (st k) (requests_on k cs)"
  using assms
proof (induction cs arbitrary: st)
  case (Cons c cs)
  then show ?case
    by (cases c) (auto simp: granted_to_def requests_on_def List.map_filter_simps memory_consume_def from_consume_def
        from_reset_def case_prod_beta)
qed (simp add: granted_to_def requests_on_def List.map_filter_simps)

lemma valid_requests_on:
  "valid_calls t rt cs \<Longrightarrow> valid_requests t (requests_on k cs)"
proof (induction cs arbitrary: t rt)
  case (Cons c cs)
  have weaken: "valid_requests u rs \<Longrightarrow> v \<le> u \<Longrightarrow> valid_requests v rs" for u v rs
    by (cases rs) auto
  from Cons.IH [of "call_time c" "redis_time c"] Cons.prems weaken show ?case
    by (cases c) (auto simp: requests_on_def List.map_filter_simps)
qed (simp add: requests_on_def List.map_filter_simps)


section \<open>Where it is not equivalent\<close>

text \<open>
  A bucket's time is the clock of the instance that calls, and it is set back when an instance behind
  calls. Two instances whose clocks differ by a window refill the bucket at every change of turn.
\<close>

definition skewed :: "nat \<Rightarrow> shared_call list" where
  "skewed n = concat (replicate n [SharedConsume 2000 0 ''k'' 1, SharedConsume 1000 0 ''k'' 1])"

definition per_second :: policy where
  "per_second = \<lparr>limit = 1000, windowMs = 1000, burst = None\<rparr>"

lemma per_second: "ready_policy per_second" "rate_per_ms per_second = 1" "windowMs per_second = 1000"
  by (simp_all add: ready_policy_def precise_policy_def valid_policy_def per_second_def capacity_def rate_per_ms_def js_div_def)

definition behind_state :: token_bucket_state where
  "behind_state = \<lparr>tb_tokens = 998, tb_lastRefillMs = 1000\<rparr>"

lemma turn:
  assumes "s = None \<or> s = Some behind_state"
  shows "fst (tokenBucket s per_second 2000 1) = \<lparr>tb_tokens = 999, tb_lastRefillMs = 2000\<rparr>"
    "allowed (snd (tokenBucket s per_second 2000 1))"
    "fst (tokenBucket (Some \<lparr>tb_tokens = 999, tb_lastRefillMs = 2000\<rparr>) per_second 1000 1) = behind_state"
    "allowed (snd (tokenBucket (Some \<lparr>tb_tokens = 999, tb_lastRefillMs = 2000\<rparr>) per_second 1000 1))"
  using assms per_second by (auto simp: tokenBucket_def Let_def elapsed_since_def js_ops capacity_def per_second_def behind_state_def round64_minus)

lemma turn_in_redis:
  assumes "case live db 0 ''k'' of None \<Rightarrow> s = None | Some e \<Rightarrow> s \<noteq> None \<and> re_value e = RHash (enc_tb (the s))"
    and "pred_option (tb_inv per_second) s" "safe_int now"
  shows "\<exists>db'. rs_consume (tokenBucket_lua documented) 0 db ''k'' per_second now 1 = (db', Inr (snd (tokenBucket s per_second now 1)))
    \<and> (case live db' 0 ''k'' of None \<Rightarrow> False | Some e \<Rightarrow> re_value e = RHash (enc_tb (fst (tokenBucket s per_second now 1))))"
  using tb_redis.command_step [OF per_second(1) assms(3) _ assms(2,1), of 1] bucket_ttl(3) [OF per_second(1)]
  by (auto simp: live_def)

text \<open>
  If two instances share a Redis token bucket of 1000 requests per second and their clocks are a
  second apart, every one of any number of requests they send in turn, at one instant, is allowed.
\<close>

theorem skewed_instances_unlimited:
  assumes "behaves R view" "view d = Map.empty"
  shows "list_all (\<lambda>(k, now, cost, r). case r of Inr a \<Rightarrow> allowed a | Inl e \<Rightarrow> False)
     (shared_run (rs_consume (command_of R g14 TokenBucket)) (rs_reset R TokenBucket) (\<lambda>_. per_second) d (skewed n))"
proof -
  let ?ok = "list_all (\<lambda>(k, now, cost, r). case r of Inr a \<Rightarrow> allowed a | Inl e \<Rightarrow> False)"
  let ?at = "\<lambda>db s. case live db 0 ''k'' of None \<Rightarrow> s = None | Some e \<Rightarrow> s \<noteq> None \<and> re_value e = RHash (enc_tb (the s))"
  have "?ok (shared_run (rs_consume (tokenBucket_lua documented)) (rs_reset documented TokenBucket) (\<lambda>_. per_second) db (skewed n))"
    if "?at db s" "s = None \<or> s = Some behind_state" for db s
    using that
  proof (induction n arbitrary: db s)
    case (Suc n)
    have inv: "pred_option (tb_inv per_second) s" "tb_inv per_second \<lparr>tb_tokens = 999, tb_lastRefillMs = 2000\<rparr>"
      using Suc.prems(2) by (auto simp: tb_inv_def behind_state_def capacity_def per_second_def js_num_def)
    obtain db1 where 1: "rs_consume (tokenBucket_lua documented) 0 db ''k'' per_second 2000 1 = (db1, Inr (snd (tokenBucket s per_second 2000 1)))"
      "?at db1 (Some \<lparr>tb_tokens = 999, tb_lastRefillMs = 2000\<rparr>)"
      using turn_in_redis [OF Suc.prems(1) inv(1), of 2000] turn(1) [OF Suc.prems(2)] by (auto split: option.splits)
    obtain db2 where 2: "rs_consume (tokenBucket_lua documented) 0 db1 ''k'' per_second 1000 1
        = (db2, Inr (snd (tokenBucket (Some \<lparr>tb_tokens = 999, tb_lastRefillMs = 2000\<rparr>) per_second 1000 1)))"
      "?at db2 (Some behind_state)"
      using turn_in_redis [OF 1(2), of 1000] inv(2) turn(3) [OF Suc.prems(2)] by (auto split: option.splits)
    show ?case
      using 1(1) 2(1) turn [OF Suc.prems(2)] Suc.IH [OF 2(2)] by (simp add: skewed_def)
  qed (simp add: skewed_def)
  from this [of None Map.empty] show ?thesis unfolding behaves_run [OF assms(1)] assms(2) by (simp add: command_of_eq)
qed

text \<open>
  After a reload that changes a route's algorithm to the sliding window log, every call on a key
  that still holds the hash of the old algorithm fails, and changes nothing, until the hash expires.
\<close>

theorem switched_algorithm_fails:
  assumes "behaves R view" "ready_policy p" "safe_int now" "safe_int cost" "a \<noteq> SlidingWindowLog" "live (view d) rt k = None"
    and "rs_consume (command_of R g14 a) rt d k p now cost = (d', r)" "rt \<le> rt'" "live (view d') rt' k \<noteq> None"
    and "rs_consume (command_of R g14 SlidingWindowLog) rt' d' k p' now' cost' = (d'', r')"
  shows "r' = Inl () \<and> view d'' = view d'"
proof -
  note served = redis_server.consume_served [OF redis_server.intro [OF assms(1)]]
  have first: "rs_consume (loadLua documented g14 a) rt (view d) k p now cost = (view d', r)"
    using assms(7) by (simp add: served command_of_eq)
  have "\<exists>h x. view d' k = Some \<lparr>re_value = RHash h, re_expires = x\<rparr>"
    using assms(5,6) first fw_redis.command_step [OF assms(2-4), of None "view d" rt k]
      tb_redis.command_step [OF assms(2-4), of None "view d" rt k]
      lb_redis.command_step [OF assms(2-4), of None "view d" rt k] swc_redis.command_step [OF assms(2-4), of None "view d" rt k]
    by (cases a) auto
  with assms(9) have "\<exists>e h. live (view d') rt' k = Some e \<and> re_value e = RHash h"
    by (auto simp: live_def split: option.splits if_splits)
  then have "rs_consume (loadLua documented g14 SlidingWindowLog) rt' (view d') k p' now' cost' = (view d', Inl ())"
    by (auto simp: rs_consume_def slidingWindowLog_lua_def rbind_def ZREMRANGEBYSCORE_def Let_def)
  moreover have "rs_consume (loadLua R g14 SlidingWindowLog) rt' d' k p' now' cost' = (d'', r')"
    using assms(10) by (simp add: command_of_eq del: loadLua.simps)
  ultimately show ?thesis unfolding served by simp
qed

section \<open>Witnesses\<close>

lemma redisStore_equivalent_witness:
  "observe id (shared_run (rs_consume (command_of documented (\<lambda>_. []) SlidingWindowLog)) (rs_reset documented SlidingWindowLog) (\<lambda>_. per_second) Map.empty
       [SharedConsume 5 105 ''a'' 1, SharedConsume 6 106 ''b'' 2, SharedReset 6 106 ''a'', SharedConsume 1100 1100 ''b'' 3])
   = observe id (shared_run ms_call (\<lambda>_. ms_reset) (\<lambda>_. per_second) (createMemoryStore SlidingWindowLog)
       [SharedConsume 5 105 ''a'' 1, SharedConsume 6 106 ''b'' 2, SharedReset 6 106 ''a'', SharedConsume 1100 1100 ''b'' 3])"
  using redisStore_equivalent [of documented id Map.empty "{''a'', ''b''}" "\<lambda>_. per_second"
      "[SharedConsume 5 105 ''a'' 1, SharedConsume 6 106 ''b'' 2, SharedReset 6 106 ''a'', SharedConsume 1100 1100 ''b'' 3]"
      0 100 SlidingWindowLog "\<lambda>_. []"] per_second(1)
  by (simp add: apart_def compared_def del: shared_run.simps)


lemma switched_algorithm_fails_witness:
  "rs_consume (command_of documented (\<lambda>_. []) SlidingWindowLog) 500
     (fst (rs_consume (command_of documented (\<lambda>_. []) FixedWindow) 0 Map.empty ''k'' per_second 2000 1)) ''k'' per_second 2500 1
   = (fst (rs_consume (command_of documented (\<lambda>_. []) FixedWindow) 0 Map.empty ''k'' per_second 2000 1), Inl ())"
proof -
  obtain r where r: "rs_consume (command_of documented (\<lambda>_. []) FixedWindow) 0 Map.empty ''k'' per_second 2000 1
      = (Map.empty(''k'' \<mapsto> \<lparr>re_value = RHash (enc_fw (fst (fixedWindow None per_second 2000 1))),
           re_expires = Some (0 + windowMs per_second)\<rparr>), Inr r)"
    using fw_redis.command_step [OF per_second(1), of 2000 1 None Map.empty 0 "''k''"] by (auto simp: command_of_eq)
  let ?db = "Map.empty(''k'' \<mapsto> \<lparr>re_value = RHash (enc_fw (fst (fixedWindow None per_second 2000 1))),
      re_expires = Some (0 + windowMs per_second)\<rparr>)"
  obtain db'' r' where "rs_consume (command_of documented (\<lambda>_. []) SlidingWindowLog) 500 ?db ''k'' per_second 2500 1 = (db'', r')" by force
  with switched_algorithm_fails [OF behaves_documented(1) per_second(1) _ _ _ _ r _ _ this] r show ?thesis
    by (simp add: live_def per_second)
qed

lemma skewed_instances_unlimited_witness:
  "list_all (\<lambda>(k, now, cost, r). case r of Inr a \<Rightarrow> allowed a | Inl e \<Rightarrow> False)
     (shared_run (rs_consume (command_of documented (\<lambda>_. []) TokenBucket)) (rs_reset documented TokenBucket) (\<lambda>_. per_second) Map.empty (skewed 1000))"
  by (rule skewed_instances_unlimited [OF behaves_documented(1)]) simp

end
