(* ===== verification/RedisCache.thy ===== *)
theory RedisCache
  imports Redis CacheStore
begin

text \<open>
  The shared response cache (\<open>core/src/cache/redisStore.ts\<close>): the body travels as base64 inside JSON, a
  purge scans for the prefix as a glob pattern. What \<open>SCAN\<close> promises and how a pattern is matched is
  Redis' own and enters as hypotheses: \<open>glob\<close> is the matcher, \<open>batches\<close> what the scan delivers.
\<close>

section \<open>Base64\<close>

definition b64_char :: "nat \<Rightarrow> char" where
  "b64_char n = char_of (if n < 26 then n + 65 else if n < 52 then n + 71 else if n < 62 then n - 4 else if n = 62 then 43 else 47)"

definition b64_value :: "char \<Rightarrow> nat option" where
  "b64_value c = (let n = of_char c in
     if 65 \<le> n \<and> n \<le> 90 then Some (n - 65) else if 97 \<le> n \<and> n \<le> 122 then Some (n - 71)
     else if 48 \<le> n \<and> n \<le> 57 then Some (n + 4) else if n = 43 \<or> n = 45 then Some 62
     else if n = 47 \<or> n = 95 then Some 63 else None)"

text \<open>\<open>body.toString('base64')\<close>.\<close>

fun b64_encode :: "nat list \<Rightarrow> string" where
  "b64_encode [] = []"
| "b64_encode [a] = [b64_char (a div 4), b64_char (a mod 4 * 16), CHR ''='', CHR ''='']"
| "b64_encode [a, b] = [b64_char (a div 4), b64_char (a mod 4 * 16 + b div 16), b64_char (b mod 16 * 4), CHR ''='']"
| "b64_encode (a # b # c # r) =
     [b64_char (a div 4), b64_char (a mod 4 * 16 + b div 16), b64_char (b mod 16 * 4 + c div 64), b64_char (c mod 64)]
       @ b64_encode r"

text \<open>\<open>Buffer.from(s, 'base64')\<close>: up to the padding, skipping what is not of the alphabet.\<close>

fun sextets_bytes :: "nat list \<Rightarrow> nat list" where
  "sextets_bytes (u # v # w # x # r) =
     (u * 4 + v div 16) # (v mod 16 * 16 + w div 4) # (w mod 4 * 64 + x) # sextets_bytes r"
| "sextets_bytes [u, v, w] = [u * 4 + v div 16, v mod 16 * 16 + w div 4]"
| "sextets_bytes [u, v] = [u * 4 + v div 16]"
| "sextets_bytes _ = []"

definition b64_decode :: "string \<Rightarrow> nat list" where
  "b64_decode s = sextets_bytes (List.map_filter b64_value (takeWhile (\<lambda>c. c \<noteq> CHR ''='') s))"

lemma b64_char_value: "n < 64 \<Longrightarrow> b64_value (b64_char n) = Some n"
  by (auto simp: b64_value_def b64_char_def Let_def take_bit_eq_mod)

lemma b64_char_pad: "n < 64 \<Longrightarrow> b64_char n \<noteq> CHR ''=''"
  using b64_char_value [of n] by (auto simp: b64_value_def)

text \<open>Three bytes are four sextets.\<close>

lemma sextets:
  assumes "a < (256 :: nat)" "b < (256 :: nat)" "c < (256 :: nat)"
  shows "a div 4 < 64" "a mod 4 * 16 + b div 16 < 64" "b mod 16 * 4 + c div 64 < 64" "c mod 64 < 64" "a mod 4 * 16 < 64"
    "b mod 16 * 4 < 64"
    "a div 4 * 4 + (a mod 4 * 16 + b div 16) div 16 = a" "(a mod 4 * 16 + b div 16) mod 16 * 16 + (b mod 16 * 4 + c div 64) div 4 = b"
    "(b mod 16 * 4 + c div 64) mod 4 * 64 + c mod 64 = c" "a div 4 * 4 + (a mod 4 * 16) div 16 = a"
    "(a mod 4 * 16 + b div 16) mod 16 * 16 + (b mod 16 * 4) div 4 = b"
proof -
  show "a div 4 < 64" "a mod 4 * 16 + b div 16 < 64" "b mod 16 * 4 + c div 64 < 64" "c mod 64 < 64" "a mod 4 * 16 < 64"
    "b mod 16 * 4 < 64"
    using assms by linarith+
  have "b div 16 < 16" "c div 64 < 4" using assms by linarith+
  then have "(a mod 4 * 16 + b div 16) div 16 = a mod 4" "(a mod 4 * 16 + b div 16) mod 16 = b div 16"
    "(b mod 16 * 4 + c div 64) div 4 = b mod 16" "(b mod 16 * 4 + c div 64) mod 4 = c div 64"
    by (simp_all add: div_add1_eq [of _ _ 16] div_add1_eq [of _ _ 4])
  then show "a div 4 * 4 + (a mod 4 * 16 + b div 16) div 16 = a"
    "(a mod 4 * 16 + b div 16) mod 16 * 16 + (b mod 16 * 4 + c div 64) div 4 = b"
    "(b mod 16 * 4 + c div 64) mod 4 * 64 + c mod 64 = c" "a div 4 * 4 + (a mod 4 * 16) div 16 = a"
    "(a mod 4 * 16 + b div 16) mod 16 * 16 + (b mod 16 * 4) div 4 = b"
    by simp_all
qed

lemma decode_four:
  assumes "u < 64" "v < 64" "w < 64" "x < 64"
  shows "b64_decode (b64_char u # b64_char v # b64_char w # b64_char x # r) =
    (u * 4 + v div 16) # (v mod 16 * 16 + w div 4) # (w mod 4 * 64 + x) # b64_decode r"
  using assms by (simp add: b64_decode_def b64_char_value b64_char_pad List.map_filter_simps)

lemma b64_roundtrip: "\<forall>b \<in> set bs. b < 256 \<Longrightarrow> b64_decode (b64_encode bs) = bs"
proof (induction bs rule: b64_encode.induct)
  case (2 a)
  then have a: "a < 256" by simp
  show ?case
    using sextets [OF a a a]
    by (simp add: b64_decode_def b64_char_value b64_char_pad List.map_filter_simps)
next
  case (3 a b)
  then have a: "a < 256" "b < 256" by simp_all
  show ?case
    using sextets [OF a a(2)]
    by (simp add: b64_decode_def b64_char_value b64_char_pad List.map_filter_simps)
next
  case (4 a b c r)
  then have a: "a < 256" "b < 256" "c < 256" by simp_all
  show ?case
    using sextets [OF a] 4 by (simp add: decode_four)
qed (simp_all add: b64_decode_def List.map_filter_simps)

text \<open>Bodies are strings of bytes.\<close>

definition body_to_base64 :: "string \<Rightarrow> string" where
  "body_to_base64 body = b64_encode (map of_char body)"

definition body_of_base64 :: "string \<Rightarrow> string" where
  "body_of_base64 s = map char_of (b64_decode s)"

lemma body_roundtrip: "body_of_base64 (body_to_base64 body) = body"
  unfolding body_of_base64_def body_to_base64_def by (subst b64_roundtrip) (auto simp: map_idI)

section \<open>The store\<close>

definition rc_get :: "'d redis_client \<Rightarrow> number \<Rightarrow> string \<Rightarrow> ('d, cached_response option) redis" where
  "rc_get R rt key =
     rbind (redis_get R rt key) (\<lambda>raw. rreturn (case raw of
         None \<Rightarrow> None
       | Some parsed \<Rightarrow> Some \<lparr>c_status = sr_statusCode parsed, c_headers = sr_headers parsed,
           c_body = body_of_base64 (sr_body parsed)\<rparr>))"

definition rc_set :: "'d redis_client \<Rightarrow> number \<Rightarrow> string \<Rightarrow> cached_response \<Rightarrow> number \<Rightarrow> ('d, unit) redis" where
  "rc_set R rt key response ttlSec =
     set_ex R rt key \<lparr>sr_statusCode = c_status response, sr_headers = c_headers response,
       sr_body = body_to_base64 (c_body response)\<rparr> ttlSec"

definition escapeGlob :: "string \<Rightarrow> string" where
  "escapeGlob literal = concat (map (\<lambda>c. if c \<in> set [CHR 0x5C, CHR ''*'', CHR ''?'', CHR ''['', CHR '']''] then [CHR 0x5C, c] else [c]) literal)"

text \<open>
  The loop over the scan's batches. Other clients may act between them: \<open>meanwhile i\<close> is what they do
  before the \<open>i\<close>-th batch, at whose time \<open>clock i\<close> its keys are deleted.
\<close>

fun delete_batches :: "'d redis_client \<Rightarrow> (nat \<Rightarrow> number) \<Rightarrow> (nat \<Rightarrow> 'd \<Rightarrow> 'd) \<Rightarrow> nat \<Rightarrow> string list list
    \<Rightarrow> nat \<Rightarrow> ('d, nat) redis" where
  "delete_batches R clock meanwhile i [] removed d = (meanwhile i d, Inr removed)"
| "delete_batches R clock meanwhile i (keys # batches) removed d =
     (if keys = [] then delete_batches R clock meanwhile (i + 1) batches removed (meanwhile i d)
      else rbind (redis_del R (clock i) keys) (\<lambda>n. delete_batches R clock meanwhile (i + 1) batches (removed + n)) (meanwhile i d))"

text \<open>The scan is asked for \<open>escapeGlob(prefix)*\<close>; what it delivers is \<open>scan pattern\<close>.\<close>

definition rc_deleteByPrefix ::
  "'d redis_client \<Rightarrow> (string \<Rightarrow> string list list) \<Rightarrow> (nat \<Rightarrow> number) \<Rightarrow> (nat \<Rightarrow> 'd \<Rightarrow> 'd) \<Rightarrow> string \<Rightarrow> ('d, nat) redis" where
  "rc_deleteByPrefix R scan clock meanwhile pre =
     delete_batches R clock meanwhile 0 (scan (escapeGlob pre @ ''*'')) 0"

section \<open>What the store promises\<close>

context redis_server begin

lemma get_served: "rc_get documented rt key (view d) = (case rc_get R rt key d of (d', r) \<Rightarrow> (view d', r))"
  using servesD [OF serves_bind [OF serves_command(9) serves_return]] by (simp add: rc_get_def case_prod_beta)

lemma set_served: "rc_set documented rt key c n (view d) = (case rc_set R rt key c n d of (d', r) \<Rightarrow> (view d', r))"
  using servesD [OF serves_command(10)] by (simp add: rc_set_def case_prod_beta)

lemma del_served:
  "view (fst (redis_del R rt ks d)) = (\<lambda>k. if k \<in> set ks then None else view d k)"
  "snd (redis_del R rt ks d) = Inr (length (filter (\<lambda>k. live (view d) rt k \<noteq> None) (remdups ks)))"
  using servesD [OF serves_command(8)] by (simp_all add: DEL_def)

lemma del_bind: "rbind (redis_del R rt ks) F d
    = F (length (filter (\<lambda>k. live (view d) rt k \<noteq> None) (remdups ks))) (fst (redis_del R rt ks d))"
  using del_served(2) [of rt ks d] by (cases "redis_del R rt ks d") (simp add: rbind_def)

end

text \<open>
  A response stored in Redis for a whole number of seconds is answered unchanged, its body
  included, to every \<open>get\<close> of that key while the time to live lasts, whatever is done to other keys in
  between, and not at all afterwards.
\<close>

theorem redisCache_roundtrip:
  assumes "behaves R view" "seconds = of_nat n" "0 < n" "rc_set R rt key response seconds d = (d', r)"
    and "view d2 key = view d' key" "rc_get R rt' key d2 = (d3, r')"
  shows "r = Inr () \<and> r' = Inr (if rt' \<le> rt + seconds * 1000 then Some response else None) \<and> view d3 = view d2"
proof -
  have "seconds = of_int (int n)" using assms(2) by simp
  then have i: "of_int \<lfloor>seconds\<rfloor> = seconds" by (metis floor_of_int)
  have set: "rc_set documented rt key response seconds (view d) = (view d', r)"
    and get: "rc_get documented rt' key (view d2) = (view d3, r')"
    using assms(4,6) by (simp_all add: redis_server.set_served [OF redis_server.intro [OF assms(1)]]
        redis_server.get_served [OF redis_server.intro [OF assms(1)]])
  have e: "view d' key = Some \<lparr>re_value = RJson \<lparr>sr_statusCode = c_status response, sr_headers = c_headers response,
       sr_body = body_to_base64 (c_body response)\<rparr>, re_expires = Some (rt + seconds * 1000)\<rparr>" and r: "r = Inr ()"
    using assms(2,3) set i by (auto simp: rc_set_def SET_EX_def dest!: fun_cong [of _ "view d'" key] sym [of _ "view d'"])
  with assms(5) have "live (view d2) rt' key = (if rt + seconds * 1000 < rt' then None else view d' key)"
    by (simp add: live_present)
  then show ?thesis
    using e r get by (cases response) (auto simp: rc_get_def rbind_def rreturn_def GET_def body_roundtrip split: if_splits)
qed

text \<open>What the pattern language promises of escaped and plain characters and of a final star.\<close>

definition glob_laws :: "(string \<Rightarrow> string \<Rightarrow> bool) \<Rightarrow> bool" where
  "glob_laws glob \<longleftrightarrow>
     (\<forall>c p s. glob (CHR 0x5C # c # p) s \<longleftrightarrow> (\<exists>s'. s = c # s' \<and> glob p s'))
     \<and> (\<forall>c p s. c \<notin> set [CHR 0x5C, CHR ''*'', CHR ''?'', CHR ''['', CHR '']''] \<longrightarrow>
           (glob (c # p) s \<longleftrightarrow> (\<exists>s'. s = c # s' \<and> glob p s')))
     \<and> (\<forall>s. glob ''*'' s)"

lemma escapeGlob_simps:
  "escapeGlob [] = []"
  "escapeGlob (c # s) = (if c \<in> set [CHR 0x5C, CHR ''*'', CHR ''?'', CHR ''['', CHR '']''] then [CHR 0x5C, c] else [c]) @ escapeGlob s"
  by (simp_all add: escapeGlob_def)

lemma escapeGlob_literal:
  assumes "glob_laws glob"
  shows "glob (escapeGlob pre @ ''*'') k \<longleftrightarrow> js_starts_with k pre"
proof (induction pre arbitrary: k)
  case Nil
  then show ?case using assms by (simp add: glob_laws_def escapeGlob_simps js_starts_with_def)
next
  case (Cons c pre)
  have "glob (escapeGlob (c # pre) @ ''*'') k \<longleftrightarrow> (\<exists>k'. k = c # k' \<and> glob (escapeGlob pre @ ''*'') k')"
  proof (cases "c \<in> set [CHR 0x5C, CHR ''*'', CHR ''?'', CHR ''['', CHR '']'']")
    case True
    then show ?thesis using assms unfolding glob_laws_def escapeGlob_simps by simp
  next
    case False
    then show ?thesis using assms unfolding glob_laws_def escapeGlob_simps by simp
  qed
  with Cons show ?case by (auto simp: js_starts_with_iff)
qed

context redis_server begin

lemma delete_batches_keys:
  assumes "\<And>i d. view (meanwhile i d) k = view d k"
  shows "view (fst (delete_batches R clock meanwhile i batches removed d)) k = (if k \<in> set (concat batches) then None else view d k)"
proof (induction batches arbitrary: i removed d)
  case (Cons keys batches)
  then show ?case using assms by (auto simp: del_served(1) del_bind)
qed (simp add: assms)

lemma delete_batches_count:
  assumes "\<And>i d k. k \<in> set (concat batches) \<Longrightarrow> view (meanwhile i d) k = view d k" "\<And>i. clock i = rt"
  shows "snd (delete_batches R clock meanwhile i batches removed d)
    = Inr (removed + card {k \<in> set (concat batches). live (view d) rt k \<noteq> None})"
  using assms(1)
proof (induction batches arbitrary: i removed d)
  case (Cons keys batches)
  let ?d = "meanwhile i d"
  have same: "live (view ?d) rt k = live (view d) rt k" if "k \<in> set keys \<union> set (concat batches)" for k
    using Cons.prems that by (intro live_cong) auto
  have IH: "snd (delete_batches R clock meanwhile (i + 1) batches removed' d')
      = Inr (removed' + card {k \<in> set (concat batches). live (view d') rt k \<noteq> None})" for removed' d'
    using Cons.prems by (intro Cons.IH) auto
  show ?case
  proof (cases "keys = []")
    case True
    have "{k \<in> set (concat batches). live (view ?d) rt k \<noteq> None} = {k \<in> set (concat (keys # batches)). live (view d) rt k \<noteq> None}"
      by (rule Collect_cong) (use True same in \<open>auto simp del: set_concat\<close>)
    with True show ?thesis using IH [of _ ?d] by simp
  next
    case False
    let ?A = "{k \<in> set keys. live (view d) rt k \<noteq> None}"
    let ?B = "{k \<in> set (concat batches). k \<notin> set keys \<and> live (view d) rt k \<noteq> None}"
    let ?d' = "fst (redis_del R rt keys ?d)"
    have n: "length (filter (\<lambda>k. live (view ?d) rt k \<noteq> None) (remdups keys)) = card ?A"
      using same
      by (simp add: distinct_card [symmetric]) (auto intro!: arg_cong [where f = card])
    have "live (view ?d') rt k = (if k \<in> set keys then None else live (view ?d) rt k)" for k
      by (simp add: live_def del_served(1))
    then have B: "{k \<in> set (concat batches). live (view ?d') rt k \<noteq> None} = ?B"
      by (intro Collect_cong) (use same in \<open>auto simp del: set_concat\<close>)
    have "card ?A + card ?B = card (?A \<union> ?B)" by (intro card_Un_disjoint [symmetric]) auto
    moreover have "?A \<union> ?B = {k \<in> set (concat (keys # batches)). live (view d) rt k \<noteq> None}" by auto
    moreover have "delete_batches R clock meanwhile i (keys # batches) removed d
        = delete_batches R clock meanwhile (i + 1) batches (removed + card ?A) ?d'"
      using False by (simp only: delete_batches.simps if_False del_bind assms(2) n)
    ultimately show ?thesis using IH [of "removed + card ?A" ?d'] by (simp only: B add.assoc)
  qed
qed simp

end

lemma redisCache_purged:
  assumes "behaves R view" "glob_laws glob"
    and "\<And>pat k. k \<in> set (concat (scan pat)) \<Longrightarrow> glob pat k"
    and "\<And>pat k. glob pat k \<Longrightarrow> live (view d) rt k \<noteq> None \<Longrightarrow> k \<in> set (concat (scan pat))"
    and "\<And>i d k. js_starts_with k pre \<Longrightarrow> view (meanwhile i d) k = view d k" "\<And>i. clock i = rt"
    and "rc_deleteByPrefix R scan clock meanwhile pre d = (d', removed)"
  shows "js_starts_with k pre \<Longrightarrow> rt \<le> rt' \<Longrightarrow> live (view d') rt' k = None"
    and "\<not> js_starts_with k pre \<Longrightarrow> (\<And>i d. view (meanwhile i d) k = view d k) \<Longrightarrow> view d' k = view d k"
    and "removed = Inr (card {k. js_starts_with k pre \<and> live (view d) rt k \<noteq> None})"
proof -
  note server = redis_server.intro [OF assms(1)]
  let ?keys = "set (concat (scan (escapeGlob pre @ ''*'')))"
  have in_keys: "k \<in> ?keys \<Longrightarrow> js_starts_with k pre" "js_starts_with k pre \<Longrightarrow> live (view d) rt k \<noteq> None \<Longrightarrow> k \<in> ?keys" for k
    using assms(3,4) [where pat = "escapeGlob pre @ ''*''"] escapeGlob_literal [OF assms(2)] by blast+
  have d': "d' = fst (delete_batches R clock meanwhile 0 (scan (escapeGlob pre @ ''*'')) 0 d)"
    "removed = snd (delete_batches R clock meanwhile 0 (scan (escapeGlob pre @ ''*'')) 0 d)"
    using assms(7) by (simp_all add: rc_deleteByPrefix_def)
  show "live (view d') rt' k = None" if "js_starts_with k pre" "rt \<le> rt'"
  proof -
    have "view d' k = (if k \<in> ?keys then None else view d k)"
      unfolding d' using assms(5) [OF that(1)] by (rule redis_server.delete_batches_keys [OF server])
    moreover have "k \<notin> ?keys \<Longrightarrow> live (view d) rt k = None" using in_keys(2) [OF that(1)] by blast
    ultimately have "live (view d') rt k = None" by (cases "k \<in> ?keys") (simp_all add: live_def)
    then show ?thesis using that(2) by (rule live_later)
  qed
  show "view d' k = view d k" if "\<not> js_starts_with k pre" "\<And>i d. view (meanwhile i d) k = view d k"
  proof -
    have "view d' k = (if k \<in> ?keys then None else view d k)"
      unfolding d' using that(2) by (rule redis_server.delete_batches_keys [OF server])
    then show ?thesis using in_keys(1) that(1) by auto
  qed
  have "removed = Inr (0 + card {k \<in> ?keys. live (view d) rt k \<noteq> None})"
    unfolding d' using in_keys(1) assms(5) by (intro redis_server.delete_batches_count [OF server] assms(6)) blast
  also have "{k \<in> ?keys. live (view d) rt k \<noteq> None} = {k. js_starts_with k pre \<and> live (view d) rt k \<noteq> None}"
    using in_keys by blast
  finally show "removed = Inr (card {k. js_starts_with k pre \<and> live (view d) rt k \<noteq> None})" by simp
qed

text \<open>
  A purge of a Redis cache deletes the keys with the prefix and no others, however many times the
  scan delivers a key and whatever characters the prefix has, and reports how many live entries it
  removed. The scan must deliver only keys that match, and all those that are there from its start.
\<close>

theorem redisCache_purge:
  assumes "behaves R view" "glob_laws glob"
    and "\<And>pat k. k \<in> set (concat (scan pat)) \<Longrightarrow> glob pat k"
    and "\<And>pat k. glob pat k \<Longrightarrow> live (view d) rt k \<noteq> None \<Longrightarrow> k \<in> set (concat (scan pat))"
    and "\<And>i d k. js_starts_with k pre \<Longrightarrow> view (meanwhile i d) k = view d k" "\<And>i. clock i = rt"
    and "rc_deleteByPrefix R scan clock meanwhile pre d = (d', removed)"
  shows "(js_starts_with k pre \<and> rt \<le> rt' \<longrightarrow> live (view d') rt' k = None)
    \<and> (\<not> js_starts_with k pre \<and> (\<forall>i d. view (meanwhile i d) k = view d k) \<longrightarrow> view d' k = view d k)
    \<and> removed = Inr (card {k. js_starts_with k pre \<and> live (view d) rt k \<noteq> None})"
  using redisCache_purged [OF assms] by blast

section \<open>Witnesses\<close>

text \<open>A matcher without brackets.\<close>

fun simple_glob :: "string \<Rightarrow> string \<Rightarrow> bool" where
  "simple_glob [] s \<longleftrightarrow> s = []"
| "simple_glob (p # ps) s \<longleftrightarrow>
     (if p = CHR 0x5C then (case ps of [] \<Rightarrow> False | c # qs \<Rightarrow> (case s of [] \<Rightarrow> False | x # xs \<Rightarrow> x = c \<and> simple_glob qs xs))
      else if p = CHR ''*'' then list_ex (\<lambda>i. simple_glob ps (drop i s)) [0..<length s + 1]
      else (case s of [] \<Rightarrow> False | x # xs \<Rightarrow> (p = CHR ''?'' \<or> x = p) \<and> simple_glob ps xs))"

lemma simple_glob_laws: "glob_laws simple_glob"
proof -
  have "simple_glob ''*'' s" for s by (auto simp: list_ex_iff intro: bexI [of _ "length s"])
  then show ?thesis by (auto simp: glob_laws_def split: list.splits)
qed

definition small_cache :: redis_db where
  "small_cache = [''a*b'' \<mapsto> \<lparr>re_value = RCounter 1, re_expires = None\<rparr>, ''axb'' \<mapsto> \<lparr>re_value = RCounter 2, re_expires = Some 9\<rparr>]"

definition small_scan :: "string \<Rightarrow> string list list" where
  "small_scan pat = (let found = filter (simple_glob pat) [''a*b'', ''axb''] in [found, [], found])"

lemma redisCache_purge_witness:
  "live (fst (rc_deleteByPrefix documented small_scan (\<lambda>_. 5) (\<lambda>_ db. db) ''a*'' small_cache)) 6 ''a*b'' = None
   \<and> fst (rc_deleteByPrefix documented small_scan (\<lambda>_. 5) (\<lambda>_ db. db) ''a*'' small_cache) ''axb'' = small_cache ''axb''"
proof -
  obtain db' n where r: "rc_deleteByPrefix documented small_scan (\<lambda>_. 5) (\<lambda>_ db. db) ''a*'' small_cache = (db', n)" by force
  have keys: "k \<in> {''a*b'', ''axb''}" if "live small_cache 5 k \<noteq> None" for k
    using that by (auto simp: small_cache_def live_def split: if_splits)
  have a: "js_starts_with ''a*b'' ''a*''" "\<not> js_starts_with ''axb'' ''a*''" by (simp_all add: js_starts_with_def)
  have scan: "k \<in> set (concat (small_scan pat)) \<longleftrightarrow> k \<in> {''a*b'', ''axb''} \<and> simple_glob pat k" for pat k
    by (simp add: small_scan_def Let_def del: simple_glob.simps) blast
  note p = redisCache_purge [where scan = small_scan, OF behaves_documented(1) simple_glob_laws _ _ _ _ r, where rt = 5 and rt' = 6]
  have "(js_starts_with k ''a*'' \<and> (5::number) \<le> 6 \<longrightarrow> live (id db') 6 k = None)
      \<and> (\<not> js_starts_with k ''a*'' \<and> (\<forall>(i::nat) d. id (d::redis_db) k = id d k) \<longrightarrow> id db' k = id small_cache k)
      \<and> n = Inr (card {k. js_starts_with k ''a*'' \<and> live (id small_cache) 5 k \<noteq> None})" for k
    by (rule p) (use keys in \<open>auto simp only: scan id_apply simp_thms\<close>)
  from this [of "''a*b''"] this [of "''axb''"] have "live db' 6 ''a*b'' = None" "db' ''axb'' = small_cache ''axb''"
    using a by simp_all
  with r show ?thesis by simp
qed

lemma redisCache_roundtrip_witness:
  "snd (rc_get documented 2000 ''k'' (fst (rc_set documented 1000 ''k'' \<lparr>c_status = 200, c_headers = [], c_body = ''hello''\<rparr> 5 Map.empty)))
     = Inr (Some \<lparr>c_status = 200, c_headers = [], c_body = ''hello''\<rparr>)"
proof -
  let ?c = "\<lparr>c_status = 200, c_headers = [], c_body = ''hello''\<rparr>"
  obtain db' r where s: "rc_set documented 1000 ''k'' ?c 5 Map.empty = (db', r)" by force
  obtain db3 r' where g: "rc_get documented 2000 ''k'' db' = (db3, r')" by force
  from redisCache_roundtrip [of documented id 5 5 1000 "''k''" ?c Map.empty db' r db' 2000 db3 r'] s g show ?thesis by simp
qed

end
