(* ===== verification/Instances.thy ===== *)
theory Instances
  imports Pipeline RedisLog RedisCache
begin

text \<open>
  Several instances of the gateway on one Redis: the Redis commands of the server model, instantiated
  with the stores of \<open>RedisScripts\<close> and \<open>RedisCache\<close>, and what the instances share through them.
\<close>

section \<open>The commands of a Redis\<close>

definition redis_backend :: "'d redis_client \<Rightarrow> (number \<Rightarrow> string) \<Rightarrow> (string \<Rightarrow> string list list) \<Rightarrow> number \<Rightarrow> 'd redis_ops" where
  "redis_backend R g14 scan rt =
     \<lparr>rd_consume = (\<lambda>a d key p now cost. rs_consume (command_of R g14 a) rt d key p now cost),
      rd_get = (\<lambda>d now key. snd (rc_get R rt key d)),
      rd_set = (\<lambda>d now key c ttl. case rc_set R rt key c ttl d of (d', Inr _) \<Rightarrow> Inr d' | (d', Inl e) \<Rightarrow> Inl e),
      rd_deleteByPrefix = (\<lambda>d pre. case rc_deleteByPrefix R scan (\<lambda>_. rt) (\<lambda>_ d. d) pre d of (d', Inr n) \<Rightarrow> Inr (d', n) | (d', Inl e) \<Rightarrow> Inl e)\<rparr>"

section \<open>The response cache\<close>

definition stored_in :: "redis_db \<Rightarrow> string \<Rightarrow> cached_response \<Rightarrow> number \<Rightarrow> bool" where
  "stored_in db key c expires \<longleftrightarrow>
     db key = Some \<lparr>re_value = RJson \<lparr>sr_statusCode = c_status c, sr_headers = c_headers c, sr_body = body_to_base64 (c_body c)\<rparr>,
       re_expires = Some expires\<rparr>"

context redis_server begin

lemma rc_set_stored:
  assumes "ttl = of_nat n" "0 < ttl"
  shows "\<exists>d'. rc_set R rt key c ttl d = (d', Inr ()) \<and> stored_in (view d') key c (rt + ttl * 1000)"
proof -
  have "of_int \<lfloor>ttl\<rfloor> = ttl" using assms(1) by (metis floor_of_int of_int_of_nat_eq)
  with assms(2) have "\<exists>db'. rc_set documented rt key c ttl (view d) = (db', Inr ()) \<and> stored_in db' key c (rt + ttl * 1000)"
    by (simp add: rc_set_def SET_EX_def stored_in_def)
  then show ?thesis unfolding set_served by (auto split: prod.splits)
qed

lemma rc_get_stored: "stored_in (view d) key c expires \<Longrightarrow> rt \<le> expires \<Longrightarrow> snd (rc_get R rt key d) = Inr (Some c)"
  using get_served [of rt key d]
  by (cases c) (auto simp: stored_in_def rc_get_def rbind_def rreturn_def GET_def live_present body_roundtrip split: prod.splits)

end

lemma store_response_shared:
  assumes "store_response env route (g, key) SharedCache up body t = (stored, s')" "Stored key c ttl \<in> set stored"
    and "sv_generation t = g" "map_of (rt_cacheStores (sv_runtime t)) (route_id route) = Some SharedCache"
    and "se_redis env = redis_backend R g14 scan rt" "ttl = of_nat n" "behaves R view"
  shows "stored_in (view (sv_redis s')) key c (rt + ttl * 1000)"
proof -
  have "cacheable_response route c ttl"
    using store_response_stored [of key c ttl env route "(g, key)" SharedCache up body t] assms(1,2) by simp
  then have "0 < ttl" by (simp add: cacheable_response_def)
  then obtain db' where set: "rc_set R rt key c ttl (sv_redis t) = (db', Inr ())" "stored_in (view db') key c (rt + ttl * 1000)"
    using redis_server.rc_set_stored [OF redis_server.intro [OF assms(7)] assms(6)] by blast
  let ?d = "decideCacheability (fr_status up) (fr_headers up) (case cache route of Some c \<Rightarrow> cache_ttlSec c | None \<Rightarrow> 0)"
  have *: "cacheable ?d" "ttl = ttlSec ?d" "c = \<lparr>c_status = fr_status up, c_headers = stripUncacheableHeaders (fr_headers up), c_body = body\<rparr>"
    using assms(1,2) by (auto simp: store_response_def Let_def split: if_splits)
  have "sv_redis s' = db'"
    using assms(1,2,3) set(1) unfolding store_response_def Let_def *(2,3)
    by (auto simp: backend_set_def redis_backend_def assms(4,5) split: if_splits)
  with set(2) show ?thesis by simp
qed

text \<open>
  C14: instances share the Redis response cache: what one of them has stored after a miss, any other
  answers to a GET with the same key, with the stored status, headers and body and without contacting
  the upstream, until the time to live is over by Redis' clock, whatever happens to other keys.
\<close>

theorem shared_cache_served:
  assumes "cache_stage env route req tenant host reply s = (h, acts, s1)" "Stored key c ttl \<in> set acts"
    and "\<forall>n t. sv_generation (se_meanwhile env n t) = sv_generation t
           \<and> rt_cacheStores (sv_runtime (se_meanwhile env n t)) = rt_cacheStores (sv_runtime t)"
    and "map_of (rt_cacheStores (sv_runtime s)) (route_id route) = Some SharedCache"
    and "se_redis env = redis_backend R g14 scan rt" "ttl = of_nat n"
    and "map_of (rt_cacheStores (sv_runtime s2)) (route_id route) = Some SharedCache"
    and "se_redis env2 = redis_backend R g14 scan2 rt2" "rt2 \<le> rt + ttl * 1000" "view (sv_redis s2) key = view (sv_redis s1) key"
    and "behaves R view" "req_method req2 = ''GET''"
    and "buildCacheKey (se_sha256 env2) route ''GET'' (req_url req2) (req_headers req2) tenant2 host2 = key"
  shows "\<exists>s3. cache_stage env2 route req2 tenant2 host2 reply2 s2 = (cached_reply c reply2, [], s3)"
proof -
  have get: "req_method req = ''GET''" "\<exists>cfg. cache route = Some cfg \<and> cache_enabled cfg"
    using assms(1,2) fetch_stored [of key c ttl env route req None reply s]
    by (auto simp: cache_stage_def Let_def split: if_splits option.splits)
  obtain cfg where cfg: "cache route = Some cfg" "cache_enabled cfg" using get(2) by blast
  let ?k = "buildCacheKey (se_sha256 env) route ''GET'' (req_url req) (req_headers req) tenant host"
  let ?t = "se_meanwhile env 2 (on_runtime (sv_generation s) (put_cache (route_id route) SharedCache) s)"
  let ?u = "?t\<lparr>sv_metrics := observeRedisLatency (se_elapsed env) (sv_metrics ?t)\<rparr>"
  have f: "fetch_stage env route req (Some ((sv_generation s, ?k), SharedCache)) reply ?u = (h, acts, s1)"
    using assms(1,2)
    by (auto simp: cache_stage_def Let_def cfg assms(4) backend_get_def get(1) split: option.splits sum.splits)
  have g: "sv_generation ?u = sv_generation s" and m: "\<forall>t. sv_generation (se_meanwhile env 3 t) = sv_generation t"
    and shared: "map_of (rt_cacheStores (sv_runtime ?u)) (route_id route) = Some SharedCache"
    using assms(3) by (simp_all add: put_cache_def update_conv')
  have "stored_in (view (sv_redis s1)) key c (rt + ttl * 1000)"
    by (rule fetch_stores [OF f assms(2) m g])
      (use store_response_shared [OF _ _ _ _ assms(5,6,11)] assms(3) shared in metis)
  then have "stored_in (view (sv_redis s2)) key c (rt + ttl * 1000)" using assms(10) by (simp add: stored_in_def)
  from redis_server.rc_get_stored [OF redis_server.intro [OF assms(11)] this assms(9)] show ?thesis
    by (simp add: cache_stage_def Let_def cfg assms(7,8,12,13) backend_get_def redis_backend_def)
qed

section \<open>Witness\<close>

text \<open>An instance on a shared Redis, with the route and the upstream of the witnesses of \<open>Pipeline\<close>.\<close>

definition instance_env :: "number \<Rightarrow> redis_db server_env" where
  "instance_env rt = \<lparr>se_sha256 = id, se_jwtVerify = \<lambda>_ _ _ _. None, se_get_ok = True, se_set_ok = True, se_now = 5, se_elapsed = 0,
     se_redis = redis_backend documented (\<lambda>_. []) (\<lambda>_. []) rt,
     se_origin = id, se_client = \<lambda>_ _ _ _ _ _. CResponse \<lparr>fr_status = 200, fr_headers = [], fr_body = Some ''a''\<rparr>,
     se_retry = \<lparr>send = \<lambda>_ _. Inl UpstreamTimeoutError, pick_time = \<lambda>_. 5, report_time = \<lambda>_. 5, random = \<lambda>_. 0,
       while_sending = \<lambda>_ b. b, while_sleeping = \<lambda>_ b. b\<rparr>,
     se_ws = \<lparr>ws_origin = id, ws_events = \<lambda>_ _ _. [], ws_pick_time = 5, ws_report_time = 5, ws_meanwhile = id\<rparr>,
     se_meanwhile = \<lambda>_ s. s\<rparr>"

definition one_instance :: "redis_db \<Rightarrow> redis_db server" where
  "one_instance db = \<lparr>sv_boot = small_config [shop_route], sv_generation = 0,
     sv_runtime = buildRuntimeState (small_config [shop_route]) True, sv_db = None, sv_keys = None, sv_redis = db,
     sv_metrics = createMetrics, sv_registry = [], sv_usage = None\<rparr>"

lemma instance_simps [simp]:
  "se_redis (instance_env rt) = redis_backend documented (\<lambda>_. []) (\<lambda>_. []) rt" "se_meanwhile (instance_env rt) n t = t"
  "se_now (instance_env rt) = 5" "se_sha256 (instance_env rt) = id" "sv_redis (one_instance db) = db" "sv_generation (one_instance db) = 0"
  "sv_runtime (one_instance db) = buildRuntimeState (small_config [shop_route]) True"
  "map_of (rt_cacheStores (buildRuntimeState (small_config [shop_route]) True)) ''r'' = Some SharedCache"
  "map_of (rt_balancers (buildRuntimeState (small_config [shop_route]) True)) ''r'' = Some (createBalancer shop_route)"
  by (simp_all add: instance_env_def one_instance_def buildRuntimeState_def createCacheStores_def)

lemma instance_forward:
  "fst (forwardWithRetry (retry_env (instance_env rt) shop_route (get_request [])) shop_route ''GET'' None (createBalancer shop_route))
     = Inr \<lparr>fr_status = 200, fr_headers = [], fr_body = Some ''a''\<rparr>"
  by (simp add: forwardWithRetry_def maxAttempts_def eligible_def pickTarget_def createBalancer_def retry_env_def
      forwardRequest_def instance_env_def stripHopByHop_def bare_route_def Let_def numeral_eq_Suc)

lemma shared_cache_served_witness:
  "\<exists>db. cache_stage (instance_env 3000) shop_route (get_request []) None (Some ''h'') empty_answer (one_instance db)
      = (cached_reply shop_response empty_answer, [], snd (snd (cache_stage (instance_env 3000) shop_route (get_request []) None
          (Some ''h'') empty_answer (one_instance db))))"
proof -
  have body: "body_error s (get_request []) = None" for s :: "redis_db server" by (simp add: body_error_def)
  have miss: "rc_get documented 1000 shop_key Map.empty = (Map.empty, Inr None)"
    by (simp add: rc_get_def rbind_def rreturn_def GET_def)
  note eval = cache_stage_def fetch_stage_def store_response_def backend_get_def backend_set_def redis_backend_def
    on_runtime_def put_cache_def put_balancer_def update_conv'
    Let_def case_prod_beta body instance_forward shop_decision stripUncacheableHeaders_def shop_key_any miss
  have "\<exists>r es s1. cache_stage (instance_env 1000) shop_route (get_request []) None (Some ''h'') empty_answer (one_instance Map.empty)
      = (Replied r (Bytes ''a''), [Forwarded es, Stored shop_key shop_response 60], s1)"
    by (simp add: eval flip: shop_response_def)
  then obtain r es s1 where e: "cache_stage (instance_env 1000) shop_route (get_request []) None (Some ''h'') empty_answer (one_instance Map.empty)
      = (Replied r (Bytes ''a''), [Forwarded es, Stored shop_key shop_response 60], s1)" by blast
  have "\<exists>s3. cache_stage (instance_env 3000) shop_route (get_request []) None (Some ''h'') empty_answer (one_instance (sv_redis s1))
      = (cached_reply shop_response empty_answer, [], s3)"
    by (rule shared_cache_served [OF e, where key = shop_key and ttl = 60 and n = 60 and rt = 1000 and ?rt2.0 = 3000 and view = id and R = documented])
      (simp_all add: shop_key_any)
  then show ?thesis by (intro exI [of _ "sv_redis s1"]) auto
qed

end
