(* ===== verification/Sockets.thy ===== *)
theory Sockets
  imports Pipeline WsTunnel
begin

text \<open>
  The open WebSocket connections of a server: \<open>acceptClient\<close> with its entries in the registry, the
  metrics and the usage buffer. A connection passes the capacity check, contacts the upstream, and is
  then opened; the callbacks of all open tunnels and everything else the server does interleave freely.
\<close>

section \<open>A tunnel and the server\<close>

fun cause_name :: "cause \<Rightarrow> string" where
  "cause_name ByClient = ''client''"
| "cause_name ByUpstream = ''upstream''"
| "cause_name ByError = ''error''"
| "cause_name ByShutdown = ''shutdown''"
| "cause_name Backpressure = ''backpressure''"
| "cause_name RateLimited = ''rate_limited''"
| "cause_name DeadPeer = ''dead_peer''"
| "cause_name Idle = ''idle''"
| "cause_name HandshakeFailed = ''handshake_failed''"
| "cause_name Unknown = ''unknown''"

text \<open>What \<open>relay\<close> and \<open>finish\<close> do beside the sockets.\<close>

fun socket_action :: "connection \<Rightarrow> WsTunnel.action \<Rightarrow> 'r server \<Rightarrow> 'r server" where
  "socket_action c (Sent to msg) s = s\<lparr>sv_metrics := webSocketMessage (conn_route c) (to = Upstream) (sv_metrics s)\<rparr>"
| "socket_action c (Finished reason) s =
     s\<lparr>sv_registry := reg_remove c (sv_registry s), sv_metrics := webSocketClosed (conn_route c) (cause_name reason) (sv_metrics s)\<rparr>"
| "socket_action c _ s = s"

text \<open>The callback of \<open>handleUpgrade\<close>: the 101 is counted, and charged to its tenant.\<close>

definition record_upgrade :: "string \<Rightarrow> string option \<Rightarrow> number \<Rightarrow> 'r server \<Rightarrow> 'r server" where
  "record_upgrade rid tenant elapsedMs s =
     (let s = s\<lparr>sv_metrics := recordRequest rid 101 (js_div elapsedMs 1000) tenant (sv_metrics s)\<rparr>
      in case (sv_usage s, tenant) of
           (Some u, Some t) \<Rightarrow>
             if t = [] then s
             else s\<lparr>sv_usage := Some (ub_push 500
                    \<lparr>u_tenantId = t, u_routeId = rid, u_statusCode = 101, u_latencyMs = js_round elapsedMs\<rparr> u)\<rparr>
         | _ \<Rightarrow> s)"

text \<open>
  \<open>acceptClient\<close> on the server: \<open>accepted\<close> is whether the client's handshake completes, \<open>early\<close> and
  \<open>closing\<close> what the upstream did before.
\<close>

record handshake =
  hs_tenant :: "string option"
  hs_now :: number
  hs_elapsedMs :: number
  hs_accepted :: bool
  hs_early :: "(message \<times> nat) list"
  hs_closing :: "nat option"

definition open_tunnel :: "websocket_config \<Rightarrow> handshake \<Rightarrow> connection \<Rightarrow> 'r server \<Rightarrow> 'r server \<times> WsTunnel.outcome" where
  "open_tunnel cfg h c s =
     (let s = s\<lparr>sv_registry := reg_add c (sv_registry s), sv_metrics := webSocketOpened (conn_route c) (sv_metrics s)\<rparr>;
          s = (if hs_accepted h then record_upgrade (conn_route c) (hs_tenant h) (hs_elapsedMs h) s else s);
          (t, as) = acceptClient cfg (hs_now h) (hs_accepted h) (hs_early h) (hs_closing h)
      in (fold (socket_action c) as s, (t, as)))"

section \<open>All tunnels\<close>

text \<open>
  \<open>gw_pending\<close> are the routes of the handshakes between the capacity check and \<open>acceptClient\<close>; a tunnel
  is listed with its connection and the actions it has taken.
\<close>

record 'r gateway =
  gw_server :: "'r server"
  gw_pending :: "string list"
  gw_tunnels :: "(connection \<times> WsTunnel.outcome) list"
  gw_next :: nat

definition set_tunnel :: "connection \<Rightarrow> WsTunnel.outcome \<Rightarrow> (connection \<times> WsTunnel.outcome) list \<Rightarrow> (connection \<times> WsTunnel.outcome) list" where
  "set_tunnel c o' ts = map (\<lambda>(d, x). (d, if d = c then o' else x)) ts"

text \<open>\<open>cfg_of\<close> gives the settings of a route.\<close>

inductive gw_step :: "(string \<Rightarrow> websocket_config) \<Rightarrow> 'r gateway \<Rightarrow> 'r gateway \<Rightarrow> bool"
  for cfg_of :: "string \<Rightarrow> websocket_config" where
  checked: "\<not> at_capacity route (cfg_of (route_id route)) (sv_registry (gw_server g))
    \<Longrightarrow> gw_step cfg_of g (g\<lparr>gw_pending := route_id route # gw_pending g\<rparr>)"
| given_up: "rid \<in> set (gw_pending g) \<Longrightarrow> gw_step cfg_of g (g\<lparr>gw_pending := remove1 rid (gw_pending g)\<rparr>)"
| opened: "rid \<in> set (gw_pending g) \<Longrightarrow> c = \<lparr>conn_id = gw_next g, conn_route = rid\<rparr>
    \<Longrightarrow> open_tunnel (cfg_of rid) h c (gw_server g) = (s', o')
    \<Longrightarrow> gw_step cfg_of g (g\<lparr>gw_server := s', gw_pending := remove1 rid (gw_pending g),
          gw_tunnels := (c, o') # gw_tunnels g, gw_next := gw_next g + 1\<rparr>)"
| called_back: "(c, (t, as)) \<in> set (gw_tunnels g) \<Longrightarrow> enabled (cfg_of (conn_route c)) e t
    \<Longrightarrow> tunnel_step (cfg_of (conn_route c)) e t = (t', bs)
    \<Longrightarrow> gw_step cfg_of g (g\<lparr>gw_server := fold (socket_action c) bs (gw_server g),
          gw_tunnels := set_tunnel c (t', as @ bs) (gw_tunnels g)\<rparr>)"
| elsewhere: "sv_registry s' = sv_registry (gw_server g)
    \<Longrightarrow> websocketConnections (sv_metrics s') = websocketConnections (sv_metrics (gw_server g))
    \<Longrightarrow> gw_step cfg_of g (g\<lparr>gw_server := s'\<rparr>)"

text \<open>Runs in which no more than \<open>k\<close> handshakes of a route are between check and opening.\<close>

inductive gw_reachable :: "(string \<Rightarrow> websocket_config) \<Rightarrow> nat \<Rightarrow> 'r gateway \<Rightarrow> bool"
  for cfg_of :: "string \<Rightarrow> websocket_config" and k :: nat where
  started: "sv_registry (gw_server g) = [] \<Longrightarrow> websocketConnections (sv_metrics (gw_server g)) = (\<lambda>_. 0)
    \<Longrightarrow> gw_pending g = [] \<Longrightarrow> gw_tunnels g = [] \<Longrightarrow> gw_reachable cfg_of k g"
| stepped: "gw_reachable cfg_of k g \<Longrightarrow> gw_step cfg_of g g'
    \<Longrightarrow> (\<And>rid. count_list (gw_pending g') rid \<le> k) \<Longrightarrow> gw_reachable cfg_of k g'"

inductive_cases gw_stepE: "gw_step cfg_of g g'"

section \<open>The invariant\<close>

lemma fold_actions:
  "sv_registry (fold (socket_action c) as s) = (if fin_count as = 0 then sv_registry s else reg_remove c (sv_registry s))"
  "websocketConnections (sv_metrics (fold (socket_action c) as s)) =
     (websocketConnections (sv_metrics s))(conn_route c := websocketConnections (sv_metrics s) (conn_route c) - int (fin_count as))"
proof (induction as arbitrary: s)
  case (Cons a as)
  {
    case 1
    show ?case using Cons(1) [of "socket_action c a s"]
      by (cases a) (auto simp: fin_count_def reg_remove_def)
  next
    case 2
    show ?case using Cons(2) [of "socket_action c a s"]
      by (cases a) (auto simp: fin_count_def webSocketMessage_def webSocketClosed_def fun_eq_iff)
  }
qed (auto simp: fin_count_def fun_eq_iff)

definition sockets_ok :: "'r gateway \<Rightarrow> bool" where
  "sockets_ok g \<longleftrightarrow>
     distinct (map fst (gw_tunnels g)) \<and> (\<forall>(c, t, as) \<in> set (gw_tunnels g). life t as \<and> conn_id c < gw_next g)
     \<and> distinct (sv_registry (gw_server g))
     \<and> set (sv_registry (gw_server g)) = {c. \<exists>t as. (c, (t, as)) \<in> set (gw_tunnels g) \<and> \<not> finished t}
     \<and> (\<forall>rid. websocketConnections (sv_metrics (gw_server g)) rid = int (countFor rid (sv_registry (gw_server g))))"

lemma record_upgrade_keeps [simp]:
  "sv_registry (record_upgrade rid tenant e s) = sv_registry s"
  "websocketConnections (sv_metrics (record_upgrade rid tenant e s)) = websocketConnections (sv_metrics s)"
  by (auto simp: record_upgrade_def recordRequest_def Let_def split: option.splits)

lemma open_tunnel_effect:
  assumes "open_tunnel cfg h c s = (s', (t, as))"
  shows "life t as"
    "sv_registry s' = (if finished t then reg_remove c (reg_add c (sv_registry s)) else reg_add c (sv_registry s))"
    "websocketConnections (sv_metrics s') = (websocketConnections (sv_metrics s))
       (conn_route c := websocketConnections (sv_metrics s) (conn_route c) + (if finished t then 0 else 1))"
proof -
  have a: "acceptClient cfg (hs_now h) (hs_accepted h) (hs_early h) (hs_closing h) = (t, as)"
    using assms by (simp add: open_tunnel_def case_prod_beta Let_def)
  show l: "life t as" using acceptClient_life [OF a] .
  then have "fin_count as = (if finished t then 1 else 0)" by (simp add: life_def)
  then show "sv_registry s' = (if finished t then reg_remove c (reg_add c (sv_registry s)) else reg_add c (sv_registry s))"
    "websocketConnections (sv_metrics s') = (websocketConnections (sv_metrics s))
       (conn_route c := websocketConnections (sv_metrics s) (conn_route c) + (if finished t then 0 else 1))"
    using assms a by (auto simp: open_tunnel_def Let_def fold_actions webSocketOpened_def fun_eq_iff)
qed

lemma callback_effect:
  assumes "life t as" "enabled cfg e t" "tunnel_step cfg e t = (t', bs)"
  shows "life t' (as @ bs)" "fin_count bs = (if finished t' \<and> \<not> finished t then 1 else 0)" "finished t \<Longrightarrow> finished t'"
proof -
  show l: "life t' (as @ bs)" using life_step [OF assms] .
  show "fin_count bs = (if finished t' \<and> \<not> finished t then 1 else 0)" "finished t \<Longrightarrow> finished t'"
    using l assms(1) by (auto simp: life_def split: if_splits)
qed

lemma set_tunnel_fst [simp]: "map fst (set_tunnel c x ts) = map fst ts"
  by (induction ts) (auto simp: set_tunnel_def)

lemma set_tunnel_mem:
  "(d, z) \<in> set (set_tunnel c x ts) \<longleftrightarrow> (if d = c then z = x \<and> c \<in> fst ` set ts else (d, z) \<in> set ts)"
  by (induction ts) (auto simp: set_tunnel_def)

lemma add_remove [simp]: "c \<notin> set r \<Longrightarrow> reg_remove c (reg_add c r) = r"
  by (auto simp: reg_remove_def reg_add_def filter_id_conv)

lemma sockets_step:
  assumes "gw_step cfg_of g g'" "sockets_ok g"
  shows "sockets_ok g'"
  using assms(1)
proof (cases rule: gw_step.cases)
  case (opened rid c h s' o')
  obtain t as where o: "o' = (t, as)" by force
  note e = open_tunnel_effect [OF opened(4) [unfolded o]]
  have fresh: "c \<notin> fst ` set (gw_tunnels g)" using assms(2) opened(3) by (force simp: sockets_ok_def)
  then have r: "c \<notin> set (sv_registry (gw_server g))" using assms(2) by (force simp: sockets_ok_def)
  have m: "websocketConnections (sv_metrics (gw_server g)) q = int (countFor q (sv_registry (gw_server g)))" for q
    using assms(2) by (simp add: sockets_ok_def)
  have "websocketConnections (sv_metrics s') q = int (countFor q (sv_registry s'))" for q
    using r by (simp add: e(2,3) m countFor_add)
  moreover have "distinct (sv_registry s')"
    using assms(2) r by (simp add: sockets_ok_def e(2))
  moreover have "set (sv_registry s') = set (sv_registry (gw_server g)) \<union> (if finished t then {} else {c})"
    using r by (auto simp: e(2)) (auto simp: reg_add_def)
  moreover have "life t as \<and> conn_id c < gw_next g + 1" using e(1) opened(3) by simp
  ultimately show ?thesis
    using assms(2) fresh unfolding opened(1) sockets_ok_def o by (auto simp: less_Suc_eq)
next
  case (called_back c t as e t' bs)
  note ok = assms(2) [unfolded sockets_ok_def]
  have "life t as" using ok called_back(2) by auto
  note e = callback_effect [OF this called_back(3,4)]
  let ?s = "fold (socket_action c) bs (gw_server g)"
  have only: "y = (t, as)" if "(c, y) \<in> set (gw_tunnels g)" for y
    using ok called_back(2) that eq_key_imp_eq_value [of "gw_tunnels g" c] by blast
  then have in_reg: "c \<in> set (sv_registry (gw_server g)) \<longleftrightarrow> \<not> finished t"
    using ok called_back(2) by auto
  have reg: "sv_registry ?s = (if finished t' \<and> \<not> finished t then reg_remove c (sv_registry (gw_server g)) else sv_registry (gw_server g))"
    by (simp add: fold_actions e(2))
  have m: "websocketConnections (sv_metrics (gw_server g)) q = int (countFor q (sv_registry (gw_server g)))" for q
    using ok by simp
  have "websocketConnections (sv_metrics ?s) q = int (countFor q (sv_registry ?s))" for q
  proof (cases "finished t' \<and> \<not> finished t")
    case True
    then show ?thesis using ok in_reg countFor_remove [of "sv_registry (gw_server g)" c q] by (auto simp: fold_actions e(2) m)
  qed (auto simp: fold_actions e(2) m)
  moreover have mem: "(d, z) \<in> set (set_tunnel c (t', as @ bs) (gw_tunnels g)) \<longleftrightarrow> (if d = c then z = (t', as @ bs) else (d, z) \<in> set (gw_tunnels g))" for d z
    using called_back(2) by (force simp: set_tunnel_mem)
  moreover have "(d \<in> set (sv_registry ?s)) = (\<exists>t'' as''. (d, (t'', as'')) \<in> set (set_tunnel c (t', as @ bs) (gw_tunnels g)) \<and> \<not> finished t'')" for d
    unfolding mem reg using ok in_reg e(3) only called_back(2) by (cases "d = c") (auto simp: reg_remove_def)
  moreover have "distinct (sv_registry ?s)" using ok by (auto simp: reg reg_remove_def)
  moreover have "\<forall>(d, u, us) \<in> set (set_tunnel c (t', as @ bs) (gw_tunnels g)). life u us \<and> conn_id d < gw_next g"
    using ok e(1) called_back(2) by (auto simp: mem split: if_splits)
  ultimately show ?thesis
    using ok unfolding called_back(1) by (simp add: sockets_ok_def set_eq_iff)
qed (use assms(2) in \<open>auto simp: sockets_ok_def\<close>)

section \<open>The limit\<close>

text \<open>
  A handshake is counted only once it opens, so the limit holds up to the handshakes that passed the
  check together.
\<close>

definition limit_ok :: "(string \<Rightarrow> websocket_config) \<Rightarrow> nat \<Rightarrow> 'r gateway \<Rightarrow> bool" where
  "limit_ok cfg_of k g \<longleftrightarrow>
     (\<forall>rid. countFor rid (sv_registry (gw_server g)) + count_list (gw_pending g) rid \<le> ws_maxConnections (cfg_of rid) - 1 + k)"

lemma limit_okD: "limit_ok cfg_of k g \<Longrightarrow>
    countFor rid (sv_registry (gw_server g)) + count_list (gw_pending g) rid \<le> ws_maxConnections (cfg_of rid) - 1 + k"
  by (simp add: limit_ok_def)

lemma limit_mono:
  assumes "limit_ok cfg_of k g"
    "\<And>q. countFor q (sv_registry (gw_server g')) + count_list (gw_pending g') q
      \<le> countFor q (sv_registry (gw_server g)) + count_list (gw_pending g) q"
  shows "limit_ok cfg_of k g'"
  unfolding limit_ok_def using limit_okD [OF assms(1)] order_trans [OF assms(2)] by blast

lemma count_remove1: "x \<in> set xs \<Longrightarrow> count_list (remove1 x xs) y + (if x = y then 1 else 0) = count_list xs y"
  by (induction xs) auto

lemma countFor_reg_remove_le: "countFor rid (reg_remove c r) \<le> countFor rid r"
  by (induction r) (auto simp: countFor_def reg_remove_def)

lemma limit_step:
  assumes "gw_step cfg_of g g'" "sockets_ok g" "limit_ok cfg_of k g" "\<And>rid. count_list (gw_pending g') rid \<le> k"
  shows "limit_ok cfg_of k g'"
  using assms(1)
proof (cases rule: gw_step.cases)
  case (checked route)
  have "countFor rid (sv_registry (gw_server g)) + count_list (gw_pending g') rid \<le> ws_maxConnections (cfg_of rid) - 1 + k" for rid
    using checked(2) limit_okD [OF assms(3), of rid] assms(4) [of rid]
    by (cases "rid = route_id route") (auto simp: checked(1) at_capacity_def)
  then show ?thesis by (simp add: limit_ok_def checked(1))
next
  case (given_up rid)
  show ?thesis using count_remove1 [OF given_up(2)] by (intro limit_mono [OF assms(3)]) (simp add: given_up(1))
next
  case (opened rid c h s' o')
  obtain t as where o: "o' = (t, as)" by force
  note e = open_tunnel_effect [OF opened(4) [unfolded o]]
  have "c \<notin> fst ` set (gw_tunnels g)" using assms(2) opened(3) by (force simp: sockets_ok_def)
  then have r: "c \<notin> set (sv_registry (gw_server g))" using assms(2) by (force simp: sockets_ok_def)
  have "countFor q (sv_registry s') + count_list (remove1 rid (gw_pending g)) q
      \<le> countFor q (sv_registry (gw_server g)) + count_list (gw_pending g) q" for q
    using count_remove1 [OF opened(2), of q] r by (auto simp: e(2) countFor_add opened(3) split: if_splits)
  then show ?thesis by (intro limit_mono [OF assms(3)]) (simp add: opened(1))
next
  case (called_back c t as e t' bs)
  show ?thesis
    by (intro limit_mono [OF assms(3)]) (simp add: called_back(1) fold_actions countFor_reg_remove_le)
qed (use assms(3) in \<open>auto simp: limit_ok_def\<close>)

lemma gw_reachable_ok: "gw_reachable cfg_of k g \<Longrightarrow> sockets_ok g \<and> limit_ok cfg_of k g"
proof (induction rule: gw_reachable.induct)
  case (started g)
  then show ?case by (simp add: sockets_ok_def limit_ok_def countFor_def)
next
  case (stepped g g')
  then show ?case using sockets_step limit_step by blast
qed

lemma registered_count:
  assumes "sockets_ok g"
  shows "countFor rid (sv_registry (gw_server g)) = length (filter (\<lambda>(c, t, as). conn_route c = rid \<and> \<not> finished t) (gw_tunnels g))"
proof -
  let ?f = "filter (\<lambda>(c, t, as). conn_route c = rid \<and> \<not> finished t) (gw_tunnels g)"
  let ?r = "filter (\<lambda>c. conn_route c = rid) (sv_registry (gw_server g))"
  have r: "set (sv_registry (gw_server g)) = {c. \<exists>t as. (c, (t, as)) \<in> set (gw_tunnels g) \<and> \<not> finished t}"
    using assms by (simp add: sockets_ok_def)
  have "set (map fst ?f) = set ?r"
  proof (rule set_eqI, rule iffI)
    fix c assume "c \<in> set (map fst ?f)"
    then obtain t as where "(c, (t, as)) \<in> set (gw_tunnels g)" "conn_route c = rid" "\<not> finished t" by auto
    then show "c \<in> set ?r" using r by simp blast
  next
    fix c assume "c \<in> set ?r"
    then have c: "conn_route c = rid" "\<exists>t as. (c, (t, as)) \<in> set (gw_tunnels g) \<and> \<not> finished t" using r by simp_all
    then obtain t as where "(c, (t, as)) \<in> set ?f" by auto
    then show "c \<in> set (map fst ?f)" by force
  qed
  moreover have "distinct (map fst ?f)" using assms by (simp add: sockets_ok_def distinct_map_filter)
  moreover have "distinct ?r" using assms by (simp add: sockets_ok_def)
  ultimately have "length (map fst ?f) = length ?r" using distinct_card by metis
  then show ?thesis by (simp add: countFor_def)
qed

section \<open>Properties\<close>

text \<open>
  C21: However handshakes, tunnel callbacks and other requests interleave, a route's connection gauge and
  its registry entries both count exactly its unfinished tunnels, and these number at most
  \<open>maxConnections\<close> plus the handshakes in progress at a time less one.
\<close>

theorem sockets_accounted:
  assumes "gw_reachable cfg_of k g"
  shows "countFor rid (sv_registry (gw_server g))
      = length (filter (\<lambda>(c, t, as). conn_route c = rid \<and> \<not> finished t) (gw_tunnels g))
    \<and> websocketConnections (sv_metrics (gw_server g)) rid = int (countFor rid (sv_registry (gw_server g)))
    \<and> countFor rid (sv_registry (gw_server g)) \<le> ws_maxConnections (cfg_of rid) - 1 + k"
proof -
  have ok: "sockets_ok g" "limit_ok cfg_of k g" using gw_reachable_ok [OF assms] by auto
  from ok(1) have "websocketConnections (sv_metrics (gw_server g)) rid = int (countFor rid (sv_registry (gw_server g)))"
    by (simp add: sockets_ok_def)
  with registered_count [OF ok(1)] limit_okD [OF ok(2), of rid] show ?thesis by simp
qed

section \<open>Witness\<close>

definition quick_handshake :: handshake where
  "quick_handshake = \<lparr>hs_tenant = Some ''t'', hs_now = 0, hs_elapsedMs = 5, hs_accepted = True, hs_early = [], hs_closing = None\<rparr>"

definition first_socket :: connection where
  "first_socket = \<lparr>conn_id = 0, conn_route = ''r''\<rparr>"

lemma one_tunnel_reachable:
  "\<exists>g. gw_reachable (\<lambda>_. plain_ws) 1 g \<and> gw_server g = fst (open_tunnel plain_ws quick_handshake first_socket (small_server []))"
proof -
  let ?g = "\<lparr>gw_server = small_server [], gw_pending = [], gw_tunnels = [], gw_next = 0\<rparr>"
  let ?h = "?g\<lparr>gw_pending := [''r'']\<rparr>"
  have c: "route_id ws_route = ''r''" by (simp add: ws_route_def fragile_route_def bare_route_def)
  have "gw_reachable (\<lambda>_. plain_ws) 1 ?g"
    by (rule gw_reachable.started) (simp_all add: small_server_def createMetrics_def)
  moreover have "gw_step (\<lambda>_. plain_ws) ?g ?h"
    using gw_step.checked [of ws_route "\<lambda>_. plain_ws" ?g]
    by (simp add: c at_capacity_def small_server_def countFor_def plain_ws_def)
  ultimately have "gw_reachable (\<lambda>_. plain_ws) 1 ?h" by (rule gw_reachable.stepped) simp
  moreover obtain s' o' where o: "open_tunnel plain_ws quick_handshake first_socket (small_server []) = (s', o')" by (rule prod.exhaust)
  then have "gw_step (\<lambda>_. plain_ws) ?h (?h\<lparr>gw_server := s', gw_pending := [], gw_tunnels := [(first_socket, o')], gw_next := 1\<rparr>)"
    using gw_step.opened [of "''r''" ?h first_socket "\<lambda>_. plain_ws" quick_handshake s' o'] by (simp add: first_socket_def)
  ultimately have "gw_reachable (\<lambda>_. plain_ws) 1 (?h\<lparr>gw_server := s', gw_pending := [], gw_tunnels := [(first_socket, o')], gw_next := 1\<rparr>)"
    by (rule gw_reachable.stepped) simp
  then show ?thesis using o by (intro exI) (auto intro: conjI)
qed

lemma sockets_accounted_witness:
  "websocketConnections (sv_metrics (fst (open_tunnel plain_ws quick_handshake first_socket (small_server [])))) ''r'' = 1"
proof -
  obtain g where g: "gw_reachable (\<lambda>_. plain_ws) 1 g"
    "gw_server g = fst (open_tunnel plain_ws quick_handshake first_socket (small_server []))" using one_tunnel_reachable by blast
  have "countFor ''r'' (sv_registry (gw_server g)) = 1" unfolding g(2) by code_simp
  with sockets_accounted [OF g(1), of "''r''"] show ?thesis by (simp add: g(2))
qed

end
