(* ===== verification/Schema.thy ===== *)
theory Schema
  imports Runtime
begin

text \<open>
  What \<open>gateway/src/config/schema.ts\<close> accepts, as a predicate on the values the schema produces, what
  \<open>config/load.ts\<close> does with the verdict, and what an accepted configuration guarantees to the other
  parts of the gateway. Reading the file, YAML and the walk of the schema library over the text are
  parameters; so is the library's notion of a URL.
\<close>

section \<open>The schema\<close>

text \<open>\<open>z.number().int()\<close> admits integers up to \<open>Number.MAX_SAFE_INTEGER\<close> only.\<close>

definition z_positive :: "number \<Rightarrow> bool" where
  "z_positive x \<longleftrightarrow> int_positive x \<and> x \<le> 9007199254740991"

definition z_nonnegative :: "number \<Rightarrow> bool" where
  "z_nonnegative x \<longleftrightarrow> of_int \<lfloor>x\<rfloor> = x \<and> 0 \<le> x \<and> x \<le> 9007199254740991"

definition z_nonempty :: "string list \<Rightarrow> bool" where
  "z_nonempty xs \<longleftrightarrow> list_all (\<lambda>s. s \<noteq> []) xs"

definition httpMethodSchema :: "string list" where
  "httpMethodSchema = [''GET'', ''POST'', ''PUT'', ''PATCH'', ''DELETE'', ''HEAD'', ''OPTIONS'']"

text \<open>\<open>HOST_PATTERN\<close>: an optional \<open>*.\<close>, then labels that begin and end with a letter or digit.\<close>

definition alnum :: "char \<Rightarrow> bool" where
  "alnum c \<longleftrightarrow> (let n = of_char c :: nat in 97 \<le> n \<and> n \<le> 122 \<or> 65 \<le> n \<and> n \<le> 90 \<or> 48 \<le> n \<and> n \<le> 57)"

definition host_label :: "string \<Rightarrow> bool" where
  "host_label s \<longleftrightarrow> s \<noteq> [] \<and> alnum (hd s) \<and> alnum (last s) \<and> list_all (\<lambda>c. alnum c \<or> c = CHR ''-'') s"

definition HOST_PATTERN :: "string \<Rightarrow> bool" where
  "HOST_PATTERN s = list_all host_label (js_split (CHR ''.'') (if js_starts_with s ''*.'' then drop 2 s else s))"

definition upstreamSchema :: "(string \<Rightarrow> bool) \<Rightarrow> upstream \<Rightarrow> bool" where
  "upstreamSchema is_url u \<longleftrightarrow>
     targets u \<noteq> [] \<and> list_all is_url (targets u)
     \<and> pred_option (\<lambda>h. z_positive (hc_intervalMs h)) (healthCheck u)
     \<and> z_positive (timeoutMs u) \<and> pred_option z_nonnegative (bodyTimeoutMs u)"

definition authSchema :: "(string \<Rightarrow> bool) \<Rightarrow> auth_config \<Rightarrow> bool" where
  "authSchema is_url a = (case a of AuthJwt url _ _ _ _ \<Rightarrow> is_url url | _ \<Rightarrow> True)"

definition globalRateLimitSchema :: "global_rate_limit \<Rightarrow> bool" where
  "globalRateLimitSchema g \<longleftrightarrow> z_positive (g_limit g) \<and> z_positive (g_windowSec g) \<and> pred_option z_positive (g_burst g)"

definition rateLimitSchema :: "rate_limit_config \<Rightarrow> bool" where
  "rateLimitSchema c \<longleftrightarrow>
     rl_keyBy c \<noteq> [] \<and> z_positive (rl_limit c) \<and> z_positive (rl_windowSec c) \<and> pred_option z_positive (rl_burst c)
     \<and> pred_option globalRateLimitSchema (rl_global c) \<and> global_refined c"

definition corsSchema :: "cors_config \<Rightarrow> bool" where
  "corsSchema c \<longleftrightarrow>
     cors_origins c \<noteq> [] \<and> z_nonempty (cors_origins c)
     \<and> cors_methods c \<noteq> [] \<and> set (cors_methods c) \<subseteq> set httpMethodSchema
     \<and> z_nonempty (cors_allowedHeaders c) \<and> z_nonempty (cors_exposedHeaders c) \<and> z_nonnegative (cors_maxAgeSec c)"

definition messageRateLimitSchema :: "message_rate_limit \<Rightarrow> bool" where
  "messageRateLimitSchema c \<longleftrightarrow> z_positive (m_limit c) \<and> z_positive (m_windowSec c) \<and> pred_option z_positive (m_burst c)"

definition websocketSchema :: "websocket_config \<Rightarrow> bool" where
  "websocketSchema c \<longleftrightarrow>
     pred_option (\<lambda>os. os \<noteq> [] \<and> z_nonempty os) (ws_origins c) \<and> 0 < ws_maxConnections c
     \<and> z_positive (ws_maxMessageBytes c) \<and> z_positive (ws_maxBufferedBytes c)
     \<and> z_nonnegative (ws_pingIntervalMs c) \<and> z_nonnegative (ws_idleTimeoutMs c)
     \<and> pred_option messageRateLimitSchema (ws_messageRateLimit c)"

definition retrySchema :: "retry_config \<Rightarrow> bool" where
  "retrySchema c \<longleftrightarrow> z_positive (backoffMs c)"

definition circuitBreakerSchema :: "breaker_options \<Rightarrow> bool" where
  "circuitBreakerSchema c \<longleftrightarrow> 0 < failureThreshold c \<and> z_positive (resetTimeoutMs c)"

definition routeSchema :: "(string \<Rightarrow> bool) \<Rightarrow> route_config \<Rightarrow> bool" where
  "routeSchema is_url r \<longleftrightarrow>
     route_id r \<noteq> [] \<and> m_path (match r) \<noteq> []
     \<and> pred_option (\<lambda>ms. set ms \<subseteq> set httpMethodSchema) (m_methods (match r))
     \<and> pred_option HOST_PATTERN (m_host (match r))
     \<and> upstreamSchema is_url (upstream r) \<and> authSchema is_url (auth r)
     \<and> pred_option rateLimitSchema (rateLimit r) \<and> pred_option (\<lambda>c. z_positive (cache_ttlSec c)) (cache r)
     \<and> pred_option corsSchema (cors r) \<and> pred_option websocketSchema (websocket r)
     \<and> pred_option retrySchema (retry r) \<and> pred_option circuitBreakerSchema (circuitBreaker r)"

definition serverSchema :: "server_config \<Rightarrow> bool" where
  "serverSchema c \<longleftrightarrow> 0 < port c \<and> z_positive (maxBodyBytes c) \<and> 0 < maxHeaderCount c \<and> z_positive (requestTimeoutMs c)"

definition gatewayConfigSchema :: "(string \<Rightarrow> bool) \<Rightarrow> gateway_config \<Rightarrow> bool" where
  "gatewayConfigSchema is_url c \<longleftrightarrow>
     serverSchema (server c) \<and> pred_option (\<lambda>r. redis_url r \<noteq> []) (redis c) \<and> db_url c \<noteq> Some []
     \<and> admin_token c \<noteq> Some [] \<and> list_all (routeSchema is_url) (routes c)"

section \<open>Loading\<close>

text \<open>
  \<open>loadConfig\<close>: the file's text or an error, the parsed document or an error, and the schema's verdict,
  a configuration or a list of issues, each with its path and message.
\<close>

definition join_with :: "string \<Rightarrow> string list \<Rightarrow> string" where
  "join_with sep xs = concat (case xs of [] \<Rightarrow> [] | y # ys \<Rightarrow> y # map (\<lambda>s. sep @ s) ys)"

definition issue_line :: "string list \<times> string \<Rightarrow> string" where
  "issue_line issue =
     (let path = join_with ''.'' (fst issue)
      in ''  - '' @ (if path = [] then ''(root)'' else path) @ '': '' @ snd issue)"

definition loadConfig ::
  "(string \<Rightarrow> string + string) \<Rightarrow> (string \<Rightarrow> string + 'y) \<Rightarrow> ('y \<Rightarrow> (string list \<times> string) list + gateway_config)
    \<Rightarrow> string \<Rightarrow> string + gateway_config" where
  "loadConfig readFile parseYaml safeParse path =
     (case readFile path of
        Inl e \<Rightarrow> Inl e
      | Inr content \<Rightarrow> (case parseYaml content of
          Inl e \<Rightarrow> Inl e
        | Inr parsed \<Rightarrow> (case safeParse parsed of
            Inl issues \<Rightarrow> Inl (''Invalid config at '' @ path @ '':'' @ [CHR 0x0A] @ join_with [CHR 0x0A] (map issue_line issues))
          | Inr c \<Rightarrow> Inr c)))"

section \<open>What an accepted configuration guarantees\<close>

lemma rateLimitSchema_accepted: "rateLimitSchema c \<Longrightarrow> rate_limit_accepted c"
  by (auto simp: rateLimitSchema_def rate_limit_accepted_def globalRateLimitSchema_def z_positive_def
      elim!: option.pred_mono_strong)

lemma circuitBreakerSchema_valid: "circuitBreakerSchema c \<Longrightarrow> in_range (resetTimeoutMs c) \<Longrightarrow> valid_options c"
  using int_positive_safe [of "resetTimeoutMs c"] by (auto simp: circuitBreakerSchema_def valid_options_def z_positive_def)

lemma no_directives: "parseCacheControl None = \<lparr>noStore = False, noCache = False, private_dir = False, maxAge = None\<rparr>"
  by code_simp

text \<open>Every target of a fresh balancer can be picked.\<close>

lemma fresh_available:
  assumes "targets (upstream r) \<noteq> []"
  shows "\<exists>t b. pickTarget now (createBalancer r) = (Some t, b) \<and> t \<in> set (targets (upstream r))"
proof -
  let ?b = "createBalancer r"
  have ne: "b_targets ?b \<noteq> []" using assms by (simp add: createBalancer_def)
  obtain res b' where p: "pickTarget now ?b = (res, b')" by force
  note c = pickTarget_first [OF ne p]
  have first: "position ?b 0 = 0" by (simp add: position_def createBalancer_def)
  show ?thesis
  proof (cases res)
    case None
    with c ne first have "\<not> available now ?b 0" by (metis length_greater_0_conv option.distinct(1))
    moreover have "available now ?b 0"
      using ne by (auto simp: available_def createBalancer_def canRequest_def new_breaker_def nth_map Let_def split: option.splits)
    ultimately show ?thesis by simp
  next
    case (Some t)
    with c obtain j where "t = t_url (b_targets ?b ! position ?b j)" by auto
    moreover have "position ?b j < length (b_targets ?b)" using ne by (simp add: position_def)
    ultimately have "t \<in> set (urls ?b)" by (simp add: urls_def)
    with p Some show ?thesis by simp
  qed
qed

text \<open>Sending to the target picked, when the upstream answers below 500.\<close>

lemma forward_once:
  assumes "targets (upstream r) \<noteq> []" "0 < maxAttempts r m" "\<And>n t. send e n t = Inr (res t)" "\<And>t. fr_status (res t) < 500"
    and "(if eligible r m then buf else None) = None"
  shows "\<exists>t b. forwardWithRetry e r m buf (createBalancer r) = (Inr (res t), b, [Picked t, Success t]) \<and> t \<in> set (targets (upstream r))"
proof -
  obtain k where k: "maxAttempts r m = Suc k" using assms(2) gr0_implies_Suc by blast
  obtain t b where "pickTarget (pick_time e 1) (createBalancer r) = (Some t, b)" "t \<in> set (targets (upstream r))"
    using fresh_available [OF assms(1)] by blast
  then show ?thesis
    using assms(3,4) by (auto simp: forwardWithRetry_def assms(5) k linorder_not_le [symmetric])
qed

lemma maxAttempts_positive [simp]: "0 < maxAttempts r m"
  by (simp add: maxAttempts_def)

text \<open>A server that has just been started with a configuration, or has just reloaded it.\<close>

definition serving :: "gateway_config \<Rightarrow> bool \<Rightarrow> 'r server \<Rightarrow> bool" where
  "serving config shared s \<longleftrightarrow> sv_runtime s = buildRuntimeState config shared"

lemma fresh_balancer:
  assumes "distinct (map route_id rs)" "r \<in> set rs"
  shows "map_of (foldl (\<lambda>bs r. AList.update (route_id r) (createBalancer r) bs) st rs) (route_id r) = Some (createBalancer r)"
  using foldl_update_get [of rs r "\<lambda>r. Some (createBalancer r)" "createBalancer r" st] assms by simp

lemma js_find_mem: "js_find P xs = Some x \<Longrightarrow> x \<in> set xs"
  by (induction xs) (auto split: if_splits)


text \<open>
  Whatever configuration the schema accepts, its routes meet what the other parts rely on: the limits
  are valid and each key kind in use has its policy, the breakers have valid options (up to a timeout of \<open>2^42\<close> milliseconds), a fresh balancer has
  a target to pick, a fresh registry admits a connection, and a plain 200 may be cached.
\<close>

theorem accepted_config_sound:
  assumes "gatewayConfigSchema is_url config" "route \<in> set (routes config)"
  shows "(\<forall>c ip ctx. rateLimit route = Some c \<longrightarrow>
        rate_limit_accepted c \<and> rate_checks (route_id route) c ip ctx (rl_keyBy c) \<noteq> None)
    \<and> (\<forall>c. circuitBreaker route = Some c \<longrightarrow> in_range (resetTimeoutMs c) \<longrightarrow> valid_options c)
    \<and> (\<exists>t b. pickTarget now (createBalancer route) = (Some t, b) \<and> is_url t)
    \<and> (\<forall>c. websocket route = Some c \<longrightarrow> \<not> at_capacity route c [])
    \<and> (\<forall>c. cache route = Some c \<longrightarrow> cacheable (decideCacheability 200 [] (cache_ttlSec c)))"
proof (intro conjI allI impI)
  have r: "routeSchema is_url route" using assms by (auto simp: gatewayConfigSchema_def list_all_iff)
  {
    fix c ip ctx assume c: "rateLimit route = Some c"
    show accepted: "rate_limit_accepted c" using r c by (simp add: routeSchema_def rateLimitSchema_accepted)
    have "rate_checks rid c ip ctx ks \<noteq> None" if "set ks \<subseteq> set (rl_keyBy c)" for rid ks
      using that
    proof (induction ks)
      case (Cons k ks)
      then show ?case using accepted
        by (cases k) (auto simp: rate_limit_accepted_def global_refined_def split: option.splits)
    qed simp
    then show "rate_checks (route_id route) c ip ctx (rl_keyBy c) \<noteq> None" by simp
  }
  show "valid_options c" if "circuitBreaker route = Some c" "in_range (resetTimeoutMs c)" for c
    using r that by (simp add: routeSchema_def circuitBreakerSchema_valid)
  have "targets (upstream route) \<noteq> []" "\<forall>t \<in> set (targets (upstream route)). is_url t"
    using r by (simp_all add: routeSchema_def upstreamSchema_def list_all_iff)
  then show "\<exists>t b. pickTarget now (createBalancer route) = (Some t, b) \<and> is_url t"
    using fresh_available [of route now] by blast
  show "\<not> at_capacity route c []" if "websocket route = Some c" for c
    using r that by (simp add: routeSchema_def websocketSchema_def at_capacity_def countFor_def)
  show "cacheable (decideCacheability 200 [] (cache_ttlSec c))" if "cache route = Some c" for c
    using r that by (auto simp: routeSchema_def z_positive_def int_positive_def decideCacheability_def Let_def no_directives)
qed

section \<open>Routes that share an id\<close>

lemma pick_loop_mem: "pick_loop now k i b = (Some t, b') \<Longrightarrow> k \<le> length (b_targets b) \<Longrightarrow> t \<in> set (urls b)"
proof (induction k arbitrary: i b)
  case (Suc k)
  let ?j = "(b_cursor b + i) mod length (b_targets b)"
  have j: "?j < length (b_targets b)" using Suc.prems(2) by (intro mod_less_divisor) auto
  then have here: "t_url (b_targets b ! ?j) \<in> set (urls b)" by (simp add: urls_def)
  have same: "urls (b\<lparr>b_targets := (b_targets b)[?j := (b_targets b ! ?j)\<lparr>t_breaker := x\<rparr>]\<rparr>) = urls b" for x
    using j by (simp add: urls_def map_update list_update_same_conv)
  show ?case
    using Suc.prems here Suc.IH [of "Suc i" b] Suc.IH [of "Suc i" "b\<lparr>b_targets := (b_targets b)[?j := (b_targets b ! ?j)\<lparr>t_breaker := x\<rparr>]\<rparr>" for x] same
    by (auto simp: Let_def case_prod_beta split: option.splits if_splits)
qed simp

lemma pickTarget_mem: "pickTarget now b = (Some t, b') \<Longrightarrow> t \<in> set (urls b)"
  unfolding pickTarget_def by (erule pick_loop_mem) simp

lemma attempt_loop_picks:
  "waits_keep_urls e \<Longrightarrow> urls b = us \<Longrightarrow> set (picks_of (snd (snd (attempt_loop e rc k n le b)))) \<subseteq> set us"
proof (induction k arbitrary: n le b)
  case (Suc k)
  obtain p b1 where p: "pickTarget (pick_time e n) b = (p, b1)" by force
  show ?case
  proof (cases p)
    case (Some t)
    have t: "t \<in> set us" using pickTarget_mem [of "pick_time e n" b t b1] p Some Suc.prems(2) by simp
    let ?b = "while_sleeping e n (reportFailure (report_time e n) t (while_sending e n b1))"
    have "urls ?b = us"
      using Suc.prems pickTarget_urls [of "pick_time e n" b] p by (simp add: waits_keep_urls_def)
    then have "set (picks_of (snd (snd (attempt_loop e rc k (n + 1) le' ?b)))) \<subseteq> set us" for le'
      by (rule Suc.IH [OF Suc.prems(1)])
    then show ?thesis using p Some t by (auto simp: Let_def case_prod_beta split: sum.splits)
  qed (simp add: p)
qed simp

lemma update_overwrites:
  assumes "x \<notin> route_id ` set rs2" "route_id b = x"
  shows "map_of (foldl (\<lambda>bs r. AList.update (route_id r) (createBalancer r) bs) st (rs1 @ b # rs2)) x = Some (createBalancer b)"
  using foldl_update_absent_key [of x rs2 "\<lambda>r. Some (createBalancer r)"] assms by (simp add: update_conv')


section \<open>Witnesses\<close>

lemma bare_accepted [simp]: "rid \<noteq> [] \<Longrightarrow> routeSchema (\<lambda>_. True) (bare_route rid)"
  by (auto simp: routeSchema_def upstreamSchema_def authSchema_def bare_route_def z_positive_def int_positive_def)

lemma small_accepted: "list_all (\<lambda>r. routeSchema (\<lambda>_. True) r) rs \<Longrightarrow> gatewayConfigSchema (\<lambda>_. True) (small_config rs)"
  by (simp add: gatewayConfigSchema_def small_config_def serverSchema_def z_positive_def int_positive_def)

lemma small_serving: "serving (small_config rs) False (small_server rs)"
  by (simp add: serving_def small_server_def)


text \<open>Two routes of one id, and a limited one.\<close>

definition twin :: "string \<Rightarrow> string \<Rightarrow> route_config" where
  "twin host url = (bare_route ''api'')\<lparr>match := \<lparr>m_path = ''/*'', m_methods = None, m_host = Some host\<rparr>,
     upstream := \<lparr>targets = [url], healthCheck = None, timeoutMs = 5000, bodyTimeoutMs = None\<rparr>,
     circuitBreaker := Some \<lparr>failureThreshold = 5, resetTimeoutMs = 30000\<rparr>\<rparr>"

definition twins :: gateway_config where
  "twins = small_config [twin ''a.example'' ''http://a'', twin ''b.example'' ''http://b'']"

lemma twins_accepted: "gatewayConfigSchema (\<lambda>_. True) twins"
proof -
  have "HOST_PATTERN ''a.example''" "HOST_PATTERN ''b.example''" by code_simp+
  then show ?thesis
    unfolding twins_def by (intro small_accepted)
      (simp add: twin_def routeSchema_def upstreamSchema_def authSchema_def bare_route_def z_positive_def int_positive_def
        circuitBreakerSchema_def)
qed

lemma accepted_config_sound_witness:
  "valid_options \<lparr>failureThreshold = 5, resetTimeoutMs = 30000\<rparr>"
  using accepted_config_sound [OF twins_accepted, of "twin ''a.example'' ''http://a''" 0]
  by (simp add: twins_def small_config_def) (simp add: twin_def in_range_def)


end
