(* ===== verification/Migrations.thy ===== *)
theory Migrations
  imports Prelude "HOL-Library.List_Lexorder" "HOL-Library.Char_ord"
begin

text \<open>
  \<open>runMigrations\<close> of \<open>gateway/src/db/client.ts\<close>: the numbered SQL files, each applied in a transaction
  that also records its name. The directory, the text of a file and what a script does to the database are
  parameters; a transaction takes effect at its commit or not at all. Instances that start together run it
  concurrently, each step of one between those of others.
\<close>

section \<open>One instance\<close>

text \<open>The table \<open>_migrations\<close>, once it exists, in the order of its rows, and everything else.\<close>

record 'd schema_db =
  mg_table :: "string list option"
  mg_data :: 'd

definition applied_names :: "'d schema_db \<Rightarrow> string list" where
  "applied_names db = (case mg_table db of Some names \<Rightarrow> names | None \<Rightarrow> [])"

text \<open>\<open>CREATE TABLE IF NOT EXISTS _migrations\<close>.\<close>

definition create_table :: "'d schema_db \<Rightarrow> 'd schema_db" where
  "create_table db = (if mg_table db = None then db\<lparr>mg_table := Some []\<rparr> else db)"

text \<open>\<open>.filter((f) => f.endsWith('.sql')).sort()\<close>.\<close>

definition migration_files :: "string list \<Rightarrow> string list" where
  "migration_files dir = sort (filter (\<lambda>f. js_ends_with f ''.sql'') dir)"

text \<open>
  The transaction of one file: \<open>None\<close> is an error, rolled back. The primary key of the table refuses a
  name that is already there.
\<close>

definition migrate_file :: "(string \<Rightarrow> 'd \<Rightarrow> 'd option) \<Rightarrow> string \<Rightarrow> string \<Rightarrow> 'd schema_db \<Rightarrow> 'd schema_db option" where
  "migrate_file exec file sql db =
     (case exec sql (mg_data db) of
        None \<Rightarrow> None
      | Some d \<Rightarrow> if file \<in> set (applied_names db) then None
                  else Some (db\<lparr>mg_table := Some (applied_names db @ [file]), mg_data := d\<rparr>))"

fun migrate_loop :: "(string \<Rightarrow> string option) \<Rightarrow> (string \<Rightarrow> 'd \<Rightarrow> 'd option) \<Rightarrow> string list \<Rightarrow> 'd schema_db
    \<Rightarrow> (string + unit) \<times> 'd schema_db" where
  "migrate_loop content exec [] db = (Inr (), db)"
| "migrate_loop content exec (file # files) db =
     (if file \<in> set (applied_names db) then migrate_loop content exec files db
      else case content file of
        None \<Rightarrow> (Inl file, db)
      | Some sql \<Rightarrow>
          (case migrate_file exec file sql db of
             None \<Rightarrow> (Inl file, db)
           | Some db' \<Rightarrow> migrate_loop content exec files db'))"

definition runMigrations :: "string list \<Rightarrow> (string \<Rightarrow> string option) \<Rightarrow> (string \<Rightarrow> 'd \<Rightarrow> 'd option) \<Rightarrow> 'd schema_db
    \<Rightarrow> (string + unit) \<times> 'd schema_db" where
  "runMigrations dir content exec db = migrate_loop content exec (migration_files dir) (create_table db)"

subsection \<open>What a run does\<close>

text \<open>The effect of a list of files, one after the other, all of which succeed.\<close>

fun script_effect :: "(string \<Rightarrow> string option) \<Rightarrow> (string \<Rightarrow> 'd \<Rightarrow> 'd option) \<Rightarrow> string list \<Rightarrow> 'd \<Rightarrow> 'd option" where
  "script_effect content exec [] d = Some d"
| "script_effect content exec (file # files) d =
     (case content file of
        None \<Rightarrow> None
      | Some sql \<Rightarrow> (case exec sql d of None \<Rightarrow> None | Some d' \<Rightarrow> script_effect content exec files d'))"

lemma script_effect_append:
  "script_effect content exec (fs @ gs) d = (case script_effect content exec fs d of None \<Rightarrow> None | Some d' \<Rightarrow> script_effect content exec gs d')"
  by (induction fs arbitrary: d) (auto split: option.splits)

lemma create_table_simps [simp]:
  "applied_names (create_table db) = applied_names db" "mg_data (create_table db) = mg_data db"
  "mg_table (create_table db) = Some (applied_names db)" "create_table (create_table db) = create_table db"
  by (auto simp: create_table_def applied_names_def)

lemma create_table_id: "mg_table db = Some names \<Longrightarrow> create_table db = db"
  by (simp add: create_table_def)

lemma migrate_file_Some:
  "migrate_file exec file sql db = Some db' \<longleftrightarrow> (\<exists>d. exec sql (mg_data db) = Some d \<and> file \<notin> set (applied_names db)
     \<and> db' = db\<lparr>mg_table := Some (applied_names db @ [file]), mg_data := d\<rparr>)"
  by (auto simp: migrate_file_def split: option.splits)

lemma applied_upd [simp]: "applied_names (db\<lparr>mg_table := Some xs, mg_data := d\<rparr>) = xs"
  by (simp add: applied_names_def)

text \<open>
  \<open>done\<close> are the files that a run adds: a prefix of the pending ones, all of them unless it fails, and then
  the file that failed is the next.
\<close>

lemma migrate_loop_spec:
  assumes "distinct fs" "migrate_loop content exec fs db = (r, db')" "mg_table db = Some names"
  shows "\<exists>don rest. filter (\<lambda>g. g \<notin> set (applied_names db)) fs = don @ rest
    \<and> mg_table db' = Some (applied_names db @ don)
    \<and> script_effect content exec don (mg_data db) = Some (mg_data db')
    \<and> (case r of Inr _ \<Rightarrow> rest = [] | Inl h \<Rightarrow> \<exists>hs. rest = h # hs \<and> script_effect content exec [h] (mg_data db') = None)"
  using assms
proof (induction fs arbitrary: db names)
  case Nil
  then show ?case by (auto simp: applied_names_def)
next
  case (Cons f fs)
  show ?case
  proof (cases "f \<in> set (applied_names db)")
    case True
    with Cons show ?thesis by simp
  next
    case False
    show ?thesis
    proof (cases "\<exists>sql d. content f = Some sql \<and> exec sql (mg_data db) = Some d")
      case True
      then obtain sql d where sql: "content f = Some sql" "exec sql (mg_data db) = Some d" by blast
      let ?db = "db\<lparr>mg_table := Some (applied_names db @ [f]), mg_data := d\<rparr>"
      have "migrate_loop content exec fs ?db = (r, db')"
        using Cons.prems(2) False sql by (simp add: migrate_file_def)
      from Cons.IH [OF _ this] Cons.prems(1) obtain don rest where
        "filter (\<lambda>g. g \<notin> set (applied_names ?db)) fs = don @ rest" "mg_table db' = Some ((applied_names db @ [f]) @ don)"
        "script_effect content exec don d = Some (mg_data db')"
        "case r of Inr _ \<Rightarrow> rest = [] | Inl h \<Rightarrow> \<exists>hs. rest = h # hs \<and> script_effect content exec [h] (mg_data db') = None"
        by auto
      moreover have "filter (\<lambda>g. g \<notin> set (applied_names ?db)) fs = filter (\<lambda>g. g \<notin> set (applied_names db)) fs"
        using Cons.prems(1) by (intro filter_cong) auto
      ultimately show ?thesis
        using False sql by (intro exI [of _ "f # don"] exI [of _ rest]) simp
    next
      case none: False
      then have "r = Inl f" "db' = db" using Cons.prems(2) False
        by (auto simp: migrate_file_def split: option.splits)
      then show ?thesis
        using False none Cons.prems(3)
        by (intro exI [of _ "[]"] exI [of _ "filter (\<lambda>g. g \<notin> set (applied_names db)) (f # fs)"])
          (auto simp: applied_names_def split: option.splits)
    qed
  qed
qed

lemma distinct_migration_files: "distinct dir \<Longrightarrow> distinct (migration_files dir)"
  by (simp add: migration_files_def)

text \<open>
  C33: a start applies the SQL files that are not yet recorded, in the order of their names, each exactly
  once. If a file fails, everything before it stays applied and recorded and nothing of it or after it does;
  otherwise all are, and starting again changes nothing.
\<close>

theorem runMigrations_correct:
  assumes "distinct dir" "runMigrations dir content exec db = (r, db')"
  shows "\<exists>don rest. filter (\<lambda>f. f \<notin> set (applied_names db)) (migration_files dir) = don @ rest
    \<and> applied_names db' = applied_names db @ don
    \<and> script_effect content exec don (mg_data db) = Some (mg_data db')
    \<and> (case r of Inl f \<Rightarrow> \<exists>fs. rest = f # fs \<and> script_effect content exec [f] (mg_data db') = None
       | Inr _ \<Rightarrow> rest = [] \<and> runMigrations dir content exec db' = (Inr (), db'))"
proof -
  have run: "migrate_loop content exec (migration_files dir) (create_table db) = (r, db')"
    using assms(2) by (simp add: runMigrations_def)
  obtain don rest where d: "filter (\<lambda>f. f \<notin> set (applied_names db)) (migration_files dir) = don @ rest"
    "mg_table db' = Some (applied_names db @ don)" "script_effect content exec don (mg_data db) = Some (mg_data db')"
    "case r of Inr _ \<Rightarrow> rest = [] | Inl f \<Rightarrow> \<exists>fs. rest = f # fs \<and> script_effect content exec [f] (mg_data db') = None"
    using migrate_loop_spec [OF distinct_migration_files [OF assms(1)] run] by auto
  have names: "applied_names db' = applied_names db @ don" using d(2) by (simp add: applied_names_def)
  have skip: "migrate_loop content exec files db' = (Inr (), db')" if "set files \<subseteq> set (applied_names db')" for files
    using that by (induction files) auto
  have "runMigrations dir content exec db' = (Inr (), db')" if "rest = []"
  proof -
    have "set (migration_files dir) \<subseteq> set (applied_names db')"
      using arg_cong [OF d(1), of set] that names by auto
    then show ?thesis using skip create_table_id [OF d(2)] by (simp add: runMigrations_def)
  qed
  with d names show ?thesis by (intro exI [of _ don] exI [of _ rest]) (auto split: sum.splits)
qed

section \<open>Instances that start together\<close>

text \<open>
  What an instance has still to do, and whether it has seen that the first of its files is missing: the
  \<open>SELECT\<close> and the transaction are separate steps.
\<close>

record startup =
  su_files :: "string list"
  su_checked :: bool
  su_failed :: bool

record 'd starting =
  st_db :: "'d schema_db"
  st_instances :: "nat \<Rightarrow> startup"

definition advance :: "nat \<Rightarrow> startup \<Rightarrow> 'd schema_db \<Rightarrow> 'd starting \<Rightarrow> 'd starting" where
  "advance i u db s = \<lparr>st_db = db, st_instances = (st_instances s)(i := u)\<rparr>"

inductive start_step :: "(string \<Rightarrow> string option) \<Rightarrow> (string \<Rightarrow> 'd \<Rightarrow> 'd option) \<Rightarrow> 'd starting \<Rightarrow> 'd starting \<Rightarrow> bool"
  for content :: "string \<Rightarrow> string option" and exec :: "string \<Rightarrow> 'd \<Rightarrow> 'd option" where
  seen: "st_instances s i = \<lparr>su_files = f # fs, su_checked = False, su_failed = False\<rparr> \<Longrightarrow> f \<in> set (applied_names (st_db s))
    \<Longrightarrow> start_step content exec s (advance i \<lparr>su_files = fs, su_checked = False, su_failed = False\<rparr> (st_db s) s)"
| missing: "st_instances s i = \<lparr>su_files = f # fs, su_checked = False, su_failed = False\<rparr> \<Longrightarrow> f \<notin> set (applied_names (st_db s))
    \<Longrightarrow> start_step content exec s (advance i \<lparr>su_files = f # fs, su_checked = True, su_failed = False\<rparr> (st_db s) s)"
| committed: "st_instances s i = \<lparr>su_files = f # fs, su_checked = True, su_failed = False\<rparr> \<Longrightarrow> content f = Some sql
    \<Longrightarrow> migrate_file exec f sql (st_db s) = Some db
    \<Longrightarrow> start_step content exec s (advance i \<lparr>su_files = fs, su_checked = False, su_failed = False\<rparr> db s)"
| failed: "st_instances s i = \<lparr>su_files = f # fs, su_checked = True, su_failed = False\<rparr>
    \<Longrightarrow> (case content f of None \<Rightarrow> True | Some sql \<Rightarrow> migrate_file exec f sql (st_db s) = None)
    \<Longrightarrow> start_step content exec s (advance i \<lparr>su_files = f # fs, su_checked = True, su_failed = True\<rparr> (st_db s) s)"

inductive start_run :: "(string \<Rightarrow> string option) \<Rightarrow> (string \<Rightarrow> 'd \<Rightarrow> 'd option) \<Rightarrow> 'd starting \<Rightarrow> 'd starting \<Rightarrow> bool"
  for content :: "string \<Rightarrow> string option" and exec :: "string \<Rightarrow> 'd \<Rightarrow> 'd option" and s :: "'d starting" where
  here: "start_run content exec s s"
| next_step: "start_run content exec s t \<Longrightarrow> start_step content exec t u \<Longrightarrow> start_run content exec s u"

lemma start_step_db:
  assumes "start_step content exec s t"
  shows "st_db t = st_db s \<or> (\<exists>f sql. content f = Some sql \<and> migrate_file exec f sql (st_db s) = Some (st_db t))"
  using assms by cases (auto simp: advance_def)

text \<open>
  C34: however many instances start together and however their steps interleave, no migration is applied
  twice: the table lists each name once, and the database is what the files it has gained make of the
  database at the start, in the order of the table.
\<close>

theorem migrations_once:
  assumes "start_run content exec s t" "distinct (applied_names (st_db s))"
  shows "\<exists>don. applied_names (st_db t) = applied_names (st_db s) @ don \<and> distinct (applied_names (st_db t))
    \<and> script_effect content exec don (mg_data (st_db s)) = Some (mg_data (st_db t))"
  using assms(1)
proof (induction rule: start_run.induct)
  case here
  then show ?case using assms(2) by simp
next
  case (next_step t u)
  then obtain don where d: "applied_names (st_db t) = applied_names (st_db s) @ don" "distinct (applied_names (st_db t))"
    "script_effect content exec don (mg_data (st_db s)) = Some (mg_data (st_db t))" by blast
  from start_step_db [OF next_step.hyps(2)] show ?case
  proof (elim disjE exE conjE)
    fix f sql assume f: "content f = Some sql" "migrate_file exec f sql (st_db t) = Some (st_db u)"
    then obtain x where x: "exec sql (mg_data (st_db t)) = Some x" "f \<notin> set (applied_names (st_db t))"
      "st_db u = (st_db t)\<lparr>mg_table := Some (applied_names (st_db t) @ [f]), mg_data := x\<rparr>"
      by (auto simp: migrate_file_Some)
    then show ?thesis using d f(1) by (intro exI [of _ "don @ [f]"]) (auto simp: script_effect_append)
  qed (use d in auto)
qed

text \<open>
  Two instances on an empty database: both see the first file missing, one of them applies it, and the
  transaction of the other fails, which ends its start.
\<close>

definition two_instances :: "string list \<Rightarrow> 'd \<Rightarrow> 'd starting" where
  "two_instances files d = \<lparr>st_db = \<lparr>mg_table = Some [], mg_data = d\<rparr>,
     st_instances = (\<lambda>_. \<lparr>su_files = files, su_checked = False, su_failed = False\<rparr>)\<rparr>"

text \<open>
  Of two instances that start together on an empty database one can fail although every migration is
  correct and has been applied.
\<close>

theorem concurrent_start_fails:
  assumes "content f = Some sql" "exec sql d = Some d'"
  shows "\<exists>t. start_run content exec (two_instances [f] d) t \<and> su_failed (st_instances t 1)
    \<and> su_files (st_instances t 0) = [] \<and> st_db t = \<lparr>mg_table = Some [f], mg_data = d'\<rparr>"
proof -
  let ?waiting = "\<lparr>su_files = [f], su_checked = False, su_failed = False\<rparr>"
  let ?checked = "\<lparr>su_files = [f], su_checked = True, su_failed = False\<rparr>"
  let ?s0 = "two_instances [f] d" and ?db = "\<lparr>mg_table = Some [f], mg_data = d'\<rparr>"
  let ?s1 = "advance 0 ?checked (st_db ?s0) ?s0"
  let ?s2 = "advance 1 ?checked (st_db ?s1) ?s1"
  let ?s3 = "advance 0 \<lparr>su_files = [], su_checked = False, su_failed = False\<rparr> ?db ?s2"
  let ?s4 = "advance 1 \<lparr>su_files = [f], su_checked = True, su_failed = True\<rparr> (st_db ?s3) ?s3"
  have 1: "start_step content exec ?s0 ?s1" by (rule missing) (simp_all add: two_instances_def applied_names_def)
  have 2: "start_step content exec ?s1 ?s2" by (rule missing) (simp_all add: two_instances_def applied_names_def advance_def)
  have 3: "start_step content exec ?s2 ?s3"
    by (rule committed [where sql = sql]) (simp_all add: assms(1) two_instances_def applied_names_def advance_def migrate_file_def assms(2))
  have 4: "start_step content exec ?s3 ?s4"
    by (rule failed) (simp_all add: advance_def assms(1) migrate_file_def applied_names_def split: option.split)
  have "start_run content exec ?s0 ?s4"
    using here [of content exec ?s0] 1 2 3 4 by (blast intro: next_step)
  moreover have "su_failed (st_instances ?s4 1)" "su_files (st_instances ?s4 0) = []" "st_db ?s4 = ?db"
    by (simp_all add: advance_def)
  ultimately show ?thesis by blast
qed

section \<open>Witnesses\<close>

definition two_files :: "string list" where
  "two_files = [''002_more.sql'', ''README.md'', ''001_init.sql'']"

definition append_text :: "string \<Rightarrow> string list \<Rightarrow> string list option" where
  "append_text sql d = (if sql = ''bad'' then None else Some (d @ [sql]))"

lemma runMigrations_correct_witness:
  "mg_data (snd (runMigrations two_files Some append_text \<lparr>mg_table = None, mg_data = []\<rparr>)) = [''001_init.sql'', ''002_more.sql'']"
proof -
  let ?db = "\<lparr>mg_table = None, mg_data = []\<rparr> :: string list schema_db"
  have dist: "distinct two_files" by (simp add: two_files_def)
  obtain r db' where run: "runMigrations two_files Some append_text ?db = (r, db')" by force
  obtain don rest where d: "filter (\<lambda>f. f \<notin> set (applied_names ?db)) (migration_files two_files) = don @ rest"
    "script_effect Some append_text don (mg_data ?db) = Some (mg_data db')"
    "case r of Inl f \<Rightarrow> \<exists>fs. rest = f # fs \<and> script_effect Some append_text [f] (mg_data db') = None
       | Inr _ \<Rightarrow> rest = [] \<and> runMigrations two_files Some append_text db' = (Inr (), db')"
    using runMigrations_correct [OF dist run] by blast
  have files: "migration_files two_files = [''001_init.sql'', ''002_more.sql'']" by code_simp
  have all: "don @ rest = [''001_init.sql'', ''002_more.sql'']" using d(1) by (simp add: applied_names_def files)
  have "rest = []"
  proof (cases r)
    case (Inl f)
    with d(3) obtain fs where "rest = f # fs" "f = ''bad''" by (auto simp: append_text_def split: if_splits)
    then have "''bad'' \<in> set (don @ rest)" by simp
    then show ?thesis unfolding all by simp
  qed (use d(3) in simp)
  with all d(2) run show ?thesis by (simp add: append_text_def)
qed

lemma migrations_once_witness:
  "\<exists>t :: string list starting. su_failed (st_instances t 1) \<and> applied_names (st_db t) = [''a.sql'']"
proof -
  obtain t where t: "start_run Some append_text (two_instances [''a.sql''] []) t" "su_failed (st_instances t 1)"
    "st_db t = \<lparr>mg_table = Some [''a.sql''], mg_data = [''a.sql'']\<rparr>"
    using concurrent_start_fails [of Some "''a.sql''" "''a.sql''" append_text "[]" "[''a.sql'']"] by (auto simp: append_text_def)
  from migrations_once [OF t(1)] have "distinct (applied_names (st_db t))" by (simp add: two_instances_def applied_names_def)
  with t(2,3) show ?thesis by (intro exI [of _ t]) (simp add: applied_names_def)
qed

lemma concurrent_start_fails_witness:
  "\<exists>t. start_run Some append_text (two_instances [''a.sql''] []) t \<and> su_failed (st_instances t 1)"
  using concurrent_start_fails [of Some "''a.sql''" "''a.sql''" append_text "[]" "[''a.sql'']"] by (auto simp: append_text_def)

end
