(* ===== verification/Adapters.thy ===== *)
theory Adapters
  imports RateLimitHook
begin

text \<open>
  The rate limiting middlewares of \<open>packages/adapters\<close>: \<open>express/src/index.ts\<close> and
  \<open>fastify/src/index.ts\<close> around a store of the core. A request is of any type; a store the application
  supplies is a parameter.
\<close>

section \<open>Options and store\<close>

text \<open>\<open>RateLimiterOptions\<close> but for the store; \<open>'q\<close> is the framework's request.\<close>

record 'q limiter_options =
  lo_limit :: number
  lo_windowSec :: number
  lo_burst :: "number option"
  lo_algorithm :: "algorithm_name option"
  lo_keyGenerator :: "('q \<Rightarrow> string) option"

definition limiter_policy :: "'q limiter_options \<Rightarrow> policy" where
  "limiter_policy o' = \<lparr>limit = lo_limit o', windowMs = js_mul (lo_windowSec o') 1000, burst = lo_burst o'\<rparr>"

text \<open>\<open>options.store ?? createMemoryStore(options.algorithm ?? 'tokenBucket')\<close>.\<close>

datatype 'm limiter_store = Created memory_store | Supplied 'm

definition limiter_store :: "'q limiter_options \<Rightarrow> 'm option \<Rightarrow> 'm limiter_store" where
  "limiter_store o' given =
     (case given of
        Some m \<Rightarrow> Supplied m
      | None \<Rightarrow> Created (createMemoryStore (case lo_algorithm o' of Some a \<Rightarrow> a | None \<Rightarrow> TokenBucket)))"

fun limiter_consume :: "'m consume \<Rightarrow> 'm limiter_store consume" where
  "limiter_consume con (Created ms) k p now cost = (let (ms', r) = ms_consume ms k p now cost in (Created ms', Inr r))"
| "limiter_consume con (Supplied m) k p now cost = (let (m', r) = con m k p now cost in (Supplied m', r))"

section \<open>The middlewares\<close>

definition limit_headers :: "rate_result \<Rightarrow> reply \<Rightarrow> reply" where
  "limit_headers r reply =
     set_header ''RateLimit-Reset'' (HNum (js_ceil (js_div (retryAfterMs r) 1000)))
       (set_header ''RateLimit-Remaining'' (HNum (remaining r))
         (set_header ''RateLimit-Limit'' (HNum (res_limit r)) reply))"

definition limit_answer :: "rate_result \<Rightarrow> reply \<Rightarrow> reply" where
  "limit_answer r reply =
     (let retryAfterSec = js_ceil (js_div (retryAfterMs r) 1000)
      in (set_header ''Retry-After'' (HNum retryAfterSec) reply)\<lparr>r_sent := Some \<lparr>status = 429,
           error_code = ''rate_limit_exceeded'', retryAfter = Some retryAfterSec\<rparr>\<rparr>)"

text \<open>\<open>next()\<close>, a reply, or \<open>next(err)\<close> when the store fails.\<close>

datatype passage = Continued | Answered | Failed

text \<open>Express: the key is the address, which may be missing.\<close>

definition rateLimiterMiddleware :: "'m consume \<Rightarrow> 'q limiter_options \<Rightarrow> ('q \<Rightarrow> string option) \<Rightarrow> number \<Rightarrow> 'm limiter_store
    \<Rightarrow> 'q \<Rightarrow> reply \<Rightarrow> 'm limiter_store \<times> reply \<times> passage" where
  "rateLimiterMiddleware con o' ip now st req reply =
     (let key = (case lo_keyGenerator o' of
            Some g \<Rightarrow> g req
          | None \<Rightarrow> (case ip req of Some a \<Rightarrow> a | None \<Rightarrow> ''unknown''));
          (st, outcome) = limiter_consume con st key (limiter_policy o') now 1
      in case outcome of
           Inl e \<Rightarrow> (st, reply, Failed)
         | Inr r \<Rightarrow>
             (let reply = limit_headers r reply
              in if \<not> allowed r then (st, limit_answer r reply, Answered) else (st, reply, Continued)))"

text \<open>Fastify: the \<open>onRequest\<close> hook, and \<open>onClose\<close>, which closes a store of its own.\<close>

definition onRequest :: "'m consume \<Rightarrow> 'q limiter_options \<Rightarrow> ('q \<Rightarrow> string) \<Rightarrow> number \<Rightarrow> 'm limiter_store
    \<Rightarrow> 'q \<Rightarrow> reply \<Rightarrow> 'm limiter_store \<times> reply \<times> passage" where
  "onRequest con o' ip now st req reply =
     (let key = (case lo_keyGenerator o' of Some g \<Rightarrow> g req | None \<Rightarrow> ip req);
          (st, outcome) = limiter_consume con st key (limiter_policy o') now 1
      in case outcome of
           Inl e \<Rightarrow> (st, reply, Failed)
         | Inr r \<Rightarrow>
             (let reply = limit_headers r reply
              in if \<not> allowed r then (st, limit_answer r reply, Answered) else (st, reply, Continued)))"

fun onClose :: "'m limiter_store \<Rightarrow> 'm limiter_store" where
  "onClose (Created ms) = Created (ms_close ms)"
| "onClose (Supplied m) = Supplied m"

section \<open>Runs\<close>

text \<open>The requests an application receives, with their times; each leaves its time, its key and how it went on.\<close>

definition express_key :: "'q limiter_options \<Rightarrow> ('q \<Rightarrow> string option) \<Rightarrow> 'q \<Rightarrow> string" where
  "express_key o' ip req = (case lo_keyGenerator o' of
     Some g \<Rightarrow> g req | None \<Rightarrow> (case ip req of Some a \<Rightarrow> a | None \<Rightarrow> ''unknown''))"

definition fastify_key :: "'q limiter_options \<Rightarrow> ('q \<Rightarrow> string) \<Rightarrow> 'q \<Rightarrow> string" where
  "fastify_key o' ip req = (case lo_keyGenerator o' of Some g \<Rightarrow> g req | None \<Rightarrow> ip req)"

fun app_run :: "(number \<Rightarrow> 's \<Rightarrow> 'q \<Rightarrow> reply \<Rightarrow> 's \<times> reply \<times> passage) \<Rightarrow> ('q \<Rightarrow> string) \<Rightarrow> 's \<Rightarrow> (number \<times> 'q) list
    \<Rightarrow> (number \<times> string \<times> passage) list" where
  "app_run mw key st [] = []"
| "app_run mw key st ((now, req) # reqs) =
     (let (st', reply, passage) = mw now st req \<lparr>r_headers = [], r_sent = None\<rparr>
      in (now, key req, passage) # app_run mw key st' reqs)"

text \<open>The requests of a key, at cost 1, and those of them that went on.\<close>

definition requests_with :: "('q \<Rightarrow> string) \<Rightarrow> string \<Rightarrow> (number \<times> 'q) list \<Rightarrow> (number \<times> number) list" where
  "requests_with key k reqs = map (\<lambda>(now, req). (now, 1)) (filter (\<lambda>(now, req). key req = k) reqs)"

definition continued :: "string \<Rightarrow> (number \<times> string \<times> passage) list \<Rightarrow> (number \<times> number) list" where
  "continued k out = map (\<lambda>(now, _). (now, 1)) (filter (\<lambda>(now, k', passage). k' = k \<and> passage = Continued) out)"

text \<open>What an algorithm by itself admits of the requests of one key.\<close>

fun admitted_by :: "algorithm_name \<Rightarrow> policy \<Rightarrow> (number \<times> number) list \<Rightarrow> (number \<times> number) list" where
  "admitted_by FixedWindow p rs = admitted fixedWindow p None rs"
| "admitted_by TokenBucket p rs = admitted tokenBucket p None rs"
| "admitted_by LeakyBucket p rs = admitted leakyBucket p None rs"
| "admitted_by SlidingWindowLog p rs = admitted slidingWindowLog p None rs"
| "admitted_by SlidingWindowCounter p rs = admitted slidingWindowCounter p None rs"

definition chosen_algorithm :: "'q limiter_options \<Rightarrow> algorithm_name" where
  "chosen_algorithm o' = (case lo_algorithm o' of Some a \<Rightarrow> a | None \<Rightarrow> TokenBucket)"

lemma store_run_wrapped:
  assumes "\<And>st k p now cost. con (W st) k p now cost = map_prod W id (from_consume alg st k p now cost)"
    and "\<And>st k. res (W st) k = W (from_reset st k)" "\<And>st. clo (W st) = W (from_close st)"
  shows "store_run con res clo (W st) cs = store_run (from_consume alg) from_reset from_close st cs"
proof (induction cs arbitrary: st)
  case (Cons c cs)
  then show ?case by (cases c) (simp_all add: assms case_prod_beta)
qed simp

lemma ms_run:
  "store_run ms_consume ms_reset ms_close (FwStore st1) cs = store_run (from_consume fixedWindow) from_reset from_close st1 cs"
  "store_run ms_consume ms_reset ms_close (TbStore st2) cs = store_run (from_consume tokenBucket) from_reset from_close st2 cs"
  "store_run ms_consume ms_reset ms_close (LbStore st3) cs = store_run (from_consume leakyBucket) from_reset from_close st3 cs"
  "store_run ms_consume ms_reset ms_close (SwlStore st4) cs = store_run (from_consume slidingWindowLog) from_reset from_close st4 cs"
  "store_run ms_consume ms_reset ms_close (SwcStore st5) cs = store_run (from_consume slidingWindowCounter) from_reset from_close st5 cs"
  by (rule store_run_wrapped; simp)+

lemma created_admits:
  "granted (store_run ms_consume ms_reset ms_close (createMemoryStore a) (map (\<lambda>(now, cost). Consume k p now cost) rs)) = admitted_by a p rs"
  by (cases a) (simp_all add: ms_run from_run_admitted)

lemma calls_with_key:
  "calls_for k (map (\<lambda>(now, req). Consume (key req) p now 1) reqs) = map (\<lambda>(now, cost). Consume k p now cost) (requests_with key k reqs)"
  by (induction reqs) (auto simp: requests_with_def)

text \<open>A middleware that charges every request to the store and decides by its verdict.\<close>

locale store_middleware =
  fixes p :: policy
    and mw :: "number \<Rightarrow> 'm limiter_store \<Rightarrow> 'q \<Rightarrow> reply \<Rightarrow> 'm limiter_store \<times> reply \<times> passage"
    and key :: "'q \<Rightarrow> string"
  assumes charges: "fst (mw now (Created ms) req reply) = Created (fst (ms_consume ms (key req) p now 1))"
    and decides: "snd (snd (mw now (Created ms) req reply)) = Continued \<longleftrightarrow> allowed (snd (ms_consume ms (key req) p now 1))"
begin

lemma lets_on_calls:
  "continued k (app_run mw key (Created ms) reqs)
    = granted (answers_for k (store_run ms_consume ms_reset ms_close ms (map (\<lambda>(now, req). Consume (key req) p now 1) reqs)))"
proof (induction reqs arbitrary: ms)
  case (Cons r reqs)
  then show ?case by (cases r) (auto simp: continued_def granted_def case_prod_beta charges decides)
qed (simp add: continued_def granted_def answers_for_def)

text \<open>So what it lets on of a key's requests is what the algorithm of its store admits of them.\<close>

lemma lets_on:
  "continued k (app_run mw key (Created (createMemoryStore a)) reqs) = admitted_by a p (requests_with key k reqs)"
  unfolding lets_on_calls ms.isolation [OF refl] calls_with_key by (rule created_admits)

end

interpretation express: store_middleware "limiter_policy o'" "rateLimiterMiddleware con o' ip" "express_key o' ip" for con o' ip
  by unfold_locales (auto simp: rateLimiterMiddleware_def express_key_def Let_def case_prod_beta)

interpretation fastify: store_middleware "limiter_policy o'" "onRequest con o' ip" "fastify_key o' ip" for con o' ip
  by unfold_locales (auto simp: onRequest_def fastify_key_def Let_def case_prod_beta)

section \<open>Properties\<close>

text \<open>
  C36: with a store of its own either middleware lets exactly those requests of a key on that the chosen
  algorithm (the token bucket if none is) admits of them, whatever requests of other keys come in between.
\<close>

theorem adapters_admit:
  "continued k (app_run (rateLimiterMiddleware con o' ip) (express_key o' ip) (limiter_store o' None) reqs)
     = admitted_by (chosen_algorithm o') (limiter_policy o') (requests_with (express_key o' ip) k reqs)
   \<and> continued k (app_run (onRequest con o' ip') (fastify_key o' ip') (limiter_store o' None) reqs)
     = admitted_by (chosen_algorithm o') (limiter_policy o') (requests_with (fastify_key o' ip') k reqs)"
  unfolding limiter_store_def option.case chosen_algorithm_def by (intro conjI express.lets_on fastify.lets_on)

text \<open>
  What a client is told: a request that goes on has had no reply sent, and its headers say that there
  is nothing to wait for; one that does not is answered with a 429 whose \<open>Retry-After\<close>, \<open>RateLimit-Reset\<close> and body
  agree on a delay of at least a second; and no reply claims more quota than the policy has.
\<close>

theorem adapter_answer:
  assumes "valid_policy (limiter_policy o')" "safe_int now" "ms_ok (limiter_policy o') (ms_view ms (express_key o' ip req))"
    and "rateLimiterMiddleware con o' ip now (Created ms) req \<lparr>r_headers = [], r_sent = None\<rparr> = (st', reply, passage)"
  shows "(\<exists>q. reply_header ''RateLimit-Remaining'' reply = Some (HNum q) \<and> 0 \<le> q
        \<and> q \<le> max (limit (limiter_policy o')) (capacity (limiter_policy o')))
    \<and> (case passage of
        Continued \<Rightarrow> r_sent reply = None \<and> reply_header ''RateLimit-Reset'' reply = Some (HNum 0)
      | Answered \<Rightarrow> (\<exists>s \<ge> 1. r_sent reply = Some \<lparr>status = 429, error_code = ''rate_limit_exceeded'', retryAfter = Some s\<rparr>
          \<and> reply_header ''Retry-After'' reply = Some (HNum s) \<and> reply_header ''RateLimit-Reset'' reply = Some (HNum s))
      | Failed \<Rightarrow> False)"
proof -
  let ?p = "limiter_policy o'" and ?k = "express_key o' ip req"
  obtain ms' r where c: "ms_consume ms ?k ?p now 1 = (ms', r)" by force
  have good: "good_result (ms_cap (ms_view ms ?k)) ?p r"
    using ms.consume_ok [OF assms(1,2) _ assms(3), of 1] c by simp
  have cap: "ms_cap v ?p \<le> max (limit ?p) (capacity ?p)" for v by (cases v) simp_all
  have "remaining r \<le> ms_cap (ms_view ms ?k) ?p" using good by (simp add: good_result_def)
  then have q: "remaining r \<le> max (limit ?p) (capacity ?p)" using cap order_trans by blast
  have delay: "1 \<le> js_ceil (js_div (retryAfterMs r) 1000)" if "\<not> allowed r"
  proof -
    have "1 \<le> retryAfterMs r" using good that by (simp add: good_result_def)
    then have "0 < js_div (retryAfterMs r) 1000" unfolding js_div_def by (intro js.rnd_pos) simp
    then show ?thesis by (rule js_ceil_pos)
  qed
  have none: "js_ceil (js_div 0 1000) = 0" by (simp add: js_div_def js_ceil_def)
  show ?thesis
    using assms(4) c good q delay none
    by (auto simp: rateLimiterMiddleware_def express_key_def [symmetric] Let_def limit_headers_def limit_answer_def good_result_def split: if_splits)
qed

text \<open>Fastify's hook is Express' middleware on an address that is never missing, so the same holds of it.\<close>

lemma fastify_as_express: "onRequest con o' ip = rateLimiterMiddleware con o' (\<lambda>req. Some (ip req))"
  by (intro ext) (simp add: onRequest_def rateLimiterMiddleware_def cong: option.case_cong)

section \<open>Witness\<close>

definition one_per_second :: "string limiter_options" where
  "one_per_second = \<lparr>lo_limit = 1, lo_windowSec = 1, lo_burst = None, lo_algorithm = None, lo_keyGenerator = None\<rparr>"

lemma adapter_answer_witness:
  "reply_header ''RateLimit-Reset'' (fst (snd (rateLimiterMiddleware (\<lambda>m k p now cost. (m, Inl ())) one_per_second Some 5
      (Created (createMemoryStore TokenBucket) :: unit limiter_store) ''1.1.1.1'' \<lparr>r_headers = [], r_sent = None\<rparr>))) = Some (HNum 0)"
proof -
  let ?mw = "rateLimiterMiddleware (\<lambda>m k p now cost. (m, Inl ())) one_per_second Some 5
      (Created (createMemoryStore TokenBucket) :: unit limiter_store) ''1.1.1.1'' \<lparr>r_headers = [], r_sent = None\<rparr>"
  obtain st' reply passage where e: "?mw = (st', reply, passage)" by (rule prod_cases3)
  have p: "limiter_policy one_per_second = \<lparr>limit = 1, windowMs = 1000, burst = None\<rparr>"
    by (simp add: limiter_policy_def one_per_second_def js_mul_def)
  have k: "lo_keyGenerator one_per_second = None" by (simp add: one_per_second_def)
  have "allowed (snd (tokenBucket None \<lparr>limit = 1, windowMs = 1000, burst = None\<rparr> 5 1))" by code_simp
  then have "passage = Continued"
    using e by (auto simp: rateLimiterMiddleware_def p k from_consume_def Let_def case_prod_beta split: if_splits)
  with adapter_answer [OF _ _ _ e] e show ?thesis
    by (simp add: p valid_policy_def capacity_def)
qed

end
