(* ===== verification/ClientIp.thy ===== *)
theory ClientIp
  imports Adapters
begin

text \<open>
  Whose request it is: \<open>trustProxy\<close> of \<open>gateway/src/server.ts\<close>, the address that follows from it, and what
  the limit per address makes of it. The library that walks the forwarded addresses is a parameter.
\<close>

section \<open>The address of a request\<close>

text \<open>\<open>trustProxyHops > 0 ? (_address, hop) => hop < trustProxyHops : false\<close>; \<open>None\<close> is \<open>false\<close>.\<close>

definition trustProxy :: "nat \<Rightarrow> (string \<Rightarrow> nat \<Rightarrow> bool) option" where
  "trustProxy hops = (if 0 < hops then Some (\<lambda>_ hop. hop < hops) else None)"

text \<open>
  The framework asks the function for the addresses from the socket outwards, the peer first and then
  those of \<open>X-Forwarded-For\<close> from its end, and takes the first that is not trusted, or the last. Without a
  function it takes the peer.
\<close>

definition walks :: "((string \<Rightarrow> nat \<Rightarrow> bool) \<Rightarrow> string list \<Rightarrow> string) \<Rightarrow> bool" where
  "walks resolve \<longleftrightarrow> (\<forall>trust near a far. (\<forall>i < length near. trust (near ! i) i) \<and> (far = [] \<or> \<not> trust a (length near))
     \<longrightarrow> resolve trust (near @ a # far) = a)"

definition request_ip :: "((string \<Rightarrow> nat \<Rightarrow> bool) \<Rightarrow> string list \<Rightarrow> string) \<Rightarrow> nat \<Rightarrow> string \<times> string list \<Rightarrow> string" where
  "request_ip resolve hops arrival =
     (case trustProxy hops of None \<Rightarrow> fst arrival | Some trust \<Rightarrow> resolve trust (fst arrival # rev (snd arrival)))"

text \<open>
  How a request arrives: each proxy on the way appends the address it has it from to \<open>X-Forwarded-For\<close>,
  which the client may have filled in itself.
\<close>

record client_request =
  cq_client :: string
  cq_proxies :: "string list"
  cq_claimed :: "string list"

fun through :: "string list \<Rightarrow> string \<times> string list \<Rightarrow> string \<times> string list" where
  "through [] arrival = arrival"
| "through (p # ps) arrival = through ps (p, snd arrival @ [fst arrival])"

definition arrival_of :: "client_request \<Rightarrow> string \<times> string list" where
  "arrival_of q = through (cq_proxies q) (cq_client q, cq_claimed q)"

lemma through_addresses:
  "fst (through ps arrival) # rev (snd (through ps arrival)) = rev ps @ fst arrival # rev (snd arrival)"
  by (induction ps arbitrary: arrival) auto

lemma through_peer: "fst (through ps arrival) = hd (rev ps @ [fst arrival])"
  using arg_cong [OF through_addresses [of ps arrival], of hd] by (cases "rev ps") simp_all

lemma resolved:
  assumes "walks resolve" "\<forall>i < length near. trust (near ! i) i" "far = [] \<or> \<not> trust a (length near)"
  shows "resolve trust (near @ a # far) = a"
  using assms unfolding walks_def by blast

text \<open>With exactly the configured number of proxies the address is the client's, whatever it claims.\<close>

lemma request_ip_client:
  assumes "walks resolve" "length (cq_proxies q) = hops"
  shows "request_ip resolve hops (arrival_of q) = cq_client q"
proof (cases "0 < hops")
  case True
  then show ?thesis
    using resolved [OF assms(1), of "rev (cq_proxies q)" "\<lambda>_ hop. hop < hops" "rev (cq_claimed q)" "cq_client q"] assms(2)
    by (simp add: request_ip_def trustProxy_def arrival_of_def through_addresses)
next
  case False
  with assms(2) show ?thesis by (simp add: request_ip_def trustProxy_def arrival_of_def)
qed

text \<open>With more it is the address of one of them; with fewer the client can be anybody.\<close>

lemma request_ip_proxy:
  assumes "walks resolve" "hops < length (cq_proxies q)"
  shows "request_ip resolve hops (arrival_of q) = rev (cq_proxies q) ! hops"
proof (cases "0 < hops")
  case True
  let ?ps = "rev (cq_proxies q)"
  have split: "?ps = take hops ?ps @ ?ps ! hops # drop (Suc hops) ?ps" using assms(2) by (simp add: id_take_nth_drop)
  have "resolve (\<lambda>_ hop. hop < hops) (take hops ?ps @ ?ps ! hops # (drop (Suc hops) ?ps @ cq_client q # rev (cq_claimed q))) = ?ps ! hops"
    by (rule resolved [OF assms(1)]) (use assms(2) in simp_all)
  then have "resolve (\<lambda>_ hop. hop < hops) (?ps @ cq_client q # rev (cq_claimed q)) = ?ps ! hops"
    using split by (metis append_Cons append_assoc)
  with True show ?thesis by (simp add: request_ip_def trustProxy_def arrival_of_def through_addresses)
next
  case False
  with assms(2) show ?thesis
    by (simp add: request_ip_def trustProxy_def arrival_of_def through_peer hd_append hd_conv_nth)
qed

lemma request_ip_claimed:
  assumes "walks resolve" "length (cq_proxies q) < hops" "cq_claimed q = [a]"
  shows "request_ip resolve hops (arrival_of q) = a"
proof -
  let ?near = "rev (cq_proxies q) @ [cq_client q]"
  have "resolve (\<lambda>_ hop. hop < hops) (?near @ a # []) = a"
    by (rule resolved [OF assms(1)]) (use assms(2) in simp_all)
  with assms(2,3) show ?thesis by (simp add: request_ip_def trustProxy_def arrival_of_def through_addresses)
qed

section \<open>The limit per address\<close>

text \<open>\<open>enforceRateLimit\<close> on a request that arrives, as the middleware of a run.\<close>

definition gate :: "'m consume \<Rightarrow> (client_request \<Rightarrow> string) \<Rightarrow> route_config \<Rightarrow> rate_context \<Rightarrow> bool
    \<Rightarrow> number \<Rightarrow> 'm limiter_store \<Rightarrow> client_request \<Rightarrow> reply \<Rightarrow> 'm limiter_store \<times> reply \<times> passage" where
  "gate con ip route ctx fail_open now st q reply =
     (let (st, reply, verdict) = enforceRateLimit (limiter_consume con) now st route (ip q) ctx fail_open reply
      in (st, reply, case verdict of Some True \<Rightarrow> Continued | Some False \<Rightarrow> Answered | None \<Rightarrow> Failed))"

lemma gate_middleware:
  assumes "rateLimit route = Some c" "rl_keyBy c = [KeyIp]"
  shows "store_middleware (routePolicy c) (gate con ip route ctx fail_open) (\<lambda>q. rate_key (route_id route) (ip q) ctx KeyIp)"
  by unfold_locales (auto simp: gate_def enforceRateLimit_def assms Let_def case_prod_beta)

lemma requests_of_client:
  "\<forall>(now, q) \<in> set reqs. ip q = cq_client q \<Longrightarrow>
    requests_with (\<lambda>q. rate_key rid (ip q) ctx KeyIp) (rate_key rid a ctx KeyIp) reqs
      = map (\<lambda>(now, q). (now, 1)) (filter (\<lambda>(now, q). cq_client q = a) reqs)"
  unfolding requests_with_def rate_key_inj by (auto intro!: arg_cong [of _ _ "map _"] filter_cong)

text \<open>
  C32: a route limited per address lets exactly those requests of a client on that its algorithm admits of
  the client's own requests, whatever \<open>X-Forwarded-For\<close> any client claims and whoever else sends requests in
  between, if \<open>trustProxyHops\<close> is the number of proxies in front of the gateway.
\<close>

theorem ip_limit_per_client:
  assumes "walks resolve" "\<forall>(now, q) \<in> set reqs. length (cq_proxies q) = hops"
    and "rateLimit route = Some c" "rl_keyBy c = [KeyIp]"
  shows "continued (rate_key (route_id route) client ctx KeyIp)
      (app_run (gate con (\<lambda>q. request_ip resolve hops (arrival_of q)) route ctx fail_open)
        (\<lambda>q. rate_key (route_id route) (request_ip resolve hops (arrival_of q)) ctx KeyIp)
        (Created (createMemoryStore (rl_algorithm c))) reqs)
    = admitted_by (rl_algorithm c) (routePolicy c)
        (map (\<lambda>(now, q). (now, 1)) (filter (\<lambda>(now, q). cq_client q = client) reqs))"
proof -
  have ip: "\<forall>(now, q) \<in> set reqs. request_ip resolve hops (arrival_of q) = cq_client q"
    using request_ip_client [OF assms(1)] assms(2) by auto
  show ?thesis
    unfolding store_middleware.lets_on [OF gate_middleware [OF assms(3,4)]] requests_of_client [OF ip] ..
qed

text \<open>
  With a proxy less than configured the limit does not bind: a client that claims a new address with every
  request gets a new key each time.
\<close>

lemma claimed_keys_differ:
  assumes "walks resolve" "length (cq_proxies q) < hops" "length (cq_proxies q') < hops"
    and "cq_claimed q = [a]" "cq_claimed q' = [b]" "a \<noteq> b"
  shows "rate_key rid (request_ip resolve hops (arrival_of q)) ctx KeyIp \<noteq> rate_key rid (request_ip resolve hops (arrival_of q')) ctx KeyIp"
  using request_ip_claimed [OF assms(1)] assms(2-6) by (simp add: rate_key_inj del: rate_key.simps)

section \<open>Witness\<close>

fun walk :: "nat \<Rightarrow> (string \<Rightarrow> nat \<Rightarrow> bool) \<Rightarrow> string list \<Rightarrow> string" where
  "walk i trust [] = []"
| "walk i trust [a] = a"
| "walk i trust (a # b # as) = (if trust a i then walk (Suc i) trust (b # as) else a)"

lemma walk_walks: "walks (walk 0)"
proof -
  have "walk i trust (near @ a # far) = a"
    if "\<forall>j < length near. trust (near ! j) (i + j)" "far = [] \<or> \<not> trust a (i + length near)" for i trust near a far
    using that
  proof (induction near arbitrary: i)
    case Nil
    then show ?case by (cases far) auto
  next
    case (Cons n near)
    have "trust n i" using Cons.prems(1) by force
    moreover have "walk (Suc i) trust (near @ a # far) = a"
      using Cons.prems by (intro Cons.IH) fastforce+
    ultimately show ?case by (cases "near @ a # far") auto
  qed
  from this [where i = 0] show ?thesis by (simp add: walks_def)
qed

definition one_per_minute :: rate_limit_config where
  "one_per_minute = \<lparr>rl_algorithm = FixedWindow, rl_keyBy = [KeyIp], rl_limit = 1, rl_windowSec = 60, rl_burst = None, rl_global = None\<rparr>"

definition via_proxy :: "string \<Rightarrow> string list \<Rightarrow> client_request" where
  "via_proxy client claimed = \<lparr>cq_client = client, cq_proxies = [''10.0.0.1''], cq_claimed = claimed\<rparr>"

definition minute_route :: route_config where
  "minute_route = (bare_route ''r'')\<lparr>rateLimit := Some one_per_minute\<rparr>"

definition claims :: "(number \<times> client_request) list" where
  "claims = [(0, via_proxy ''8.8.8.8'' [''1.1.1.1'']), (5, via_proxy ''8.8.8.8'' [''2.2.2.2'']), (6, via_proxy ''9.9.9.9'' [])]"

text \<open>Two requests of one client within a minute, each with another claim: one goes on.\<close>

lemma ip_limit_per_client_witness:
  "continued (rate_key ''r'' ''8.8.8.8'' anonymous KeyIp)
      (app_run (gate (\<lambda>m k p now cost. (m, Inl ())) (\<lambda>q. request_ip (walk 0) 1 (arrival_of q)) minute_route anonymous True)
        (\<lambda>q. rate_key ''r'' (request_ip (walk 0) 1 (arrival_of q)) anonymous KeyIp)
        (Created (createMemoryStore FixedWindow) :: unit limiter_store) claims) = [(0, 1)]"
proof -
  have route: "route_id minute_route = ''r''" "rateLimit minute_route = Some one_per_minute"
    "rl_keyBy one_per_minute = [KeyIp]" "rl_algorithm one_per_minute = FixedWindow"
    by (simp_all add: minute_route_def bare_route_def one_per_minute_def)
  have via: "\<forall>(now, q) \<in> set claims. length (cq_proxies q) = 1" by (simp add: claims_def via_proxy_def)
  have mine: "map (\<lambda>(now, q). (now, 1)) (filter (\<lambda>(now, q). cq_client q = ''8.8.8.8'') claims) = [(0, 1), (5, 1)]"
    by (simp add: claims_def via_proxy_def)
  have "admitted fixedWindow (routePolicy one_per_minute) None [(0, 1), (5, 1)] = [(0, 1)]" by code_simp
  then show ?thesis
    using ip_limit_per_client [OF walk_walks via route(2,3), of "''8.8.8.8''" anonymous "\<lambda>(m :: unit) k p now cost. (m, Inl ())" True]
    unfolding route admitted_by.simps mine by simp
qed

end
