(* ===== verification/Lifecycle.thy ===== *)
theory Lifecycle
  imports Reload
begin

text \<open>
  What a running gateway holds besides its state, and how it lets go of it: the intervals of the health
  checks (\<open>createBalancer\<close> and \<open>close\<close> of \<open>proxy/balancer.ts\<close>), the flush interval of the usage buffer, the
  config watcher, the database pool and the Redis client; opened by \<open>buildServer\<close>, exchanged by \<open>reload\<close>
  and released by the \<open>onClose\<close> hook (\<open>gateway/src/server.ts\<close>).
\<close>

section \<open>Health check intervals\<close>

text \<open>
  \<open>createBalancer\<close> starts one interval per route with a health check: it is named by the reload that built
  the balancer and the position of the route. The \<open>Map\<close> of a runtime state keeps, of the routes with one
  id, the last, so those are the intervals that \<open>close\<close> can reach.
\<close>

type_synonym interval = "nat \<times> nat"

definition started_intervals :: "nat \<Rightarrow> gateway_config \<Rightarrow> interval list" where
  "started_intervals g config =
     map (Pair g) (filter (\<lambda>i. healthCheck (upstream (routes config ! i)) \<noteq> None) [0..<length (routes config)])"

definition kept_by_map :: "gateway_config \<Rightarrow> nat \<Rightarrow> bool" where
  "kept_by_map config i \<longleftrightarrow>
     i < length (routes config) \<and> list_all (\<lambda>r. route_id r \<noteq> route_id (routes config ! i)) (drop (i + 1) (routes config))"

definition close_balancers :: "nat \<Rightarrow> gateway_config \<Rightarrow> interval list \<Rightarrow> interval list" where
  "close_balancers g config ts = filter (\<lambda>(g', i). \<not> (g' = g \<and> kept_by_map config i)) ts"

section \<open>The process\<close>

record 'r lifecycle =
  lc_server :: "'r server"
  lc_intervals :: "interval list"
  lc_usageTimer :: bool
  lc_sighup :: bool
  lc_fileWatcher :: bool
  lc_pool :: bool
  lc_client :: bool

text \<open>\<open>buildServer\<close>; \<open>migrated\<close> is whether the migrations succeed. Without the pool there are none.\<close>

definition boot :: "database \<Rightarrow> key_cache \<Rightarrow> 'r \<Rightarrow> bool \<Rightarrow> gateway_config \<Rightarrow> 'r lifecycle option" where
  "boot tables keys r migrated config =
     (case buildServer tables keys r config of
        Inl e \<Rightarrow> None
      | Inr s \<Rightarrow>
          if opensDbPool config \<and> \<not> migrated then None
          else Some \<lparr>lc_server = s, lc_intervals = started_intervals 0 config, lc_usageTimer = opensDbPool config,
            lc_sighup = True, lc_fileWatcher = watch (server config), lc_pool = opensDbPool config, lc_client = needsRedis config\<rparr>)"

text \<open>A reload starts the new intervals, then stops those of the old balancers.\<close>

definition lc_reload :: "gateway_config \<Rightarrow> 'r lifecycle \<Rightarrow> 'r lifecycle" where
  "lc_reload new l =
     (let s = lc_server l in
      case reload new s of
        Inl e \<Rightarrow> l
      | Inr (s', old) \<Rightarrow>
          l\<lparr>lc_server := s', lc_intervals :=
            close_balancers (sv_generation s) (rt_config (sv_runtime s)) (lc_intervals l @ started_intervals (sv_generation s') new)\<rparr>)"

text \<open>
  \<open>onClose\<close>, after the connections are closed: the watcher, the balancers, the usage buffer, whose last
  batch is awaited (\<open>up\<close>: the insert succeeds), the pool, and the Redis client (by \<open>quit\<close>, or
  \<open>disconnect\<close> when that fails).
\<close>

definition close_usage :: "string list \<Rightarrow> bool \<Rightarrow> usage_buffer \<Rightarrow> usage_buffer" where
  "close_usage tenant_ids up u =
     (let u' = ub_close u
      in if ub_buffer u = [] then u' else ub_insert_ends tenant_ids (length (ub_flights u)) up u')"

definition lc_close :: "string list \<Rightarrow> bool \<Rightarrow> 'r lifecycle \<Rightarrow> 'r lifecycle" where
  "lc_close tenant_ids up l =
     (let l = l\<lparr>lc_sighup := False, lc_fileWatcher := False\<rparr>;
          s = lc_server l;
          l = l\<lparr>lc_intervals := close_balancers (sv_generation s) (rt_config (sv_runtime s)) (lc_intervals l)\<rparr>;
          l = l\<lparr>lc_usageTimer := False, lc_server := s\<lparr>sv_usage := map_option (close_usage tenant_ids up) (sv_usage s)\<rparr>\<rparr>;
          l = l\<lparr>lc_pool := False\<rparr>
      in l\<lparr>lc_client := False\<rparr>)"

text \<open>
  A life: reloads with any configurations, between them whatever the server does that leaves its
  configuration in force.
\<close>

inductive lives :: "'r lifecycle \<Rightarrow> gateway_config list \<Rightarrow> 'r lifecycle \<Rightarrow> bool" for l0 :: "'r lifecycle" where
  booted: "lives l0 [] l0"
| served: "lives l0 cs l \<Longrightarrow> sv_generation s = sv_generation (lc_server l)
    \<Longrightarrow> rt_config (sv_runtime s) = rt_config (sv_runtime (lc_server l)) \<Longrightarrow> lives l0 cs (l\<lparr>lc_server := s\<rparr>)"
| reloaded: "lives l0 cs l \<Longrightarrow> lives l0 (c # cs) (lc_reload c l)"

section \<open>Nothing leaks\<close>

lemma kept_distinct:
  assumes "distinct (map route_id (routes config))" "i < length (routes config)"
  shows "kept_by_map config i"
proof -
  have "map route_id (routes config) = map route_id (take (i + 1) (routes config)) @ map route_id (drop (i + 1) (routes config))"
    by (metis append_take_drop_id map_append)
  then have "set (map route_id (take (i + 1) (routes config))) \<inter> set (map route_id (drop (i + 1) (routes config))) = {}"
    using assms(1) by (metis distinct_append)
  moreover have "routes config ! i \<in> set (take (i + 1) (routes config))"
    using assms(2) by (auto simp: take_Suc_conv_app_nth)
  ultimately have "\<forall>r \<in> set (drop (i + 1) (routes config)). route_id r \<noteq> route_id (routes config ! i)" by fastforce
  then show ?thesis using assms(2) by (simp add: kept_by_map_def list_all_iff)
qed

lemma close_started:
  assumes "distinct (map route_id (routes config))"
  shows "close_balancers g config (started_intervals g config) = []"
  using kept_distinct [OF assms] by (auto simp: close_balancers_def started_intervals_def filter_empty_conv)

lemma close_other: "g' \<noteq> g \<Longrightarrow> close_balancers g config (started_intervals g' new) = started_intervals g' new"
  by (auto simp: close_balancers_def started_intervals_def filter_id_conv)

lemma close_append: "close_balancers g config (ts @ us) = close_balancers g config ts @ close_balancers g config us"
  by (simp add: close_balancers_def)

definition tidy :: "'r lifecycle \<Rightarrow> bool" where
  "tidy l \<longleftrightarrow> lc_intervals l = started_intervals (sv_generation (lc_server l)) (rt_config (sv_runtime (lc_server l)))
     \<and> distinct (map route_id (routes (rt_config (sv_runtime (lc_server l)))))"

lemma tidy_reload:
  assumes "tidy l" "distinct (map route_id (routes c))"
  shows "tidy (lc_reload c l)"
proof (cases "reload c (lc_server l)")
  case (Inr x)
  then have x: "x = (lc_server l\<lparr>sv_runtime := buildRuntimeState c (sv_keys (lc_server l) \<noteq> None), sv_generation := sv_generation (lc_server l) + 1\<rparr>,
      map snd (rt_balancers (sv_runtime (lc_server l))))"
    by (auto simp: reload_def split: option.splits)
  show ?thesis
    using assms by (simp add: lc_reload_def Let_def Inr x tidy_def buildRuntimeState_def close_append close_started close_other)
qed (simp add: lc_reload_def Let_def assms(1))

lemma tidy_life:
  assumes "boot tables keys r migrated config = Some l0" "lives l0 cs l"
    and "distinct (map route_id (routes config))" "\<forall>c \<in> set cs. distinct (map route_id (routes c))"
  shows "tidy l"
  using assms(2,4)
proof (induction rule: lives.induct)
  case booted
  then show ?case using assms(1,3)
    by (auto simp: boot_def buildServer_def tidy_def buildRuntimeState_def split: sum.splits if_splits)
next
  case (served cs l s)
  then show ?case by (simp add: tidy_def)
next
  case (reloaded cs l c)
  then show ?case by (simp add: tidy_reload)
qed

lemma close_usage_empty: "ub_buffer (close_usage tenant_ids up u) = []"
  by (auto simp: close_usage_def Let_def ub_close_def ub_flush_def ub_insert_ends_def split: option.splits)

text \<open>
  Nothing leaks. Through any reloads, the health checks that run are exactly those of the
  configuration in force, provided route ids are distinct; and after the close no interval, watcher or client is
  left, and no usage record is left in the buffer.
\<close>

theorem lifecycle_clean:
  assumes "boot tables keys r migrated config = Some l0" "lives l0 cs l"
    and "distinct (map route_id (routes config))" "\<forall>c \<in> set cs. distinct (map route_id (routes c))"
  shows "lc_intervals l = started_intervals (sv_generation (lc_server l)) (rt_config (sv_runtime (lc_server l)))
    \<and> (let l' = lc_close tenant_ids up l in
        lc_intervals l' = [] \<and> \<not> lc_usageTimer l' \<and> \<not> lc_sighup l' \<and> \<not> lc_fileWatcher l' \<and> \<not> lc_pool l' \<and> \<not> lc_client l'
        \<and> pred_option (\<lambda>u. ub_buffer u = []) (sv_usage (lc_server l')))"
proof -
  have t: "tidy l" using tidy_life [OF assms] .
  then have "close_balancers (sv_generation (lc_server l)) (rt_config (sv_runtime (lc_server l))) (lc_intervals l) = []"
    by (simp add: tidy_def close_started)
  then show ?thesis
    using t by (cases "sv_usage (lc_server l)") (simp_all add: tidy_def lc_close_def Let_def close_usage_empty)
qed

text \<open>
  With two routes of one id the first balancer is not in the \<open>Map\<close>, and nothing ever stops its interval.
\<close>

lemma duplicate_id_leaks:
  assumes "routes config = [a, b]" "route_id a = route_id b" "healthCheck (upstream a) \<noteq> None"
  shows "(g, 0) \<in> set (close_balancers g config (started_intervals g config))"
  using assms by (simp add: close_balancers_def started_intervals_def kept_by_map_def upt_conv_Cons)

section \<open>Witness\<close>

definition checked_route :: "string \<Rightarrow> route_config" where
  "checked_route rid = (bare_route rid)\<lparr>upstream := \<lparr>targets = [''http://u''],
     healthCheck = Some \<lparr>hc_path = ''/health'', hc_intervalMs = 10000\<rparr>, timeoutMs = 5000, bodyTimeoutMs = None\<rparr>\<rparr>"

lemma lifecycle_clean_witness:
  "\<exists>l0 :: unit lifecycle. boot small_db Map.empty () True (small_config [checked_route ''a'']) = Some l0
    \<and> lc_intervals (lc_reload (small_config [bare_route ''b'', checked_route ''c'']) l0) = [(1, 1)]"
proof -
  let ?c = "small_config [checked_route ''a'']" and ?d = "small_config [bare_route ''b'', checked_route ''c'']"
  have ids: "route_id (checked_route rid) = rid" "auth (checked_route rid) = AuthNone" for rid by (simp_all add: checked_route_def)
  obtain l0 :: "unit lifecycle" where b: "boot small_db Map.empty () True ?c = Some l0"
    by (simp add: boot_def buildServer_def small_config_def apiKeyRoutesNeedingDb_def opensDbPool_def ids)
  then have s: "rt_config (sv_runtime (lc_server l0)) = ?c"
    by (auto simp: boot_def buildServer_def buildRuntimeState_def split: sum.splits if_splits)
  have "assertHotReloadable ?c ?d = None"
    by (simp add: assertHotReloadable_def small_config_def apiKeyRoutesNeedingDb_def ids)
  then have r: "rt_config (sv_runtime (lc_server (lc_reload ?d l0))) = ?d" "sv_generation (lc_server (lc_reload ?d l0)) = sv_generation (lc_server l0) + 1"
    by (simp_all add: lc_reload_def reload_def s Let_def buildRuntimeState_def)
  have g: "sv_generation (lc_server l0) = 0" using b by (auto simp: boot_def buildServer_def split: sum.splits if_splits)
  have "distinct (map route_id (routes ?c))" "\<forall>c \<in> set [?d]. distinct (map route_id (routes c))"
    by (simp_all add: small_config_def ids)
  from lifecycle_clean [OF b reloaded [OF booted] this] have "lc_intervals (lc_reload ?d l0) = started_intervals 1 ?d"
    by (simp add: r g)
  also have "started_intervals 1 ?d = [(1, 1)]"
    by (simp add: started_intervals_def small_config_def checked_route_def bare_route_def upt_conv_Cons)
  finally show ?thesis using b by blast
qed

end
