(* ===== verification/Logging.thy ===== *)
theory Logging
  imports Http UrlToken
begin

text \<open>
  What a request leaves in the log: \<open>serializeRequest\<close> of \<open>gateway/src/observability/logger.ts\<close>.
\<close>

record log_record =
  log_method :: string
  log_url :: string
  log_host :: string
  log_remoteAddress :: string
  log_remotePort :: "nat option"

text \<open>The host as the framework reads it and the port of the socket are parameters.\<close>

definition serializeRequest :: "string \<Rightarrow> nat option \<Rightarrow> 'a request_scheme \<Rightarrow> log_record" where
  "serializeRequest host remotePort req =
     \<lparr>log_method = req_method req, log_url = redactUrl (req_url req) ACCESS_TOKEN_PARAM, log_host = host,
      log_remoteAddress = req_ip req, log_remotePort = remotePort\<rparr>"

text \<open>
  The log holds no token that the handshake would accept, and of every other parameter what the client sent.
\<close>

theorem log_hides_token:
  "(\<forall>t. extractQueryToken (log_url (serializeRequest host p req)) ACCESS_TOKEN_PARAM = Some t \<longrightarrow> t = units_of ''[redacted]'')
   \<and> filter (\<lambda>q. keyOf q \<noteq> units_of ACCESS_TOKEN_PARAM) (query_pairs (log_url (serializeRequest host p req)))
       = filter (\<lambda>q. keyOf q \<noteq> units_of ACCESS_TOKEN_PARAM) (query_pairs (req_url req))"
  unfolding serializeRequest_def log_record.simps using redactUrl_correct [of "req_url req" ACCESS_TOKEN_PARAM] by blast

end
