(* ===== verification/Limited.thy ===== *)
theory Limited
  imports Runtime
begin

text \<open>
  The limit of a route over many requests: every request that the gateway serves, on any route, through all
  of its hooks and stages, and what they add up to. The rate limit stores are those of the process
  (\<open>createMemoryStore\<close>).
\<close>

section \<open>Requests in series\<close>

text \<open>
  A turn: something else that the process does, and then a request. What happens during the waits of the
  request is in its environment.
\<close>

record 'r turn =
  tu_before :: "'r server \<Rightarrow> 'r server"
  tu_env :: "'r server_env"
  tu_request :: http_request

fun gateway_run :: "(metrics \<Rightarrow> string \<times> string) \<Rightarrow> number \<Rightarrow> 'r turn list \<Rightarrow> 'r server
    \<Rightarrow> (number \<times> http_request \<times> action list) list" where
  "gateway_run ex el [] s = []"
| "gateway_run ex el (tu # turns) s =
     (let (h, acts, s') = respond (tu_env tu) ex el (tu_request tu) (tu_before tu s)
      in (se_now (tu_env tu), tu_request tu, acts) # gateway_run ex el turns s')"

text \<open>The route a request goes to under a configuration.\<close>

definition route_of :: "gateway_config \<Rightarrow> http_request \<Rightarrow> route_config option" where
  "route_of config req = matchRoute (routes config)
     \<lparr>in_method = req_method req, in_path = request_path req, in_host = normalizeHost (Some (req_hostname req))\<rparr>"

lemma matched_route_of: "matched req s = route_of (rt_config (sv_runtime s)) req"
  by (simp add: matched_def route_of_def)

text \<open>The times of the requests of a kind that a route has passed on to its upstream.\<close>

definition passed_on :: "gateway_config \<Rightarrow> route_config \<Rightarrow> (http_request \<Rightarrow> bool)
    \<Rightarrow> (number \<times> http_request \<times> action list) list \<Rightarrow> number list" where
  "passed_on config route P out =
     map fst (filter (\<lambda>(now, req, acts). acts \<noteq> [] \<and> route_of config req = Some route \<and> P req) out)"

section \<open>What a request does to a limit\<close>

text \<open>What the limit of a route rests on: its store, and that no reload exchanges it.\<close>

definition limits :: "string \<Rightarrow> 'r server \<Rightarrow> rate_backend option \<times> nat \<times> gateway_config" where
  "limits rid s = (map_of (rt_rateLimitStores (sv_runtime s)) rid, sv_generation s, rt_config (sv_runtime s))"

lemma limits_simps [simp]:
  "limits rid (s\<lparr>sv_metrics := m\<rparr>) = limits rid s" "limits rid (s\<lparr>sv_db := d\<rparr>) = limits rid s"
  "limits rid (s\<lparr>sv_keys := ks\<rparr>) = limits rid s" "limits rid (s\<lparr>sv_redis := r\<rparr>) = limits rid s"
  "limits rid (s\<lparr>sv_usage := u\<rparr>) = limits rid s"
  "limits rid (on_runtime g (put_cache x b) s) = limits rid s"
  "limits rid (on_runtime g (put_balancer x b') s) = limits rid s"
  by (simp_all add: limits_def on_runtime_def put_cache_def put_balancer_def)

lemma limits_put_rate:
  "sv_generation s = g \<Longrightarrow> limits rid (on_runtime g (put_rate x b) s) = (if x = rid then Some b else fst (limits rid s), snd (limits rid s))"
  by (simp add: limits_def on_runtime_def put_rate_def update_conv')

definition spares_limit :: "string \<Rightarrow> ('r server \<Rightarrow> 'r server) \<Rightarrow> bool" where
  "spares_limit rid f \<longleftrightarrow> (\<forall>s. limits rid (f s) = limits rid s)"

definition quiet_turn :: "string \<Rightarrow> 'r turn \<Rightarrow> bool" where
  "quiet_turn rid tu \<longleftrightarrow> spares_limit rid (tu_before tu) \<and> (\<forall>n. spares_limit rid (se_meanwhile (tu_env tu) n))"

abbreviation waits_spare :: "string \<Rightarrow> 'r server_env \<Rightarrow> bool" where
  "waits_spare rid env \<equiv> \<forall>n. spares_limit rid (se_meanwhile env n)"

lemma limits_meanwhile [simp]: "waits_spare rid env \<Longrightarrow> limits rid (se_meanwhile env n s) = limits rid s"
  by (simp add: spares_limit_def)

subsection \<open>The stages that do not touch it\<close>

lemma limits_ws_stage: "waits_spare rid env \<Longrightarrow> limits rid (snd (snd (ws_stage env route cfg req hs url reply s))) = limits rid s"
  by (auto simp: ws_stage_def Let_def case_prod_beta split: ws_answer.splits)

lemma limits_store_response [simp]: "limits rid (snd (store_response env route slot backend up body s)) = limits rid s"
  by (auto simp: store_response_def Let_def case_prod_beta split: sum.splits)

lemma limits_fetch_stage: "waits_spare rid env \<Longrightarrow> limits rid (snd (snd (fetch_stage env route req slot reply s))) = limits rid s"
  by (auto simp: fetch_stage_def Let_def case_prod_beta split: sum.splits option.splits)

lemma limits_cache_stage: "waits_spare rid env \<Longrightarrow> limits rid (snd (snd (cache_stage env route req tenant host reply s))) = limits rid s"
  by (auto simp: cache_stage_def Let_def case_prod_beta limits_fetch_stage split: sum.splits option.splits)

lemma limits_onResponse [simp]: "limits rid (onResponse l st el s) = limits rid s"
  by (auto simp: onResponse_def Let_def split: option.splits)

subsection \<open>The stage that does\<close>

text \<open>The store after a series of calls.\<close>

fun after_calls :: "memory_store \<Rightarrow> store_call list \<Rightarrow> memory_store" where
  "after_calls ms [] = ms"
| "after_calls ms (Consume k p now cost # cs) = after_calls (fst (ms_consume ms k p now cost)) cs"
| "after_calls ms (Reset k # cs) = after_calls (ms_reset ms k) cs"
| "after_calls ms (Close # cs) = after_calls (ms_close ms) cs"

abbreviation answers_of :: "memory_store \<Rightarrow> store_call list \<Rightarrow> answer list" where
  "answers_of \<equiv> store_run ms_consume ms_reset ms_close"

lemma after_calls_append: "after_calls ms (cs @ ds) = after_calls (after_calls ms cs) ds"
  by (induction ms cs rule: after_calls.induct) auto

lemma answers_of_append: "answers_of ms (cs @ ds) = answers_of ms cs @ answers_of (after_calls ms cs) ds"
  by (induction ms cs rule: after_calls.induct) (auto simp: case_prod_beta)

text \<open>The calls of one request.\<close>

definition charges_of :: "number \<Rightarrow> (string \<times> policy) list \<Rightarrow> store_call list" where
  "charges_of now checks = map (\<lambda>(k, p). Consume k p now 1) checks"

lemma consume_all_local:
  "consume_all (backend_consume ops) now (LocalStore ms, r) checks
    = ((LocalStore (after_calls ms (charges_of now checks)), r),
       map (\<lambda>(k, t, c, res). Inr res) (answers_of ms (charges_of now checks)))"
  by (induction checks arbitrary: ms) (auto simp: charges_of_def backend_consume_def case_prod_beta)

text \<open>\<open>k\<close> is let through by every answer that concerns it.\<close>

definition lets_through :: "answer list \<Rightarrow> bool" where
  "lets_through as \<longleftrightarrow> (\<forall>(k, t, c, res) \<in> set as. allowed res)"

lemma enforceRateLimit_local:
  assumes "rateLimit route = Some c"
    and "enforceRateLimit (backend_consume ops) now (LocalStore ms, r) route ip ctx fo reply = (st', reply', v)"
  shows "\<exists>checks. (v = Some True \<longrightarrow> rate_checks (route_id route) c ip ctx (rl_keyBy c) = Some checks)
    \<and> (checks = [] \<or> rate_checks (route_id route) c ip ctx (rl_keyBy c) = Some checks)
    \<and> st' = (LocalStore (after_calls ms (charges_of now checks)), r)
    \<and> (v = Some True \<longrightarrow> lets_through (answers_of ms (charges_of now checks)))"
proof (cases "rate_checks (route_id route) c ip ctx (rl_keyBy c)")
  case None
  with assms show ?thesis by (intro exI [of _ "[]"]) (simp add: enforceRateLimit_def charges_of_def)
next
  case (Some checks)
  have live: "\<not> list_ex isl (map (\<lambda>(k, t, c, res). Inr res) as)" for as :: "answer list" by (induction as) auto
  have res: "map (projr \<circ> (\<lambda>(k, t, c, res). Inr res)) as = map (\<lambda>(k, t, c, res). res) as" for as :: "answer list"
    by (induction as) auto
  have lets: "lets_through as \<longleftrightarrow> (\<forall>x \<in> set as. allowed (case x of (k, t, c, res) \<Rightarrow> res))" for as :: "answer list"
    by (auto simp: lets_through_def)
  show ?thesis
  proof (cases checks)
    case Nil
    with assms Some show ?thesis by (intro exI [of _ "[]"]) (simp add: enforceRateLimit_def charges_of_def lets_through_def)
  next
    case (Cons ch chs)
    let ?as = "answers_of ms (charges_of now checks)"
    note all = consume_all_local [of ops now ms r checks]
    have "enforceRateLimit (backend_consume ops) now (LocalStore ms, r) route ip ctx fo reply
        = ((LocalStore (after_calls ms (charges_of now checks)), r), reply', v) \<and> (v = Some True \<longrightarrow> lets_through ?as)"
      using assms(2) unfolding enforceRateLimit_def assms(1) option.case Some Cons list.case all [unfolded Cons]
      by (auto simp: live res lets Let_def dest!: js_find_SomeD split: option.splits)
    then have "st' = (LocalStore (after_calls ms (charges_of now checks)), r) \<and> (v = Some True \<longrightarrow> lets_through ?as)"
      using assms(2) by simp
    with Some show ?thesis by blast
  qed
qed

lemma rate_stage_local:
  assumes "waits_spare (route_id route) env" "rateLimit route = Some c" "limits (route_id route) s = (Some (LocalStore ms), rest)"
    and "rate_stage env route ip ctx reply s = (s', reply', v)"
  shows "\<exists>checks. (v = Some True \<longrightarrow> rate_checks (route_id route) c ip ctx (rl_keyBy c) = Some checks)
    \<and> (checks = [] \<or> rate_checks (route_id route) c ip ctx (rl_keyBy c) = Some checks)
    \<and> limits (route_id route) s' = (Some (LocalStore (after_calls ms (charges_of (se_now env) checks))), rest)
    \<and> (v = Some True \<longrightarrow> lets_through (answers_of ms (charges_of (se_now env) checks)))"
proof -
  let ?fo = "case redis (rt_config (sv_runtime s)) of Some c \<Rightarrow> failOpen c | None \<Rightarrow> True"
  have store: "map_of (rt_rateLimitStores (sv_runtime s)) (route_id route) = Some (LocalStore ms)"
    using assms(3) by (simp add: limits_def)
  obtain st' rep w where e: "enforceRateLimit (backend_consume (se_redis env)) (se_now env) (LocalStore ms, sv_redis s) route ip ctx ?fo reply
      = (st', rep, w)" by (metis prod.exhaust)
  obtain checks where c: "w = Some True \<longrightarrow> rate_checks (route_id route) c ip ctx (rl_keyBy c) = Some checks"
    "checks = [] \<or> rate_checks (route_id route) c ip ctx (rl_keyBy c) = Some checks"
    "st' = (LocalStore (after_calls ms (charges_of (se_now env) checks)), sv_redis s)"
    "w = Some True \<longrightarrow> lets_through (answers_of ms (charges_of (se_now env) checks))"
    using enforceRateLimit_local [OF assms(2) e] by blast
  have "v = w \<and> limits (route_id route) s' = (Some (LocalStore (after_calls ms (charges_of (se_now env) checks))), rest)"
    using assms(1,2,3,4) unfolding rate_stage_def store option.case e [unfolded c(3)] prod.case
    by (auto simp: Let_def limits_put_rate split: option.splits)
  with c show ?thesis by blast
qed

lemma rate_stage_other:
  assumes "waits_spare rid env" "route_id route \<noteq> rid" "rate_stage env route ip ctx reply s = (s', reply', v)"
  shows "limits rid s' = limits rid s"
  using assms by (auto simp: rate_stage_def Let_def limits_put_rate case_prod_beta split: option.splits if_splits)

subsection \<open>A whole request\<close>

definition route_charges :: "route_config \<Rightarrow> rate_limit_config \<Rightarrow> 'r server_env \<Rightarrow> http_request \<Rightarrow> store_call list \<Rightarrow> bool" where
  "route_charges route c env req cs \<longleftrightarrow> (\<exists>ctx checks.
     rate_checks (route_id route) c (req_ip req) ctx (rl_keyBy c) = Some checks \<and> cs = charges_of (se_now env) checks)"

text \<open>
  \<open>charged\<close>: the store of the route has had the calls \<open>cs\<close>, none or those of one request, and if the
  request went further (\<open>through\<close>), it had them and every answer let it through.
\<close>

definition charged :: "route_config \<Rightarrow> rate_limit_config \<Rightarrow> 'r server_env \<Rightarrow> http_request \<Rightarrow> bool \<Rightarrow> memory_store
    \<Rightarrow> store_call list \<Rightarrow> bool" where
  "charged route c env req through ms cs \<longleftrightarrow> (cs = [] \<or> route_charges route c env req cs)
     \<and> (through \<longrightarrow> route_charges route c env req cs \<and> lets_through (answers_of ms cs))"

lemma guarded_charges:
  assumes "waits_spare (route_id route) env" "rateLimit route = Some c" "limits (route_id route) s = (Some (LocalStore ms), rest)"
  shows "\<exists>cs. limits (route_id route) (oc_server (guarded env route host req ws reply s)) = (Some (LocalStore (after_calls ms cs)), rest)
    \<and> charged route c env req (oc_actions (guarded env route host req ws reply s) \<noteq> []) ms cs"
proof -
  define hs where "hs = (case ws of Some (_, hs, _) \<Rightarrow> hs | None \<Rightarrow> req_headers req)"
  obtain au r db ks where a: "authenticateRequest (se_sha256 env) (se_jwtVerify env) (se_now env) (se_get_ok env)
      (se_set_ok env) route hs (sv_db s) (sv_keys s) reply = (au, r, db, ks)" by (metis prod.exhaust)
  let ?s = "se_meanwhile env 0 (s\<lparr>sv_db := db, sv_keys := ks\<rparr>)"
  have l: "limits (route_id route) ?s = (Some (LocalStore ms), rest)" using assms(1,3) by simp
  obtain s1 r1 v where q: "rate_stage env route (req_ip req) \<lparr>ctx_tenantId = o_tenantId au, ctx_plan = o_plan au\<rparr> r ?s = (s1, r1, v)"
    by (metis prod.exhaust)
  obtain checks where c: "v = Some True \<longrightarrow> rate_checks (route_id route) c (req_ip req)
      \<lparr>ctx_tenantId = o_tenantId au, ctx_plan = o_plan au\<rparr> (rl_keyBy c) = Some checks"
    "checks = [] \<or> rate_checks (route_id route) c (req_ip req)
      \<lparr>ctx_tenantId = o_tenantId au, ctx_plan = o_plan au\<rparr> (rl_keyBy c) = Some checks"
    "limits (route_id route) s1 = (Some (LocalStore (after_calls ms (charges_of (se_now env) checks))), rest)"
    "v = Some True \<longrightarrow> lets_through (answers_of ms (charges_of (se_now env) checks))"
    using rate_stage_local [OF assms(1,2) l q] by blast
  show ?thesis
  proof (cases "ok au")
    case False
    with a l have "limits (route_id route) (oc_server (guarded env route host req ws reply s)) = (Some (LocalStore (after_calls ms [])), rest)
        \<and> oc_actions (guarded env route host req ws reply s) = []"
      by (simp add: guarded_def Let_def hs_def)
    then show ?thesis by (intro exI [of _ "[]"]) (simp add: charged_def)
  next
    case True
    have g: "limits (route_id route) (oc_server (guarded env route host req ws reply s)) = limits (route_id route) s1
        \<and> (oc_actions (guarded env route host req ws reply s) \<noteq> [] \<longrightarrow> v = Some True)"
      using a q True assms(1)
      by (auto simp: guarded_def Let_def hs_def limits_ws_stage limits_cache_stage split: option.splits bool.splits)
    have "checks = [] \<or> route_charges route c env req (charges_of (se_now env) checks)"
      "v = Some True \<longrightarrow> route_charges route c env req (charges_of (se_now env) checks)"
      using c(1,2) by (auto simp: route_charges_def)
    with c(3,4) g show ?thesis
      by (intro exI [of _ "charges_of (se_now env) checks"]) (auto simp: charged_def charges_of_def)
  qed
qed

lemma guarded_spares:
  assumes "waits_spare rid env" "route_id route \<noteq> rid"
  shows "limits rid (oc_server (guarded env route host req ws reply s)) = limits rid s"
  using assms rate_stage_other [OF assms]
  by (auto simp: guarded_def Let_def limits_ws_stage limits_cache_stage split: prod.splits option.splits bool.splits)

lemma handler_cases:
  "(\<exists>route host ws. handler env req reply s = guarded env route host req ws reply s \<and> matched req s = Some route)
    \<or> (oc_actions (handler env req reply s) = [] \<and> oc_server (handler env req reply s) = s)"
  unfolding handler_def matched_def Let_def by (auto split: option.split sum.split)

lemma dispatch_cases:
  "(\<exists>route host ws reply. dispatch env ex req s = guarded env route host req ws reply s \<and> matched req s = Some route)
    \<or> (oc_actions (dispatch env ex req s) = [] \<and> limits rid (oc_server (dispatch env ex req s)) = limits rid s)"
proof -
  have "(\<exists>reply. dispatch env ex req s = handler env req reply s)
      \<or> (oc_actions (dispatch env ex req s) = [] \<and> limits rid (oc_server (dispatch env ex req s)) = limits rid s)"
    unfolding dispatch_def Let_def by (simp split: if_split) blast
  then show ?thesis using handler_cases [of env req _ s] by metis
qed

lemma respond_charges:
  assumes "waits_spare (route_id route) env" "rateLimit route = Some c"
    and "limits (route_id route) s = (Some (LocalStore ms), n, config)"
    and "distinct (map route_id (routes config))" "route \<in> set (routes config)"
    and "respond env ex el req s = (h, acts, s')"
  shows "\<exists>cs. limits (route_id route) s' = (Some (LocalStore (after_calls ms cs)), n, config)
    \<and> charged route c env req (acts \<noteq> [] \<and> route_of config req = Some route) ms cs"
proof -
  have config: "rt_config (sv_runtime s) = config" using assms(3) by (simp add: limits_def)
  let ?oc = "dispatch env ex req s"
  have s': "limits (route_id route) s' = limits (route_id route) (oc_server ?oc)" and acts: "acts = oc_actions ?oc"
    using assms(6) by (auto simp: respond_def Let_def split: handled.splits)
  show ?thesis
    using dispatch_cases [of env ex req s "route_id route"]
  proof (elim disjE exE conjE)
    assume "oc_actions ?oc = []" "limits (route_id route) (oc_server ?oc) = limits (route_id route) s"
    with assms(3) s' acts show ?thesis by (intro exI [of _ "[]"]) (auto simp: charged_def)
  next
    fix r host ws reply assume d: "?oc = guarded env r host req ws reply s" and m: "matched req s = Some r"
    then have of: "route_of config req = Some r" by (simp add: matched_route_of config)
    then have r: "r \<in> set (routes config)" by (auto simp: route_of_def dest: matchRoute_member)
    show ?thesis
    proof (cases "r = route")
      case True
      with guarded_charges [OF assms(1,2,3), of host req ws reply] d of s' acts show ?thesis by simp
    next
      case other: False
      with r assms(4,5) have "route_id r \<noteq> route_id route" by (metis distinct_map inj_onD)
      then have "limits (route_id route) (oc_server ?oc) = limits (route_id route) s"
        unfolding d by (rule guarded_spares [OF assms(1)])
      with of other assms(3) s' show ?thesis by (intro exI [of _ "[]"]) (auto simp: charged_def)
    qed
  qed
qed

section \<open>What many requests add up to\<close>

text \<open>The clock of the process does not run backwards.\<close>

fun clock_from :: "number \<Rightarrow> 'r turn list \<Rightarrow> bool" where
  "clock_from t [] \<longleftrightarrow> True"
| "clock_from t (tu # turns) \<longleftrightarrow> t \<le> se_now (tu_env tu) \<and> safe_int (se_now (tu_env tu)) \<and> clock_from (se_now (tu_env tu)) turns"

lemma valid_requests_earlier: "t \<le> u \<Longrightarrow> valid_requests u qs \<Longrightarrow> valid_requests t qs"
  by (cases qs) auto

lemma valid_requests_same:
  "t \<le> now \<Longrightarrow> safe_int now \<Longrightarrow> valid_requests now qs \<Longrightarrow> valid_requests t (map (\<lambda>_. (now, 1)) xs @ qs)"
  by (induction xs arbitrary: t) (auto intro: valid_requests_earlier)

lemma requests_of_append:
  "requests_of k p cs qs \<Longrightarrow> requests_of k p ds rs \<Longrightarrow> requests_of k p (cs @ ds) (qs @ rs)"
  by (simp add: requests_of_def calls_for_def)

lemma requests_of_charges:
  "\<forall>(k, q) \<in> set checks. k = key \<longrightarrow> q = p
    \<Longrightarrow> requests_of key p (charges_of now checks) (map (\<lambda>_. (now, 1)) (filter (\<lambda>c. fst c = key) checks))"
  by (induction checks) (auto simp: requests_of_def charges_of_def)

text \<open>A request that went further is among those its keys let through.\<close>

lemma charge_granted:
  "lets_through (answers_of ms (charges_of now checks)) \<Longrightarrow> (key, p) \<in> set checks
    \<Longrightarrow> now \<in> set (map fst (granted (answers_for key (answers_of ms (charges_of now checks)))))"
proof (induction checks arbitrary: ms)
  case (Cons ch checks)
  then show ?case
    by (cases ch) (force simp: charges_of_def lets_through_def granted_def case_prod_beta)
qed simp

lemma counted_calls: "now \<in> set xs \<Longrightarrow> length (filter W [now]) \<le> length (filter W xs)"
  by (auto simp: Suc_le_eq filter_empty_conv)

text \<open>
  \<open>history\<close>: the calls that a run makes for a key, and that what a route passes on is among what they let
  through, counted in any set of times.
\<close>

definition history :: "string \<Rightarrow> policy \<Rightarrow> memory_store \<Rightarrow> number \<Rightarrow> number list \<Rightarrow> store_call list \<Rightarrow> (number \<times> number) list \<Rightarrow> bool" where
  "history key p ms t0 passed cs qs \<longleftrightarrow> requests_of key p cs qs \<and> valid_requests t0 qs \<and> (\<forall>q \<in> set qs. snd q = 1)
     \<and> (\<forall>W. length (filter W passed) \<le> length (filter W (map fst (granted (answers_for key (answers_of ms cs))))))"

lemma history_turn:
  assumes "charged route c env req through ms cs" "t0 \<le> se_now env" "safe_int (se_now env)"
    and "history key p (after_calls ms cs) (se_now env) passed ds qs"
    and charges: "\<And>ctx checks. rate_checks (route_id route) c (req_ip req) ctx (rl_keyBy c) = Some checks
      \<Longrightarrow> (\<forall>(k, q) \<in> set checks. k = key \<longrightarrow> q = p) \<and> (wanted \<longrightarrow> (key, p) \<in> set checks)"
  shows "\<exists>cs' qs'. history key p ms t0 ((if through \<and> wanted then [se_now env] else []) @ passed) cs' qs'"
proof -
  have rest: "requests_of key p ds qs" "valid_requests (se_now env) qs" "\<forall>q \<in> set qs. snd q = 1"
    and more: "\<And>W. length (filter W passed) \<le> length (filter W (map fst (granted (answers_for key (answers_of (after_calls ms cs) ds)))))"
    using assms(4) by (auto simp: history_def)
  have split: "map fst (granted (answers_for key (answers_of ms (cs @ ds))))
      = map fst (granted (answers_for key (answers_of ms cs))) @ map fst (granted (answers_for key (answers_of (after_calls ms cs) ds)))"
    by (simp add: answers_of_append answers_for_def granted_def)
  show ?thesis
  proof (cases "route_charges route c env req cs")
    case True
    then obtain ctx checks where ch: "rate_checks (route_id route) c (req_ip req) ctx (rl_keyBy c) = Some checks"
      and cs: "cs = charges_of (se_now env) checks" by (auto simp: route_charges_def)
    let ?qs = "map (\<lambda>_. (se_now env, 1)) (filter (\<lambda>c. fst c = key) checks) @ qs"
    have "requests_of key p (cs @ ds) ?qs"
      using requests_of_append [OF requests_of_charges rest(1)] charges [OF ch] unfolding cs by auto
    moreover have "\<forall>q \<in> set ?qs. snd q = 1" using rest(3) by auto
    moreover have "valid_requests t0 ?qs" using assms(2,3) rest(2) by (rule valid_requests_same)
    moreover have here: "length (filter W (if through \<and> wanted then [se_now env] else []))
        \<le> length (filter W (map fst (granted (answers_for key (answers_of ms cs)))))" for W
    proof (cases "through \<and> wanted")
      case True
      then have "lets_through (answers_of ms (charges_of (se_now env) checks))" "(key, p) \<in> set checks"
        using assms(1) charges [OF ch] by (auto simp: charged_def cs)
      from counted_calls [OF charge_granted [OF this], of W] True show ?thesis unfolding cs by (simp only: if_True simp_thms)
    qed auto
    moreover have "length (filter W ((if through \<and> wanted then [se_now env] else []) @ passed))
        \<le> length (filter W (map fst (granted (answers_for key (answers_of ms (cs @ ds))))))" for W
      unfolding split filter_append length_append by (rule add_mono [OF here more])
    ultimately show ?thesis unfolding history_def by blast
  next
    case False
    then have "cs = []" "\<not> through" using assms(1) by (auto simp: charged_def)
    with rest more valid_requests_earlier [OF assms(2)] show ?thesis
      by (intro exI [of _ ds] exI [of _ qs]) (simp add: history_def)
  qed
qed

lemma run_history:
  assumes "rateLimit route = Some c" "distinct (map route_id (routes config))" "route \<in> set (routes config)"
    and charges: "\<And>req ctx checks. rate_checks (route_id route) c (req_ip req) ctx (rl_keyBy c) = Some checks
      \<Longrightarrow> (\<forall>(k, q) \<in> set checks. k = key \<longrightarrow> q = p) \<and> (P req \<longrightarrow> (key, p) \<in> set checks)"
    and "\<forall>tu \<in> set turns. quiet_turn (route_id route) tu" "clock_from t0 turns"
    and "limits (route_id route) s = (Some (LocalStore ms), n, config)"
  shows "\<exists>cs qs. history key p ms t0 (passed_on config route P (gateway_run ex el turns s)) cs qs"
  using assms(5-)
proof (induction turns arbitrary: s ms t0)
  case Nil
  then show ?case
    by (intro exI [of _ "[]"]) (simp add: history_def requests_of_def passed_on_def)
next
  case (Cons tu turns)
  let ?env = "tu_env tu" and ?req = "tu_request tu"
  have quiet: "waits_spare (route_id route) ?env" "limits (route_id route) (tu_before tu s) = (Some (LocalStore ms), n, config)"
    using Cons.prems by (simp_all add: quiet_turn_def spares_limit_def)
  obtain h acts s' where r: "respond ?env ex el ?req (tu_before tu s) = (h, acts, s')" by (metis prod.exhaust)
  obtain cs where cs: "limits (route_id route) s' = (Some (LocalStore (after_calls ms cs)), n, config)"
    "charged route c ?env ?req (acts \<noteq> [] \<and> route_of config ?req = Some route) ms cs"
    using respond_charges [OF quiet(1) assms(1) quiet(2) assms(2,3) r] by blast
  have clock: "t0 \<le> se_now ?env" "safe_int (se_now ?env)" "clock_from (se_now ?env) turns" using Cons.prems(2) by simp_all
  obtain ds qs where "history key p (after_calls ms cs) (se_now ?env) (passed_on config route P (gateway_run ex el turns s')) ds qs"
    using Cons.IH [OF _ clock(3) cs(1)] Cons.prems(1) by auto
  from history_turn [OF cs(2) clock(1,2) this charges [of ?req]] show ?case
    by (auto simp: r passed_on_def split: if_splits)
qed

section \<open>The limit holds\<close>

lemma unit_cost: "\<forall>q \<in> set rs. snd q = 1 \<Longrightarrow> total_cost rs = of_nat (length rs)"
  by (induction rs) (auto simp: total_cost_def)

lemma history_limit:
  assumes "valid_policy p" "history key p (createMemoryStore SlidingWindowLog) 0 passed cs qs"
  shows "of_nat (length (filter (\<lambda>n. t - windowMs p < n \<and> n \<le> t) passed)) \<le> limit p"
proof -
  let ?G = "granted (answers_for key (answers_of (createMemoryStore SlidingWindowLog) cs))"
  let ?W = "\<lambda>n. t - windowMs p < n \<and> n \<le> t"
  have h: "requests_of key p cs qs" "valid_requests 0 qs" "\<forall>q \<in> set qs. snd q = 1"
    "length (filter ?W passed) \<le> length (filter ?W (map fst ?G))" using assms(2) by (auto simp: history_def)
  have G: "?G = admitted slidingWindowLog p None qs"
    unfolding ms.isolation [OF refl] h(1) [unfolded requests_of_def] by (simp add: ms_run_swl from_run_admitted)
  have "\<forall>q \<in> set (sliding p t ?G). snd q = 1"
    using h(3) admitted_subset [of slidingWindowLog p None qs] unfolding G by (fastforce simp: sliding_def)
  then have "of_nat (length (sliding p t ?G)) = total_cost (sliding p t ?G)" by (simp add: unit_cost)
  also have "\<dots> \<le> limit p" using memoryStore_key_limit [OF assms(1) h(2,1)] .
  also have "length (sliding p t ?G) = length (filter ?W (map fst ?G))"
    by (simp add: sliding_def filter_map comp_def case_prod_unfold)
  finally show ?thesis using h(4) by (meson of_nat_le_iff order_trans)
qed

text \<open>What each request pays for its address, and for the route as a whole.\<close>

lemma ip_charges:
  assumes "rate_checks rid c ip' ctx (rl_keyBy c) = Some checks" "KeyIp \<in> set (rl_keyBy c)"
  shows "(\<forall>(k, q) \<in> set checks. k = rate_key rid ip ctx0 KeyIp \<longrightarrow> q = routePolicy c)
    \<and> (ip' = ip \<longrightarrow> (rate_key rid ip ctx0 KeyIp, routePolicy c) \<in> set checks)"
  using assms(2) by (auto simp: rate_checks_map [OF assms(1)] rate_key_inj image_iff simp del: rate_key.simps)

lemma global_charges:
  assumes "rate_checks rid c ip' ctx (rl_keyBy c) = Some checks" "KeyGlobal \<in> set (rl_keyBy c)" "rl_global c = Some g"
  shows "(\<forall>(k, q) \<in> set checks. k = rate_key rid ip ctx0 KeyGlobal \<longrightarrow> q = globalPolicy g)
    \<and> (True \<longrightarrow> (rate_key rid ip ctx0 KeyGlobal, globalPolicy g) \<in> set checks)"
  using assms(2,3) by (auto simp: rate_checks_map [OF assms(1)] rate_key_inj image_iff simp del: rate_key.simps)


section \<open>Witness\<close>

definition one_a_minute :: rate_limit_config where
  "one_a_minute = \<lparr>rl_algorithm = SlidingWindowLog, rl_keyBy = [KeyIp, KeyGlobal], rl_limit = 1, rl_windowSec = 60, rl_burst = None,
     rl_global = Some \<lparr>g_limit = 5, g_windowSec = 60, g_burst = None\<rparr>\<rparr>"

definition limited_route :: route_config where
  "limited_route = (bare_route ''r'')\<lparr>rateLimit := Some one_a_minute\<rparr>"

definition plain_turn :: "unit turn" where
  "plain_turn = \<lparr>tu_before = id, tu_env = quiet_env, tu_request = get_request []\<rparr>"


end
