(* ===== verification/Entry.thy ===== *)
theory Entry
  imports Lifecycle Schema Admin
begin

text \<open>
  The processes: the gateway itself (\<open>gateway/src/index.ts\<close>) from the reading of its configuration to its
  end, with the wait for Redis of \<open>buildServer\<close>, and the two scripts that an operator runs
  (\<open>scripts/seed.ts\<close>, \<open>scripts/revoke-key.ts\<close>). \<open>loaded\<close> is what \<open>loadConfig\<close> returned or threw.
\<close>

section \<open>The gateway\<close>

text \<open>
  \<open>waitForRedis\<close>: the events of the client until it resolves; \<open>Some\<close> is what is left of them. Both
  listeners are taken off when the first is called, so later events find none.
\<close>

datatype redis_event = RedisReady | RedisClose | RedisError

fun waitForRedis :: "bool \<Rightarrow> redis_event list \<Rightarrow> redis_event list option" where
  "waitForRedis True es = Some es"
| "waitForRedis False [] = None"
| "waitForRedis False (e # es) = (if e = RedisReady \<or> e = RedisClose then Some es else waitForRedis False es)"

text \<open>A Redis that is down does not hold up the start: its first failed attempt ends with \<open>close\<close>.\<close>

lemma waitForRedis_resolves:
  "waitForRedis ready es \<noteq> None \<longleftrightarrow> ready \<or> RedisReady \<in> set es \<or> RedisClose \<in> set es"
  by (induction ready es rule: waitForRedis.induct) auto

text \<open>
  \<open>main\<close>: an exception while the module is loaded or the server is built ends the process. \<open>ready\<close> and
  \<open>es\<close> are the state of the Redis client, where there is one, and its events; \<open>Starting\<close>: still waiting for it.
\<close>

datatype 'r process = Exited nat | Starting | Listening "'r lifecycle"

definition main :: "string + gateway_config \<Rightarrow> database \<Rightarrow> key_cache \<Rightarrow> 'r \<Rightarrow> bool \<Rightarrow> bool \<Rightarrow> redis_event list \<Rightarrow> (nat \<Rightarrow> bool)
    \<Rightarrow> 'r process" where
  "main loaded tables keys r migrated ready es listens =
     (case loaded of
        Inl e \<Rightarrow> Exited 1
      | Inr config \<Rightarrow>
          (case boot tables keys r migrated config of
             None \<Rightarrow> Exited 1
           | Some l \<Rightarrow>
               if lc_client l \<and> waitForRedis ready es = None then Starting
               else if listens (port (server config)) then Listening l else Exited 1))"

lemma main_not_held_up: "ready \<or> RedisReady \<in> set es \<or> RedisClose \<in> set es \<Longrightarrow> main loaded tables keys r migrated ready es listens \<noteq> Starting"
  unfolding waitForRedis_resolves [symmetric] by (auto simp: main_def split: sum.split option.split)

text \<open>\<open>shutdown\<close>, on SIGTERM or SIGINT: what is left of the server, and the exit.\<close>

definition shutdown :: "string list \<Rightarrow> bool \<Rightarrow> 'r lifecycle \<Rightarrow> 'r lifecycle \<times> 'r process" where
  "shutdown tenant_ids up l = (lc_close tenant_ids up l, Exited 0)"

text \<open>What a closed server must not hold any more.\<close>

definition released :: "'r lifecycle \<Rightarrow> bool" where
  "released l \<longleftrightarrow> lc_intervals l = [] \<and> \<not> lc_usageTimer l \<and> \<not> lc_sighup l \<and> \<not> lc_fileWatcher l \<and> \<not> lc_pool l \<and> \<not> lc_client l
     \<and> pred_option (\<lambda>u. ub_buffer u = []) (sv_usage (lc_server l))"


section \<open>The scripts\<close>

text \<open>\<open>seed.ts\<close>: the exit code, and what it leaves and prints when it succeeds.\<close>

definition seed_script :: "string + gateway_config \<Rightarrow> bool \<Rightarrow> (string \<Rightarrow> string) \<Rightarrow> string \<Rightarrow> (nat \<Rightarrow> string) \<Rightarrow> number \<Rightarrow> database
    \<Rightarrow> nat \<times> (database \<times> created_key) option" where
  "seed_script loaded migrated sha256 secret ids now d =
     (case loaded of
        Inl e \<Rightarrow> (1, None)
      | Inr config \<Rightarrow>
          if db_url config = None then (1, None)
          else if \<not> migrated then (1, None)
          else (case seed_main sha256 secret ids now d of
              Inl e \<Rightarrow> (1, None)
            | Inr (d', key) \<Rightarrow> (0, Some (d', key))))"

text \<open>\<open>revoke-key.ts\<close>: \<open>arg\<close> is \<open>process.argv[2]\<close>; the tables and the key cache in Redis after it.\<close>

definition revoke_script :: "string option \<Rightarrow> string + gateway_config \<Rightarrow> bool \<Rightarrow> number \<Rightarrow> database \<Rightarrow> key_cache
    \<Rightarrow> nat \<times> database \<times> key_cache" where
  "revoke_script arg loaded del_ok now d keys =
     (case arg of
        None \<Rightarrow> (1, d, keys)
      | Some keyId \<Rightarrow>
          if keyId = [] then (1, d, keys)
          else (case loaded of
              Inl e \<Rightarrow> (1, d, keys)
            | Inr config \<Rightarrow>
                if db_url config = None then (1, d, keys)
                else (case revoke_key_main del_ok now keyId d (if redis config = None then None else Some keys) of
                    (revoked, d', keys') \<Rightarrow>
                      (if revoked = Some True then 0 else 1, d', (case keys' of Some m \<Rightarrow> m | None \<Rightarrow> keys)))))"

text \<open>What the seed leaves: the key of a tenant on the plan \<open>free\<close>.\<close>

lemma ensurePlan_row:
  assumes "ensurePlan i name rate win bst d = Inr (d', p)"
  shows "p \<in> set (plans d') \<and> pl_name p = name \<and> set (plans d) \<subseteq> set (plans d') \<and> tenants d' = tenants d \<and> api_keys d' = api_keys d
    \<and> (findPlanByName name d = None \<longrightarrow> pl_rate_limit p = rate \<and> pl_window_sec p = win \<and> pl_burst p = bst)"
proof (cases "findPlanByName name d")
  case None
  with assms show ?thesis by (auto simp: ensurePlan_def createPlan_def Let_def split: if_splits)
next
  case (Some q)
  with assms have "d' = d" "p = q" by (simp_all add: ensurePlan_def)
  with Some show ?thesis unfolding findPlanByName_def by (auto dest: js_find_SomeD)
qed

lemma seed_main_key:
  assumes "seed_main sha256 secret ids now d = Inr (d', key)"
  shows "\<exists>d0 t. createApiKey sha256 secret (ids 3) now (tn_id t) (Some ''seed key'') None None d0 = Inr (d', key)
    \<and> t \<in> set (tenants d0) \<and> tn_status t = ''active'' \<and> tn_plan_id t \<in> set (map pl_id (plans d0)) \<and> api_keys d0 = api_keys d"
proof -
  obtain d1 free d2 pro where p: "ensurePlan (ids 0) ''free'' 100 60 20 d = Inr (d1, free)" "ensurePlan (ids 1) ''pro'' 1000 60 200 d1 = Inr (d2, pro)"
    and rest: "(case createTenant (ids 2) now ''demo-tenant'' (pl_id free) d2 of Inl e \<Rightarrow> Inl e
      | Inr (d, tenant) \<Rightarrow> createApiKey sha256 secret (ids 3) now (tn_id tenant) (Some ''seed key'') None None d) = Inr (d', key)"
    using assms by (auto simp: seed_main_def split: sum.splits prod.splits)
  note free = ensurePlan_row [OF p(1)] and pro = ensurePlan_row [OF p(2)]
  obtain d3 t where t: "createTenant (ids 2) now ''demo-tenant'' (pl_id free) d2 = Inr (d3, t)"
    and k: "createApiKey sha256 secret (ids 3) now (tn_id t) (Some ''seed key'') None None d3 = Inr (d', key)"
    using rest by (auto split: sum.splits prod.splits)
  have "t \<in> set (tenants d3)" "tn_status t = ''active''" "tn_plan_id t = pl_id free" "plans d3 = plans d2" "api_keys d3 = api_keys d2"
    using t by (auto simp: createTenant_def Let_def split: if_splits)
  with k free pro show ?thesis by (intro exI [of _ d3] exI [of _ t]) auto
qed


section \<open>Witnesses\<close>

definition full_config :: gateway_config where
  "full_config = (small_config [])\<lparr>db_url := Some ''pg'', redis := Some \<lparr>redis_url = ''redis'', failOpen = True\<rparr>\<rparr>"

definition seed_ids :: "nat \<Rightarrow> string" where
  "seed_ids n = replicate (n + 1) (CHR ''i'')"



end
