(* ===== verification/Comparison.thy ===== *)
theory Comparison
  imports MemoryStore
begin

text \<open>
  \<open>core/scripts/compare-algorithms.ts\<close>: the policy, the four scenarios and the table they give. The table is
  computed in the kernel, with every rounding of binary64, and is the one of \<open>packages/core/README.md\<close>.
\<close>

section \<open>The script\<close>

definition POLICY :: policy where
  "POLICY = \<lparr>limit = 10, windowMs = 1000, burst = Some 10\<rparr>"

text \<open>The table \<open>algorithms\<close>, each entry closed over the loop \<open>run\<close>.\<close>

definition algorithms :: "(string \<times> (number list \<Rightarrow> nat \<times> nat)) list" where
  "algorithms =
     [(''fixedWindow'', \<lambda>ts. run fixedWindow POLICY None ts (0, 0)),
      (''tokenBucket'', \<lambda>ts. run tokenBucket POLICY None ts (0, 0)),
      (''leakyBucket'', \<lambda>ts. run leakyBucket POLICY None ts (0, 0)),
      (''slidingWindowLog'', \<lambda>ts. run slidingWindowLog POLICY None ts (0, 0)),
      (''slidingWindowCounter'', \<lambda>ts. run slidingWindowCounter POLICY None ts (0, 0))]"

definition instantBurst :: "number list" where
  "instantBurst = map (\<lambda>_. 0) [0..<30]"

definition boundaryBurst :: "number list" where
  "boundaryBurst = map (\<lambda>i. 990 + of_nat i) [0..<10] @ map (\<lambda>i. 1000 + of_nat i) [0..<10]"

definition exactRate :: "number list" where
  "exactRate = map (\<lambda>i. of_nat i * 100) [0..<50]"

definition overRate :: "number list" where
  "overRate = map (\<lambda>i. of_nat i * 80) [0..<63]"

text \<open>The rows of \<open>printScenario\<close>: a name, what was allowed and what denied.\<close>

definition printScenario :: "number list \<Rightarrow> (string \<times> nat \<times> nat) list" where
  "printScenario timestamps = map (\<lambda>(name, algorithm). (name, algorithm timestamps)) algorithms"

section \<open>Rounding by integer arithmetic\<close>

text \<open>The integer nearest to a quotient, ties to even; and a quotient rounded to a multiple of a power of two.\<close>

definition rnd_quot :: "int \<Rightarrow> int \<Rightarrow> int" where
  "rnd_quot p q =
     (let f = p div q; r = 2 * (p mod q) in if r < q then f else if q < r then f + 1 else if even f then f else f + 1)"

definition rnd_at :: "int \<Rightarrow> int \<Rightarrow> int \<Rightarrow> number" where
  "rnd_at p q k =
     (if 0 \<le> k then of_int (rnd_quot (p * 2 ^ nat k) q) / of_int (2 ^ nat k)
      else of_int (rnd_quot p (q * 2 ^ nat (- k))) * of_int (2 ^ nat (- k)))"

definition rnd_from :: "int \<Rightarrow> int \<Rightarrow> int \<Rightarrow> number" where
  "rnd_from p q e =
     (if (if 0 \<le> e then q * 2 ^ nat e \<le> p else q \<le> p * 2 ^ nat (- e)) then rnd_at p q (52 - e) else rnd_at p q (53 - e))"

fun num_bits :: "num \<Rightarrow> nat" where
  "num_bits num.One = 1"
| "num_bits (num.Bit0 n) = num_bits n + 1"
| "num_bits (num.Bit1 n) = num_bits n + 1"

lemma round_half_even_quot:
  assumes "0 < q"
  shows "round_half_even (of_int p / of_int q) = rnd_quot p q"
proof -
  have f: "\<lfloor>of_int p / of_int q :: rat\<rfloor> = p div q" by (rule floor_divide_of_int_eq)
  have "of_int p = of_int (p div q) * of_int q + (of_int (p mod q) :: rat)"
    by (metis div_mult_mod_eq of_int_add of_int_mult)
  then have d: "of_int p / of_int q - of_int (p div q) = (of_int (p mod q) / of_int q :: rat)"
    using assms by (simp add: field_simps)
  have half: "(of_int (p mod q) / of_int q < (1 / 2 :: rat)) = (2 * (p mod q) < q)"
    "((1 / 2 :: rat) < of_int (p mod q) / of_int q) = (q < 2 * (p mod q))"
    using assms by (simp_all add: field_simps) (metis of_int_less_iff of_int_mult of_int_numeral mult.commute)+
  show ?thesis unfolding round_half_even_def rnd_quot_def Let_def f d half ..
qed

lemma rnd_at_spec:
  assumes "0 < q"
  shows "of_int (round_half_even (of_int p / of_int q / 2 powi (- k))) * 2 powi (- k) = rnd_at p q k"
proof (cases "0 \<le> k")
  case True
  then have k: "(2 powi (- k) :: rat) = 1 / of_int (2 ^ nat k)" by (simp add: power_int_def field_simps)
  have "of_int p / of_int q / (1 / of_int (2 ^ nat k)) = (of_int (p * 2 ^ nat k) / of_int q :: rat)" by simp
  then show ?thesis unfolding k rnd_at_def using True round_half_even_quot [OF assms, of "p * 2 ^ nat k"] by simp
next
  case False
  then have k: "(2 powi (- k) :: rat) = of_int (2 ^ nat (- k))" by (simp add: power_int_def)
  have "of_int p / of_int q / of_int (2 ^ nat (- k)) = (of_int p / of_int (q * 2 ^ nat (- k)) :: rat)" by simp
  then show ?thesis unfolding k rnd_at_def using False assms round_half_even_quot [of "q * 2 ^ nat (- k)" p] by simp
qed

lemma rnd_from_spec:
  assumes "0 < p" "0 < q" "2 powi (e - 1) \<le> (of_int p / of_int q :: rat)" "of_int p / of_int q < (2 powi (e + 1) :: rat)"
  shows "round64 (of_int p / of_int q) = rnd_from p q e"
proof -
  let ?x = "of_int p / of_int q :: rat"
  have x: "0 < ?x" using assms by simp
  then have abs: "\<bar>?x\<bar> = ?x" by (rule abs_of_pos)
  have cond: "(if 0 \<le> e then q * 2 ^ nat e \<le> p else q \<le> p * 2 ^ nat (- e)) \<longleftrightarrow> 2 powi e \<le> ?x"
  proof (cases "0 \<le> e")
    case True
    then have "2 powi e \<le> ?x \<longleftrightarrow> of_int (q * 2 ^ nat e) \<le> (of_int p :: rat)"
      using assms(2) by (simp add: power_int_def field_simps)
    with True show ?thesis unfolding of_int_le_iff by simp
  next
    case False
    then have "2 powi e \<le> ?x \<longleftrightarrow> of_int q \<le> (of_int (p * 2 ^ nat (- e)) :: rat)"
      using assms(2) by (simp add: power_int_def field_simps)
    with False show ?thesis unfolding of_int_le_iff by simp
  qed
  have at: "round64 ?x = rnd_at p q (52 - f)" if "expo64 ?x = f" for f
    using x assms(1,2) rnd_at_spec [OF assms(2), of p "52 - f"] by (simp add: round64_def that Let_def)
  show ?thesis
  proof (cases "2 powi e \<le> ?x")
    case True
    then have "expo64 ?x = e" using assms(4) by (intro expo64_unique) (simp_all only: abs)
    with True show ?thesis unfolding rnd_from_def cond by (simp add: at)
  next
    case False
    then have "expo64 ?x = e - 1" using assms(3) by (intro expo64_unique) (simp_all only: abs not_le diff_add_cancel)
    with False show ?thesis unfolding rnd_from_def cond using at [of "e - 1"] by simp
  qed
qed

lemma num_bits_bounds: "2 ^ num_bits n \<le> (2 * numeral n :: int)" "numeral n < (2 ^ num_bits n :: int)"
proof (induction n)
  case (Bit0 n)
  case 1 show ?case using Bit0 numeral_Bit0 [of n, where 'a = int] unfolding num_bits.simps power_add power_one_right by linarith
  case 2 show ?case using Bit0 numeral_Bit0 [of n, where 'a = int] unfolding num_bits.simps power_add power_one_right by linarith
next
  case (Bit1 n)
  case 1 show ?case using Bit1 numeral_Bit1 [of n, where 'a = int] unfolding num_bits.simps power_add power_one_right by linarith
  case 2 show ?case using Bit1 numeral_Bit1 [of n, where 'a = int] unfolding num_bits.simps power_add power_one_right by linarith
qed simp_all

lemma quotient_between:
  assumes "A \<le> 2 * a" "a < A" "B \<le> 2 * b" "b < B" "0 < a" "0 < (b :: rat)"
  shows "A / B / 2 \<le> a / b" "a / b < A / B * 2"
proof -
  have "(A / 2) / B \<le> a / b" using assms by (intro frac_le) auto
  then show "A / B / 2 \<le> a / b" by simp
  have "a / b < A / (B / 2)" using assms by (intro frac_less) auto
  then show "a / b < A / B * 2" by simp
qed

lemma round64_quot:
  "round64 (numeral a / numeral b) = rnd_from (numeral a) (numeral b) (int (num_bits a) - int (num_bits b))"
proof -
  let ?x = "numeral a / numeral b :: rat" and ?e = "int (num_bits a) - int (num_bits b)"
  have a: "2 ^ num_bits a \<le> (2 * numeral a :: rat)" "numeral a < (2 ^ num_bits a :: rat)"
    using num_bits_bounds [of a] by (metis of_int_le_iff of_int_mult of_int_numeral of_int_power, metis of_int_less_iff of_int_numeral of_int_power)
  have b: "2 ^ num_bits b \<le> (2 * numeral b :: rat)" "numeral b < (2 ^ num_bits b :: rat)"
    using num_bits_bounds [of b] by (metis of_int_le_iff of_int_mult of_int_numeral of_int_power, metis of_int_less_iff of_int_numeral of_int_power)
  have e: "2 powi ?e = (2 ^ num_bits a / 2 ^ num_bits b :: rat)" by (simp add: power_int_diff)
  have "2 ^ num_bits a / 2 ^ num_bits b / 2 \<le> ?x" "?x < 2 ^ num_bits a / 2 ^ num_bits b * 2"
    using quotient_between [OF a b] by simp_all
  then have "2 powi (?e - 1) \<le> ?x" "?x < 2 powi (?e + 1)" by (simp_all add: power_int_diff power_int_add e)
  then show ?thesis using rnd_from_spec [of "numeral a" "numeral b" ?e] by simp
qed

lemma round64_quot1: "round64 (1 / numeral b) = rnd_from 1 (numeral b) (1 - int (num_bits b))"
  using round64_quot [of num.One b] by simp

lemma round64_num: "numeral n \<le> (9007199254740992 :: int) \<Longrightarrow> round64 (numeral n) = numeral n"
  using round64_int [of "numeral n"] by simp

lemma round64_1: "round64 1 = 1"
  using round64_int [of 1] by simp

lemma floor_quot: "\<lfloor>numeral a / numeral b :: rat\<rfloor> = numeral a div numeral b"
  using floor_divide_of_int_eq [of "numeral a" "numeral b", where 'a = rat] by simp

lemma floor_quot1: "\<lfloor>1 / numeral b :: rat\<rfloor> = 1 div numeral b"
  using floor_divide_of_int_eq [of 1 "numeral b", where 'a = rat] by simp

section \<open>The runs\<close>

text \<open>
  The loop, one decision at a time, on the states of each algorithm under the policy: a \<open>_take\<close> is unfolded
  once its arguments are numerals.
\<close>

lemmas rounding_rules = round64_quot round64_quot1 round64_num round64_1 rnd_from_def rnd_at_def rnd_quot_def round64_minus floor_quot floor_quot1

lemma RATE: "round64 (1 / 100) = 5764607523034235 / 576460752303423488"
  by (simp add: rounding_rules)

lemma policy_rules:
  "capacity POLICY = 10" "limit POLICY = 10" "windowMs POLICY = 1000"
  "rate_per_ms POLICY = 5764607523034235 / 576460752303423488"
  by (simp_all add: POLICY_def capacity_def rate_per_ms_def js_div_def RATE)

lemma run_one:
  "run alg p s (now # ts) (a, d)
    = run alg p (Some (fst (alg s p now 1))) ts (if allowed (snd (alg s p now 1)) then (a + 1, d) else (a, d + 1))"
  by (simp add: case_prod_beta)

subsection \<open>tokenBucket and leakyBucket\<close>

definition tb_go :: "number \<Rightarrow> number \<Rightarrow> number list \<Rightarrow> nat \<Rightarrow> nat \<Rightarrow> nat \<times> nat" where
  "tb_go tok seen ts a d = run tokenBucket POLICY (Some \<lparr>tb_tokens = tok, tb_lastRefillMs = seen\<rparr>) ts (a, d)"

definition tb_take :: "number \<Rightarrow> number \<Rightarrow> number list \<Rightarrow> nat \<Rightarrow> nat \<Rightarrow> nat \<times> nat" where
  "tb_take av now ts a d = (if 1 \<le> av then tb_go (round64 (av - 1)) now ts (a + 1) d else tb_go av now ts a (d + 1))"

lemma tb_rules:
  "run tokenBucket POLICY None (now # ts) (a, d) = tb_go 10 now (now # ts) a d"
  "tb_go tok seen [] a d = (a, d)"
  "tb_go tok seen (now # ts) a d
    = tb_take (min 10 (round64 (tok + round64 (max 0 (round64 (now - seen)) * (5764607523034235 / 576460752303423488))))) now ts a d"
  by (simp_all add: tb_go_def tb_take_def run_one tokenBucket_def policy_rules elapsed_since_def js_ops Let_def del: run.simps(2))

definition lb_go :: "number \<Rightarrow> number \<Rightarrow> number list \<Rightarrow> nat \<Rightarrow> nat \<Rightarrow> nat \<times> nat" where
  "lb_go level seen ts a d = run leakyBucket POLICY (Some \<lparr>lb_level = level, lb_lastLeakMs = seen\<rparr>) ts (a, d)"

definition lb_add :: "number \<Rightarrow> number \<Rightarrow> number \<Rightarrow> number list \<Rightarrow> nat \<Rightarrow> nat \<Rightarrow> nat \<times> nat" where
  "lb_add level filled now ts a d = (if filled \<le> 10 then lb_go filled now ts (a + 1) d else lb_go level now ts a (d + 1))"

definition lb_take :: "number \<Rightarrow> number \<Rightarrow> number list \<Rightarrow> nat \<Rightarrow> nat \<Rightarrow> nat \<times> nat" where
  "lb_take level now ts a d = lb_add level (round64 (level + 1)) now ts a d"

lemma lb_step:
  defines "l \<equiv> \<lambda>level seen now. max 0 (js_sub level (js_mul (elapsed_since seen now) (rate_per_ms POLICY)))"
  shows "allowed (snd (leakyBucket (Some \<lparr>lb_level = level, lb_lastLeakMs = seen\<rparr>) POLICY now 1)) \<longleftrightarrow> js_add (l level seen now) 1 \<le> 10"
    and "fst (leakyBucket (Some \<lparr>lb_level = level, lb_lastLeakMs = seen\<rparr>) POLICY now 1)
      = \<lparr>lb_level = (if js_add (l level seen now) 1 \<le> 10 then js_add (l level seen now) 1 else l level seen now), lb_lastLeakMs = now\<rparr>"
  unfolding l_def leakyBucket_def Let_def policy_rules(1) by (simp_all only: option.case leaky_bucket_state.simps rate_result.simps fst_conv snd_conv)

lemma lb_rules:
  "run leakyBucket POLICY None (now # ts) (a, d) = lb_go 0 now (now # ts) a d"
  "lb_go level seen [] a d = (a, d)"
  "lb_go level seen (now # ts) a d
    = lb_take (max 0 (round64 (level - round64 (max 0 (round64 (now - seen)) * (5764607523034235 / 576460752303423488))))) now ts a d"
proof -
  have "leakyBucket None POLICY now 1 = leakyBucket (Some \<lparr>lb_level = 0, lb_lastLeakMs = now\<rparr>) POLICY now 1"
    unfolding leakyBucket_def by (simp only: option.case leaky_bucket_state.simps)
  then show "run leakyBucket POLICY None (now # ts) (a, d) = lb_go 0 now (now # ts) a d" unfolding lb_go_def run_one by (simp only:)
qed (unfold lb_go_def lb_take_def lb_add_def run_one lb_step js_ops policy_rules elapsed_since_def,
    simp_all only: run.simps(1) if_True if_False split: if_split, blast)

subsection \<open>The windows\<close>

definition fw_go :: "number \<Rightarrow> number \<Rightarrow> number list \<Rightarrow> nat \<Rightarrow> nat \<Rightarrow> nat \<times> nat" where
  "fw_go w n ts a d = run fixedWindow POLICY (Some \<lparr>fw_windowStart = w, fw_count = n\<rparr>) ts (a, d)"

definition fw_add :: "number \<Rightarrow> number \<Rightarrow> number list \<Rightarrow> nat \<Rightarrow> nat \<Rightarrow> nat \<times> nat" where
  "fw_add w n ts a d = (if round64 (n + 1) \<le> 10 then fw_go w (round64 (n + 1)) ts (a + 1) d else fw_go w n ts a (d + 1))"

definition fw_take :: "number \<Rightarrow> number \<Rightarrow> number \<Rightarrow> number list \<Rightarrow> nat \<Rightarrow> nat \<Rightarrow> nat \<times> nat" where
  "fw_take v n w ts a d = fw_add w (if v = w then n else 0) ts a d"

lemma fw_rules:
  "run fixedWindow POLICY None (now # ts) (a, d) = fw_go 0 0 (now # ts) a d"
  "fw_go v n [] a d = (a, d)"
  "fw_go v n (now # ts) a d = fw_take v n (round64 (of_int \<lfloor>round64 (now / 1000)\<rfloor> * 1000)) ts a d"
  by (simp_all add: fw_go_def fw_take_def fw_add_def run_one fixedWindow_def policy_rules js_ops Let_def del: run.simps(2))

definition swl_go :: "(number \<times> number) list \<Rightarrow> number list \<Rightarrow> nat \<Rightarrow> nat \<Rightarrow> nat \<times> nat" where
  "swl_go es ts a d = run slidingWindowLog POLICY (Some \<lparr>swl_entries = es\<rparr>) ts (a, d)"

definition swl_take :: "(number \<times> number) list \<Rightarrow> number \<Rightarrow> number list \<Rightarrow> nat \<Rightarrow> nat \<Rightarrow> nat \<times> nat" where
  "swl_take es now ts a d =
     (if round64 (foldl (\<lambda>acc (ts, c). round64 (acc + c)) 0 es + 1) \<le> 10 then swl_go (es @ [(now, 1)]) ts (a + 1) d
      else swl_go es ts a (d + 1))"

lemma swl_rules:
  "run slidingWindowLog POLICY None (now # ts) (a, d) = swl_go [] (now # ts) a d"
  "swl_go es [] a d = (a, d)"
  "swl_go es (now # ts) a d = swl_take (filter (\<lambda>(ts, c). round64 (now - 1000) < ts) es) now ts a d"
  by (simp_all add: swl_go_def swl_take_def run_one slidingWindowLog_def policy_rules js_ops Let_def del: run.simps(2))

definition swc_go :: "number \<Rightarrow> number \<Rightarrow> number \<Rightarrow> number list \<Rightarrow> nat \<Rightarrow> nat \<Rightarrow> nat \<times> nat" where
  "swc_go v prev cur ts a d = run slidingWindowCounter POLICY
     (Some \<lparr>swc_windowStart = v, swc_previousCount = prev, swc_currentCount = cur\<rparr>) ts (a, d)"

definition swc_add :: "number \<Rightarrow> number \<Rightarrow> number \<Rightarrow> number \<Rightarrow> number list \<Rightarrow> nat \<Rightarrow> nat \<Rightarrow> nat \<times> nat" where
  "swc_add w prev cur estimate ts a d =
     (if round64 (estimate + 1) \<le> 10 then swc_go w prev (round64 (cur + 1)) ts (a + 1) d else swc_go w prev cur ts a (d + 1))"

definition swc_take :: "number \<Rightarrow> number \<times> number \<Rightarrow> number \<Rightarrow> number list \<Rightarrow> nat \<Rightarrow> nat \<Rightarrow> nat \<times> nat" where
  "swc_take w counts now ts a d = swc_add w (fst counts) (snd counts)
     (round64 (round64 (fst counts * max 0 (round64 (round64 (1000 - round64 (now - w)) / 1000))) + snd counts)) ts a d"

definition swc_window :: "number \<Rightarrow> number \<Rightarrow> number \<Rightarrow> number \<Rightarrow> number \<Rightarrow> number list \<Rightarrow> nat \<Rightarrow> nat \<Rightarrow> nat \<times> nat" where
  "swc_window v prev cur w now ts a d =
     swc_take w (if v = w then (prev, cur) else if v = round64 (w - 1000) then (cur, 0) else (0, 0)) now ts a d"

lemma swc_step:
  fixes v prev cur now :: number
  defines "w \<equiv> js_mul (js_floor (js_div now (windowMs POLICY))) (windowMs POLICY)"
  defines "c \<equiv> if v = w then (prev, cur) else if v = js_sub w (windowMs POLICY) then (cur, 0) else (0, 0)"
  defines "e \<equiv> js_add (js_mul (fst c) (max 0 (js_div (js_sub (windowMs POLICY) (js_sub now w)) (windowMs POLICY)))) (snd c)"
  shows "allowed (snd (slidingWindowCounter (Some \<lparr>swc_windowStart = v, swc_previousCount = prev, swc_currentCount = cur\<rparr>) POLICY now 1))
      \<longleftrightarrow> js_add e 1 \<le> limit POLICY"
    and "fst (slidingWindowCounter (Some \<lparr>swc_windowStart = v, swc_previousCount = prev, swc_currentCount = cur\<rparr>) POLICY now 1)
      = \<lparr>swc_windowStart = w, swc_previousCount = fst c, swc_currentCount = (if js_add e 1 \<le> limit POLICY then js_add (snd c) 1 else snd c)\<rparr>"
  unfolding e_def c_def w_def slidingWindowCounter_def carryForward_def Let_def
  by (simp_all only: option.case sliding_window_counter_state.simps rate_result.simps fst_conv snd_conv case_prod_beta)

lemma swc_rules:
  "run slidingWindowCounter POLICY None (now # ts) (a, d) = swc_go 0 0 0 (now # ts) a d"
  "swc_go v prev cur [] a d = (a, d)"
  "swc_go v prev cur (now # ts) a d = swc_window v prev cur (round64 (of_int \<lfloor>round64 (now / 1000)\<rfloor> * 1000)) now ts a d"
proof -
  have "carryForward None w n = carryForward (Some \<lparr>swc_windowStart = 0, swc_previousCount = 0, swc_currentCount = 0\<rparr>) w n" for w n
    by (simp add: carryForward_def)
  then have "slidingWindowCounter None POLICY now 1
      = slidingWindowCounter (Some \<lparr>swc_windowStart = 0, swc_previousCount = 0, swc_currentCount = 0\<rparr>) POLICY now 1"
    unfolding slidingWindowCounter_def by (simp only:)
  then show "run slidingWindowCounter POLICY None (now # ts) (a, d) = swc_go 0 0 0 (now # ts) a d" unfolding swc_go_def run_one by (simp only:)
qed (unfold swc_go_def swc_window_def swc_take_def swc_add_def run_one swc_step js_ops policy_rules,
    simp_all only: run.simps(1) if_True if_False split: if_split, blast?)

lemmas tb_evaluate = tb_rules tb_take_def rounding_rules
lemmas lb_evaluate = lb_rules lb_take_def lb_add_def rounding_rules
lemmas fw_evaluate = fw_rules fw_take_def fw_add_def rounding_rules
lemmas swl_evaluate = swl_rules swl_take_def rounding_rules
lemmas swc_evaluate = swc_rules swc_window_def swc_take_def swc_add_def rounding_rules

section \<open>The table\<close>

lemma scenario_lists:
  "instantBurst = [0, 0, 0, 0, 0, 0, 0, 0, 0, 0, 0, 0, 0, 0, 0, 0, 0, 0, 0, 0, 0, 0, 0, 0, 0, 0, 0, 0, 0, 0]"
  "boundaryBurst = [990, 991, 992, 993, 994, 995, 996, 997, 998, 999, 1000, 1001, 1002, 1003, 1004, 1005, 1006, 1007, 1008, 1009]"
  "exactRate = [0, 100, 200, 300, 400, 500, 600, 700, 800, 900, 1000, 1100, 1200, 1300, 1400, 1500, 1600, 1700, 1800, 1900, 2000, 2100,
    2200, 2300, 2400, 2500, 2600, 2700, 2800, 2900, 3000, 3100, 3200, 3300, 3400, 3500, 3600, 3700, 3800, 3900, 4000, 4100, 4200, 4300,
    4400, 4500, 4600, 4700, 4800, 4900]"
  "overRate = [0, 80, 160, 240, 320, 400, 480, 560, 640, 720, 800, 880, 960, 1040, 1120, 1200, 1280, 1360, 1440, 1520, 1600, 1680, 1760,
    1840, 1920, 2000, 2080, 2160, 2240, 2320, 2400, 2480, 2560, 2640, 2720, 2800, 2880, 2960, 3040, 3120, 3200, 3280, 3360, 3440, 3520,
    3600, 3680, 3760, 3840, 3920, 4000, 4080, 4160, 4240, 4320, 4400, 4480, 4560, 4640, 4720, 4800, 4880, 4960]"
  by (simp_all add: instantBurst_def boundaryBurst_def exactRate_def overRate_def upt_conv_Cons)

lemma fixedWindow_instantBurst: "run fixedWindow POLICY None instantBurst (0, 0) = (10, 20)"
  by (simp add: scenario_lists fw_evaluate del: run.simps(2))

lemma fixedWindow_boundaryBurst: "run fixedWindow POLICY None boundaryBurst (0, 0) = (20, 0)"
  by (simp add: scenario_lists fw_evaluate del: run.simps(2))

lemma fixedWindow_exactRate: "run fixedWindow POLICY None exactRate (0, 0) = (50, 0)"
  by (simp add: scenario_lists fw_evaluate del: run.simps(2))

lemma fixedWindow_overRate: "run fixedWindow POLICY None overRate (0, 0) = (50, 13)"
  by (simp add: scenario_lists fw_evaluate del: run.simps(2))

lemma tokenBucket_instantBurst: "run tokenBucket POLICY None instantBurst (0, 0) = (10, 20)"
  by (simp add: scenario_lists tb_evaluate del: run.simps(2))

lemma tokenBucket_boundaryBurst: "run tokenBucket POLICY None boundaryBurst (0, 0) = (10, 10)"
  by (simp add: scenario_lists tb_evaluate del: run.simps(2))

lemma tokenBucket_exactRate: "run tokenBucket POLICY None exactRate (0, 0) = (50, 0)"
  by (simp add: scenario_lists tb_evaluate del: run.simps(2))

lemma tokenBucket_overRate: "run tokenBucket POLICY None overRate (0, 0) = (59, 4)"
  by (simp add: scenario_lists tb_evaluate del: run.simps(2))

lemma leakyBucket_instantBurst: "run leakyBucket POLICY None instantBurst (0, 0) = (10, 20)"
  by (simp add: scenario_lists lb_evaluate del: run.simps(2))

lemma leakyBucket_boundaryBurst: "run leakyBucket POLICY None boundaryBurst (0, 0) = (10, 10)"
  by (simp add: scenario_lists lb_evaluate del: run.simps(2))

lemma leakyBucket_exactRate: "run leakyBucket POLICY None exactRate (0, 0) = (50, 0)"
  by (simp add: scenario_lists lb_evaluate del: run.simps(2))

lemma leakyBucket_overRate: "run leakyBucket POLICY None overRate (0, 0) = (59, 4)"
  by (simp add: scenario_lists lb_evaluate del: run.simps(2))

lemma slidingWindowLog_instantBurst: "run slidingWindowLog POLICY None instantBurst (0, 0) = (10, 20)"
  by (simp add: scenario_lists swl_evaluate del: run.simps(2))

lemma slidingWindowLog_boundaryBurst: "run slidingWindowLog POLICY None boundaryBurst (0, 0) = (10, 10)"
  by (simp add: scenario_lists swl_evaluate del: run.simps(2))

lemma slidingWindowLog_exactRate: "run slidingWindowLog POLICY None exactRate (0, 0) = (50, 0)"
  by (simp add: scenario_lists swl_evaluate del: run.simps(2))

lemma slidingWindowLog_overRate: "run slidingWindowLog POLICY None overRate (0, 0) = (50, 13)"
  by (simp add: scenario_lists swl_evaluate del: run.simps(2))

lemma slidingWindowCounter_instantBurst: "run slidingWindowCounter POLICY None instantBurst (0, 0) = (10, 20)"
  by (simp add: scenario_lists swc_evaluate del: run.simps(2))

lemma slidingWindowCounter_boundaryBurst: "run slidingWindowCounter POLICY None boundaryBurst (0, 0) = (10, 10)"
  by (simp add: scenario_lists swc_evaluate del: run.simps(2))

lemma slidingWindowCounter_exactRate: "run slidingWindowCounter POLICY None exactRate (0, 0) = (46, 4)"
  by (simp add: scenario_lists swc_evaluate del: run.simps(2))

lemma slidingWindowCounter_half:
  "swc_go 0 0 0 (0 # 80 # 160 # 240 # 320 # 400 # 480 # 560 # 640 # 720 # 800 # 880 # 960 # 1040 # 1120 # 1200 # 1280 # 1360 # 1440 #
      1520 # 1600 # 1680 # 1760 # 1840 # 1920 # 2000 # 2080 # 2160 # 2240 # 2320 # 2400 # us) 0 0
    = swc_go 2000 9 4 us 23 8"
  by (simp add: swc_evaluate del: run.simps(2)) (simp add: numeral_eq_Suc)

lemma slidingWindowCounter_overRate: "run slidingWindowCounter POLICY None overRate (0, 0) = (46, 17)"
  unfolding scenario_lists swc_rules(1) slidingWindowCounter_half
  by (simp add: swc_evaluate del: run.simps(2))

text \<open>
  The table of the README. Only \<open>fixedWindow\<close> lets twice the limit through at the boundary of two windows; the
  two buckets answer alike; \<open>slidingWindowCounter\<close> refuses 4 of 50 requests that keep exactly to the rate.
\<close>

theorem readme_table:
  "printScenario instantBurst = [(''fixedWindow'', 10, 20), (''tokenBucket'', 10, 20), (''leakyBucket'', 10, 20),
    (''slidingWindowLog'', 10, 20), (''slidingWindowCounter'', 10, 20)]"
  "printScenario boundaryBurst = [(''fixedWindow'', 20, 0), (''tokenBucket'', 10, 10), (''leakyBucket'', 10, 10),
    (''slidingWindowLog'', 10, 10), (''slidingWindowCounter'', 10, 10)]"
  "printScenario exactRate = [(''fixedWindow'', 50, 0), (''tokenBucket'', 50, 0), (''leakyBucket'', 50, 0),
    (''slidingWindowLog'', 50, 0), (''slidingWindowCounter'', 46, 4)]"
  "printScenario overRate = [(''fixedWindow'', 50, 13), (''tokenBucket'', 59, 4), (''leakyBucket'', 59, 4),
    (''slidingWindowLog'', 50, 13), (''slidingWindowCounter'', 46, 17)]"
  unfolding printScenario_def algorithms_def
  by (simp_all only: list.map prod.case fixedWindow_instantBurst tokenBucket_instantBurst leakyBucket_instantBurst
      slidingWindowLog_instantBurst slidingWindowCounter_instantBurst fixedWindow_boundaryBurst tokenBucket_boundaryBurst
      leakyBucket_boundaryBurst slidingWindowLog_boundaryBurst slidingWindowCounter_boundaryBurst fixedWindow_exactRate
      tokenBucket_exactRate leakyBucket_exactRate slidingWindowLog_exactRate slidingWindowCounter_exactRate fixedWindow_overRate
      tokenBucket_overRate leakyBucket_overRate slidingWindowLog_overRate slidingWindowCounter_overRate)

lemma run_counts: "run alg p s ts (a, d) = (a', d') \<Longrightarrow> a' + d' = a + d + length ts"
  by (induction ts arbitrary: s a d) (auto simp: case_prod_beta split: if_splits)

end
