(* ===== verification/Spec2Isabelle.thy ===== *)
theory Spec2Isabelle
  imports Runtime Admin Instances Sockets Reload Schema Migrations ClientIp Lifecycle Logging Limited Entry Comparison
begin

text \<open>
  A model of APIgate: an API gateway (\<open>packages/gateway\<close>), the library it is built on (\<open>packages/core\<close>:
  rate limiting, response caching, circuit breaking, credentials) and two middlewares over that library
  (\<open>packages/adapters\<close>).

  The program. A request passes the header and body limits, is matched to a route, authenticated (API key,
  JWT or not at all), charged to the route's rate limit, looked up in the response cache, and forwarded to a
  target that the route's balancer picks, with retries and a circuit breaker per target; or, for a WebSocket
  handshake, turned into a tunnel. Rate limits and cached responses live in the process or in Redis, where
  several instances share them; plans, tenants, keys and usage live in PostgreSQL; an operator's API changes
  them. The routes can be exchanged while the gateway runs.

  The theories, in order of their dependence; file names are below \<open>packages/core/src\<close> or
  \<open>packages/gateway/src\<close>.

  Foundations. \<open>Prelude\<close>: JavaScript strings. \<open>JsNumber\<close>: numbers, rounded to binary64 (locale \<open>rounding\<close>).
  \<open>JsParse\<close>: \<open>Number(s)\<close>. \<open>Http\<close>: headers, requests and replies, \<open>http/bearerToken.ts\<close>.

  Rate limiting. \<open>RateLimit\<close>: policy, result and the locale \<open>rate_algorithm\<close>, what every algorithm promises.
  \<open>FixedWindow\<close>, \<open>SlidingWindowLog\<close>, \<open>SlidingWindowCounter\<close>, \<open>TokenBucket\<close>, \<open>LeakyBucket\<close>:
  \<open>ratelimit/algorithms\<close>, each an interpretation of it with a bound on what a run admits; the two buckets share
  \<open>Bucket\<close> (locale \<open>bucket_algorithm\<close>). \<open>MemoryStore\<close>: \<open>stores/memoryStore.ts\<close>, whose keys are
  independent (locale \<open>rate_store\<close>). \<open>Comparison\<close>: \<open>scripts/compare-algorithms.ts\<close> and the table of the README
  it produces, computed in the kernel with every rounding. \<open>RateLimitHook\<close>: \<open>ratelimit/index.ts\<close>. \<open>Adapters\<close>: the Express and
  Fastify middlewares (locale \<open>store_middleware\<close>). \<open>ClientIp\<close>: \<open>trustProxy\<close> and the limit per address.

  Redis. \<open>Redis\<close>: the server as a parameter, a record of commands, with its documented behaviour as the
  hypothesis \<open>behaves\<close> and a keyspace that has it (locale \<open>redis_server\<close>). \<open>RedisScripts\<close>:
  the five Lua scripts and \<open>stores/redisStore.ts\<close>. \<open>RedisStore\<close>, \<open>RedisLog\<close>: the scripts answer as the
  algorithms do (locales \<open>redis_algorithm\<close>, \<open>hash_algorithm\<close>); where they do not: skewed clocks, a changed
  algorithm. \<open>RedisCache\<close>: \<open>cache/redisStore.ts\<close>. \<open>Instances\<close>: what one instance stored another serves.

  Responses. \<open>CachePolicy\<close>, \<open>CacheStore\<close> (locale \<open>cache_store\<close>), \<open>CacheKey\<close>: \<open>cache/policy.ts\<close>,
  \<open>cache/memoryStore.ts\<close> and the gateway's \<open>cache/index.ts\<close>: what may be stored, the store, and which
  requests share an entry.

  Upstreams. \<open>CircuitBreaker\<close>, \<open>Balancer\<close>, \<open>Retry\<close>, \<open>Forward\<close>: \<open>breaker/circuitBreaker.ts\<close> and \<open>proxy\<close>:
  the breaker as a state machine among its callers, round robin over the available targets, attempts and their
  reports, the URL and headers sent. \<open>Routing\<close>: \<open>routing\<close>. \<open>Cors\<close>, \<open>BodyLimits\<close>: \<open>cors\<close>, \<open>security\<close>.

  Credentials and data. \<open>ApiKey\<close>: \<open>auth/apiKey.ts\<close>, \<open>auth/jwt.ts\<close>, \<open>admin/auth.ts\<close>. \<open>Database\<close>: the
  repositories as operations on tables with the constraints of the migrations. \<open>Migrations\<close>:
  \<open>db/client.ts\<close>, alone and on instances that start together. \<open>AuthHook\<close>: the gateway's \<open>auth/index.ts\<close>,
  lookups and revocations step by step. \<open>Usage\<close>: \<open>usage/buffer.ts\<close> and the usage repositories. \<open>Admin\<close>:
  \<open>admin/routes.ts\<close> and the scripts \<open>seed.ts\<close> and \<open>revoke-key.ts\<close>. \<open>Metrics\<close>, \<open>Logging\<close>: \<open>observability\<close>.

  WebSockets. \<open>UrlToken\<close>, \<open>Upgrade\<close>, \<open>Registry\<close>: \<open>websocket/url.ts\<close>, \<open>upgrade.ts\<close>, \<open>registry.ts\<close>. \<open>WsTunnel\<close>:
  the closure \<open>acceptClient\<close> of \<open>websocket/proxy.ts\<close> as a step function on its variables, one event per
  callback. \<open>WsProxy\<close>: the handshake. \<open>Sockets\<close>: all tunnels of a server with their registry, gauge and
  usage records.

  The gateway. \<open>Config\<close>, \<open>Schema\<close>: the types of \<open>config/schema.ts\<close> and what it accepts, \<open>config/load.ts\<close>.
  \<open>Server\<close>: \<open>buildRuntimeState\<close> and the catch-all handler of \<open>server.ts\<close>, stage by stage. \<open>Pipeline\<close>: the
  hooks around it; \<open>respond\<close> is a whole request. \<open>Runtime\<close>: the form of a runtime state. \<open>Reload\<close>: the
  checks at the start, \<open>reload\<close>, and the triggers of \<open>config/watch.ts\<close>. \<open>Lifecycle\<close>: start, reloads and
  close with the intervals, watchers and clients they hold. \<open>Limited\<close>: the limit of a route over runs of
  requests. \<open>Entry\<close>: \<open>index.ts\<close>, from the configuration to the exit, and what the two scripts leave.

  What is proved. Of each algorithm a bound on everything it can admit, for every run; that stores keep keys
  apart and that the shared store decides as the local one; of the hook, the breaker, the balancer and the
  retries their exact outcome; of the cache that it serves only what was stored, only under the key of the same
  request and tenant, and nothing after a purge or the time to live; of the keys that one handed out is
  accepted and a revoked one is not, once its cache entry is gone; of a tunnel that it relays in order and
  without loss, ends exactly once and is counted; of the whole handler that nothing reaches an upstream past
  a refusal and that what an accepted configuration matches is served; of reloads that they are atomic and
  leak nothing; of whole runs of requests that the limit of a route holds at its upstream, and of the process
  that what it was started with it ends with. Several theorems end in a behaviour the code did not intend, as the theorems of kind error
  and the lemmas beside them show: a race, a collision, a limit that does not bind.

  Conventions. A definition has the name of the function it models. State is passed explicitly; what a
  function awaits is an argument (an environment), and what others do in the meantime is in it. Errors are
  options, sums or replies. A time is an argument where the code reads a clock. Recursion is structural or has
  a termination proof, so no bound on steps is chosen anywhere; loops over events are over the list of events.

  Assumptions. Numbers have an unbounded exponent. Strings are sequences of characters below 256, as the HTTP
  parser delivers headers and URLs. A transaction takes effect at its commit. JSON returns what was put
  into it, SCAN returns every key that stays, a digest does not collide: each is a hypothesis of the theorems
  that rest on it, with an instance in their witnesses.

  Parameters. The text Lua makes of numbers from 10 to the 14 on, SHA-256, random bytes, signature checks, the
  HTTP client, the \<open>ws\<close> library's events, the database clock, the Redis server and the events of its client,
  the schema library's walk, YAML, the file system, the forwarded address walk.

  Not modelled. The plumbing of raw sockets in \<open>upgrade.ts\<close>; creation of the pool and of the clients; the
  registration of collectors and the text of metrics, logs and error messages; the example server under
  \<open>examples\<close>; re-exports.
\<close>

end
